(* ===== verification/PMU_Prelude.thy ===== *)
theory PMU_Prelude
  imports Main "HOL-Library.Word" "HOL-Library.Monad_Syntax"
begin

text \<open>
  Shared vocabulary of the development: the machine integers of the code, byte buffers
  with bounds-checked access, the monadic loop that models \<open>for\<close> statements, and the
  two specification relations every frame component is proved against, \<open>emits\<close> (a
  generator writes exactly these bytes and nothing else) and \<open>holds_at\<close> (these bytes
  stand at this offset).

  Conventions.  A \<open>std::uint8_t*\<close> argument is a pair of the allocation it points into
  (a list of bytes) and an offset.  An operation that reads or writes outside the allocation,
  indexes a \<open>std::vector\<close> out of range or converts a floating-point value to an integer type
  that cannot hold it has undefined behaviour; in the model it returns \<open>None\<close>.  A
  \<open>std::size_t\<close> is a \<open>nat\<close>; where the code subtracts, the wrap-around at
  \<open>2 ^ 64\<close> is written out (\<open>size_sub\<close>).
\<close>

unbundle bit_operations_syntax

type_synonym u8 = "8 word"
type_synonym u16 = "16 word"
type_synonym u32 = "32 word"
type_synonym u64 = "64 word"
type_synonym buffer = "u8 list"
type_synonym cursor = "buffer \<times> u16" \<comment> \<open>a buffer being written and the code's \<open>bytes_used\<close>\<close>

named_theorems emit_rules "what a generator step writes"
named_theorems parse_rules "what a parser step reads"

section \<open>Bounds-checked memory\<close>

definition rd8 :: "buffer \<Rightarrow> nat \<Rightarrow> u8 option" where
  "rd8 b i = (if i < length b then Some (b ! i) else None)"

text \<open>\<open>data[i]\<close> with a computed index of type \<open>int\<close>, which can be negative.\<close>

definition rd8_int :: "buffer \<Rightarrow> int \<Rightarrow> u8 option" where
  "rd8_int b i = (if i < 0 then None else rd8 b (nat i))"

definition wr8 :: "buffer \<Rightarrow> nat \<Rightarrow> u8 \<Rightarrow> buffer option" where
  "wr8 b i v = (if i < length b then Some (b[i := v]) else None)"

text \<open>\<open>memcpy\<close> out of and into a buffer, \<open>memset\<close> into it.\<close>

definition rd_bytes :: "buffer \<Rightarrow> nat \<Rightarrow> nat \<Rightarrow> u8 list option" where
  "rd_bytes b off n = (if off + n \<le> length b then Some (take n (drop off b)) else None)"

definition overlay :: "nat \<Rightarrow> u8 list \<Rightarrow> buffer \<Rightarrow> buffer" where
  "overlay off bs b = take off b @ bs @ drop (off + length bs) b"

definition wr_bytes :: "buffer \<Rightarrow> nat \<Rightarrow> u8 list \<Rightarrow> buffer option" where
  "wr_bytes b off bs = (if off + length bs \<le> length b then Some (overlay off bs b) else None)"

definition memset :: "buffer \<Rightarrow> nat \<Rightarrow> u8 \<Rightarrow> nat \<Rightarrow> buffer option" where
  "memset b off v n = wr_bytes b off (replicate n v)"

text \<open>Subscripting a \<open>std::vector\<close>.\<close>

definition idx :: "'a list \<Rightarrow> nat \<Rightarrow> 'a option" where
  "idx xs i = (if i < length xs then Some (xs ! i) else None)"

definition size_sub :: "nat \<Rightarrow> nat \<Rightarrow> nat" where
  "size_sub a b = (if b \<le> a then a - b else a + 2 ^ 64 - b)"

text \<open>\<open>vec.resize(n)\<close> with value-initialised new elements.\<close>

definition resize :: "nat \<Rightarrow> 'a \<Rightarrow> 'a list \<Rightarrow> 'a list" where
  "resize n z xs = take n xs @ replicate (n - length xs) z"

section \<open>Loops\<close>

text \<open>\<open>for (x : xs) s = body(x, s)\<close>, where the body may be undefined.\<close>

fun mfold :: "('a \<Rightarrow> 's \<Rightarrow> 's option) \<Rightarrow> 'a list \<Rightarrow> 's \<Rightarrow> 's option" where
  "mfold f [] s = Some s"
| "mfold f (x # xs) s = do { s' \<leftarrow> f x s; mfold f xs s' }"

text \<open>
  \<open>vec.resize(n); for (ii < n) { vec[ii] = read at bytes_used; bytes_used += ... }\<close>: every
  element is overwritten, so the vector is the list of the values read, in order.
\<close>

fun rd_each :: "(buffer \<Rightarrow> nat \<Rightarrow> ('a \<times> nat) option) \<Rightarrow> nat \<Rightarrow> buffer \<Rightarrow> nat \<Rightarrow> ('a list \<times> nat) option"
where
  "rd_each rd 0 b off = Some ([], off)"
| "rd_each rd (Suc n) b off =
     do { (x, off1) \<leftarrow> rd b off;
          (xs, off2) \<leftarrow> rd_each rd n b off1;
          Some (x # xs, off2) }"

lemma mfold_append: "mfold f (xs @ ys) s = do { s' \<leftarrow> mfold f xs s; mfold f ys s' }"
  by (induction xs arbitrary: s) (auto split: option.splits Option.bind_splits)

lemma mfold_cong_set:
  "(\<And>x s. x \<in> set xs \<Longrightarrow> f x s = g x s) \<Longrightarrow> mfold f xs s = mfold g xs s"
proof (induction xs arbitrary: s)
  case (Cons x xs)
  then have "mfold f xs = mfold g xs" by (intro ext) simp
  with Cons.prems show ?case by simp
qed simp

lemma mfold_map: "mfold f (map h xs) = mfold (\<lambda>x. f (h x)) xs"
proof (induction xs)
  case (Cons x xs)
  then show ?case by (intro ext) simp
qed (simp add: fun_eq_iff)

lemma mfold_invariant:
  assumes "mfold f xs s = Some t" "P s"
    and "\<And>x s s'. x \<in> set xs \<Longrightarrow> P s \<Longrightarrow> f x s = Some s' \<Longrightarrow> P s'"
  shows "P t"
  using assms
proof (induction xs arbitrary: s)
  case (Cons x xs)
  then obtain s1 where s1: "f x s = Some s1" "mfold f xs s1 = Some t"
    by (auto split: Option.bind_splits)
  have "P s1" using Cons.prems(2) s1(1) by (rule Cons.prems(3)[rotated]) simp
  with s1(2) show ?case
  proof (rule Cons.IH)
    show "P s''" if "y \<in> set xs" "P s'" "f y s' = Some s''" for y s' s''
      using Cons.prems(3)[OF _ that(2,3)] that(1) by simp
  qed
qed simp

section \<open>Facts on memory\<close>

lemma length_overlay [simp]: "off + length bs \<le> length b \<Longrightarrow> length (overlay off bs b) = length b"
  by (simp add: overlay_def)

lemma overlay_Nil [simp]: "overlay off [] b = b"
  by (simp add: overlay_def)

lemma nth_overlay:
  "off + length bs \<le> length b \<Longrightarrow> i < length b \<Longrightarrow>
   overlay off bs b ! i = (if off \<le> i \<and> i < off + length bs then bs ! (i - off) else b ! i)"
  by (auto simp: overlay_def nth_append min_def)

lemma overlay_append:
  assumes "off + length xs + length ys \<le> length b"
  shows "overlay (off + length xs) ys (overlay off xs b) = overlay off (xs @ ys) b"
proof (rule nth_equalityI)
  show "length (overlay (off + length xs) ys (overlay off xs b)) = length (overlay off (xs @ ys) b)"
    using assms by simp
next
  fix k assume "k < length (overlay (off + length xs) ys (overlay off xs b))"
  then have k: "k < length b" using assms by simp
  show "overlay (off + length xs) ys (overlay off xs b) ! k = overlay off (xs @ ys) b ! k"
    using assms k by (simp add: nth_overlay nth_append) (auto simp: diff_diff_left)
qed

lemma overlay_overlay_disjoint:
  assumes "i + length xs \<le> j" "j + length ys \<le> length b"
  shows "overlay i xs (overlay j ys b) = overlay j ys (overlay i xs b)"
proof (rule nth_equalityI)
  show "length (overlay i xs (overlay j ys b)) = length (overlay j ys (overlay i xs b))"
    using assms by simp
next
  fix k assume "k < length (overlay i xs (overlay j ys b))"
  then have k: "k < length b" using assms by simp
  show "overlay i xs (overlay j ys b) ! k = overlay j ys (overlay i xs b) ! k"
    using assms k by (simp add: nth_overlay)
qed

lemma take_overlay [simp]:
  "off + length bs \<le> length b \<Longrightarrow> n \<le> off \<Longrightarrow> take n (overlay off bs b) = take n b"
  by (simp add: overlay_def min_def)

lemma wr8_overlay: "wr8 b i v = (if i < length b then Some (overlay i [v] b) else None)"
  by (simp add: wr8_def overlay_def upd_conv_take_nth_drop)

lemma wr8_ok [simp]: "i < length b \<Longrightarrow> wr8 b i v = Some (overlay i [v] b)"
  by (simp add: wr8_overlay)

lemma wr_bytes_ok [simp]: "off + length bs \<le> length b \<Longrightarrow> wr_bytes b off bs = Some (overlay off bs b)"
  by (simp add: wr_bytes_def)

lemma rd8_ok [simp]: "i < length b \<Longrightarrow> rd8 b i = Some (b ! i)"
  by (simp add: rd8_def)

lemma rd_bytes_ok [simp]: "off + n \<le> length b \<Longrightarrow> rd_bytes b off n = Some (take n (drop off b))"
  by (simp add: rd_bytes_def)

lemma idx_ok [simp]: "i < length xs \<Longrightarrow> idx xs i = Some (xs ! i)"
  by (simp add: idx_def)

lemma length_resize [simp]: "length (resize n z xs) = n"
  by (simp add: resize_def)

section \<open>Bytes standing at an offset\<close>

definition holds_at :: "buffer \<Rightarrow> nat \<Rightarrow> u8 list \<Rightarrow> bool" where
  "holds_at b off bs \<longleftrightarrow> off + length bs \<le> length b \<and> take (length bs) (drop off b) = bs"

lemma holds_at_length: "holds_at b off bs \<Longrightarrow> off + length bs \<le> length b"
  by (simp add: holds_at_def)

lemma holds_at_nth: "holds_at b off bs \<Longrightarrow> i < length bs \<Longrightarrow> b ! (off + i) = bs ! i"
  by (metis holds_at_def nth_drop nth_take add_leD1)

lemma holds_at_iff_nth:
  "holds_at b off bs \<longleftrightarrow> off + length bs \<le> length b \<and> (\<forall>i < length bs. b ! (off + i) = bs ! i)"
proof
  assume h: "holds_at b off bs"
  then show "off + length bs \<le> length b \<and> (\<forall>i < length bs. b ! (off + i) = bs ! i)"
    using holds_at_nth holds_at_length by blast
next
  assume "off + length bs \<le> length b \<and> (\<forall>i < length bs. b ! (off + i) = bs ! i)"
  then show "holds_at b off bs"
    unfolding holds_at_def by (auto intro!: nth_equalityI)
qed

lemma holds_at_append:
  "holds_at b off (xs @ ys) \<longleftrightarrow> holds_at b off xs \<and> holds_at b (off + length xs) ys"
proof
  assume h: "holds_at b off (xs @ ys)"
  then have len: "off + length xs + length ys \<le> length b"
    and nth: "\<And>i. i < length xs + length ys \<Longrightarrow> b ! (off + i) = (xs @ ys) ! i"
    by (auto simp: holds_at_iff_nth)
  have "b ! (off + length xs + i) = ys ! i" if "i < length ys" for i
    using nth[of "length xs + i"] that by (simp add: add.assoc nth_append)
  moreover have "b ! (off + i) = xs ! i" if "i < length xs" for i
    using nth[of i] that by (simp add: nth_append)
  ultimately show "holds_at b off xs \<and> holds_at b (off + length xs) ys"
    using len by (simp add: holds_at_iff_nth)
next
  assume h: "holds_at b off xs \<and> holds_at b (off + length xs) ys"
  have "b ! (off + i) = (xs @ ys) ! i" if "i < length xs + length ys" for i
  proof (cases "i < length xs")
    case False
    with that h show ?thesis
      by (auto simp: holds_at_iff_nth nth_append dest: spec[of _ "i - length xs"])
  qed (use h in \<open>simp add: holds_at_iff_nth nth_append\<close>)
  with h show "holds_at b off (xs @ ys)"
    by (simp add: holds_at_iff_nth)
qed

lemma holds_at_Nil [simp]: "holds_at b off [] \<longleftrightarrow> off \<le> length b"
  by (simp add: holds_at_def)

lemma holds_at_Cons:
  "holds_at b off (x # xs) \<longleftrightarrow> off < length b \<and> b ! off = x \<and> holds_at b (Suc off) xs"
proof -
  have "holds_at b off [x] \<longleftrightarrow> off < length b \<and> b ! off = x"
    by (auto simp: holds_at_def take_Suc hd_drop_conv_nth drop_eq_Nil)
  then show ?thesis
    using holds_at_append[of b off "[x]" xs] by simp
qed

lemma holds_at_overlay:
  "off + length bs \<le> length b \<Longrightarrow> holds_at (overlay off bs b) off bs"
  by (simp add: holds_at_def overlay_def)

lemma holds_at_overlay_before:
  assumes "off + length bs \<le> i" "i + length xs \<le> length b"
  shows "holds_at (overlay i xs b) off bs = holds_at b off bs"
  using assms by (simp add: holds_at_iff_nth nth_overlay)

lemma holds_at_overlay_after:
  assumes "i + length xs \<le> off" "i + length xs \<le> length b"
  shows "holds_at (overlay i xs b) off bs = holds_at b off bs"
  using assms by (auto simp: holds_at_iff_nth nth_overlay)

lemma rd_bytes_holds [parse_rules]: "holds_at b off bs \<Longrightarrow> rd_bytes b off (length bs) = Some bs"
  by (simp add: holds_at_def)

lemma rd8_holds [parse_rules]: "holds_at b off bs \<Longrightarrow> i < length bs \<Longrightarrow> rd8 b (off + i) = Some (bs ! i)"
  using holds_at_nth[of b off bs i] holds_at_length[of b off bs] by simp

lemma holds_at_take_drop: "off + n \<le> length b \<Longrightarrow> holds_at b off (take n (drop off b))"
  by (simp add: holds_at_def)

section \<open>What a generator step writes\<close>

text \<open>
  \<open>emits base m bs\<close>: started with \<open>bytes_used = u\<close> and room for \<open>bs\<close>, the step \<open>m\<close>
  stores \<open>bs\<close> at \<open>data + u\<close> (\<open>data\<close> points at offset \<open>base\<close>), leaves every other byte
  alone and advances \<open>bytes_used\<close> by the length of \<open>bs\<close>.
\<close>

definition emits :: "nat \<Rightarrow> (cursor \<Rightarrow> cursor option) \<Rightarrow> u8 list \<Rightarrow> bool" where
  "emits base m bs \<longleftrightarrow>
     (\<forall>b used. base + unat used + length bs \<le> length b \<longrightarrow> unat used + length bs < 65536 \<longrightarrow>
        m (b, used) = Some (overlay (base + unat used) bs b, used + of_nat (length bs)))"

lemma emitsI:
  assumes "\<And>b used. base + unat used + length bs \<le> length b \<Longrightarrow> unat used + length bs < 65536 \<Longrightarrow>
     m (b, used) = Some (overlay (base + unat used) bs b, used + of_nat (length bs))"
  shows "emits base m bs"
  using assms by (simp add: emits_def)

lemma emitsD:
  assumes "emits base m bs" "base + unat used + length bs \<le> length b" "unat used + length bs < 65536"
  shows "m (b, used) = Some (overlay (base + unat used) bs b, used + of_nat (length bs))"
  using assms by (simp add: emits_def)

lemma unat16: "n < 65536 \<Longrightarrow> unat (of_nat n :: u16) = n"
  by (simp add: unat_of_nat take_bit_eq_mod)

lemma uint16: "n < 65536 \<Longrightarrow> uint (of_nat n :: u16) = int n"
  by (simp add: uint_nat unat16)

lemma unat_add_small:
  fixes u :: u16
  assumes "unat u + n < 65536"
  shows "unat (u + of_nat n) = unat u + n"
proof -
  have n: "unat (of_nat n :: u16) = n"
    using assms by (simp add: unat_of_nat take_bit_eq_mod)
  show ?thesis
    using assms by (subst unat_add_lem [THEN iffD1]) (simp_all add: n)
qed

lemma unat_add_numeral:
  fixes u :: u16
  assumes "unat u + numeral k < 65536"
  shows "unat (u + numeral k) = unat u + numeral k"
  using unat_add_small[of u "numeral k"] assms by simp

lemma emits_seq [emit_rules]:
  assumes 1: "emits base m xs" and 2: "emits base m' ys"
  shows "emits base (\<lambda>s. do { s' \<leftarrow> m s; m' s' }) (xs @ ys)"
proof (rule emitsI)
  fix b :: buffer and used :: u16
  assume len: "base + unat used + length (xs @ ys) \<le> length b"
    and small: "unat used + length (xs @ ys) < 65536"
  have u: "unat (used + of_nat (length xs)) = unat used + length xs"
    using small by (intro unat_add_small) simp
  have "m (b, used) = Some (overlay (base + unat used) xs b, used + of_nat (length xs))"
    using len small by (intro emitsD[OF 1]) simp_all
  moreover have "m' (overlay (base + unat used) xs b, used + of_nat (length xs)) =
      Some (overlay (base + unat used + length xs) ys (overlay (base + unat used) xs b),
            used + of_nat (length xs) + of_nat (length ys))"
    using emitsD[OF 2, of "used + of_nat (length xs)" "overlay (base + unat used) xs b"] len small u
    by (simp add: add.assoc)
  ultimately show "(do { s' \<leftarrow> m (b, used); m' s' }) =
      Some (overlay (base + unat used) (xs @ ys) b, used + of_nat (length (xs @ ys)))"
    using len overlay_append[of "base + unat used" xs ys b] by (simp add: add.assoc)
qed

lemma emits_skip: "emits base Some []"
  by (simp add: emits_def)

lemma emits_mfold [emit_rules]:
  assumes "\<And>x. x \<in> set xs \<Longrightarrow> emits base (f x) (enc x)"
  shows "emits base (mfold f xs) (concat (map enc xs))"
  using assms
proof (induction xs)
  case Nil
  then show ?case by (simp add: emits_def)
next
  case (Cons x xs)
  have "emits base (\<lambda>s. do { s' \<leftarrow> f x s; mfold f xs s' }) (enc x @ concat (map enc xs))"
    using Cons by (intro emits_seq) simp_all
  then show ?case by (simp add: emits_def)
qed

section \<open>Fields of a wire format\<close>

text \<open>
  The contract between a generator and the matching parser of one kind of field: \<open>enc\<close> is the
  field's wire format, \<open>put\<close> writes it, \<open>get\<close> reads it back as \<open>canon x\<close> (the field as the wire
  can carry it).  Every repeated field of a frame is an instance; the facts on runs of
  fields are proved here once.
\<close>

locale wire_field =
  fixes put :: "'a \<Rightarrow> nat \<Rightarrow> cursor \<Rightarrow> cursor option"
    and get :: "buffer \<Rightarrow> nat \<Rightarrow> ('b \<times> nat) option"
    and enc :: "'a \<Rightarrow> u8 list"
    and canon :: "'a \<Rightarrow> 'b"
    and ok :: "'a \<Rightarrow> bool"
  assumes put_emits: "ok x \<Longrightarrow> emits base (put x base) (enc x)"
    and get_enc: "ok x \<Longrightarrow> holds_at b off (enc x) \<Longrightarrow> get b off = Some (canon x, off + length (enc x))"
begin

lemma put_run:
  assumes "list_all ok xs"
  shows "emits base (mfold (\<lambda>x. put x base) xs) (concat (map enc xs))"
  using assms by (intro emits_mfold put_emits) (simp add: list_all_iff)

lemma get_run:
  assumes "list_all ok xs" "holds_at b off (concat (map enc xs))" "n = length xs"
  shows "rd_each get n b off = Some (map canon xs, off + length (concat (map enc xs)))"
  using assms
proof (induction xs arbitrary: off n)
  case (Cons x xs)
  from Cons.prems have x: "holds_at b off (enc x)"
    and xs: "holds_at b (off + length (enc x)) (concat (map enc xs))"
    by (simp_all add: holds_at_append)
  have "rd_each get (length xs) b (off + length (enc x)) =
      Some (map canon xs, off + length (enc x) + length (concat (map enc xs)))"
    using Cons.prems xs by (intro Cons.IH) simp_all
  with Cons.prems get_enc[OF _ x] show ?case by (simp add: add.assoc)
qed simp

lemma get_put:
  assumes "ok x" "base + unat used + length (enc x) \<le> length b" "unat used + length (enc x) < 65536"
  shows "do { (b', used') \<leftarrow> put x base (b, used); get b' (base + unat used) } =
     Some (canon x, base + unat used + length (enc x))"
  using emitsD[OF put_emits[OF assms(1)] assms(2,3)] assms
  by (simp add: get_enc holds_at_overlay)

end

end
