(* ===== verification/Net_Bytes.thy ===== *)
theory Net_Bytes
  imports PMU_Prelude
begin

text \<open>
  Integers in memory and on the wire.  The code moves integers between structures and packets
  with \<open>memcpy\<close> and converts byte order with the socket functions \<open>htons\<close>, \<open>ntohs\<close>,
  \<open>htonl\<close>, \<open>ntohl\<close> (POSIX and Winsock: host order to and from big-endian network order) and
  \<open>htonf\<close>, \<open>ntohf\<close> (Winsock: the same on the bit pattern of a \<open>float\<close>).  The host is
  little-endian, as the x86 targets of the build are: \<open>memcpy\<close> of an integer is its
  little-endian byte list, and the conversions swap bytes.  The lemmas show that the compositions
  the code uses read and write big-endian bytes, which is all later theories rely on.
\<close>

section \<open>Host representation\<close>

definition le16 :: "u16 \<Rightarrow> u8 list" where
  "le16 w = [ucast w, ucast (drop_bit 8 w)]"

definition le32 :: "u32 \<Rightarrow> u8 list" where
  "le32 w = [ucast w, ucast (drop_bit 8 w), ucast (drop_bit 16 w), ucast (drop_bit 24 w)]"

fun of_le16 :: "u8 list \<Rightarrow> u16" where
  "of_le16 [a, b] = ucast a OR push_bit 8 (ucast b)"
| "of_le16 _ = 0"

fun of_le32 :: "u8 list \<Rightarrow> u32" where
  "of_le32 [a, b, c, d] =
     ucast a OR push_bit 8 (ucast b) OR push_bit 16 (ucast c) OR push_bit 24 (ucast d)"
| "of_le32 _ = 0"

text \<open>\<open>memcpy(&x, data + off, sizeof(x))\<close> and \<open>memcpy(data + off, &x, sizeof(x))\<close>.\<close>

definition load16 :: "buffer \<Rightarrow> nat \<Rightarrow> u16 option" where
  "load16 b off = map_option of_le16 (rd_bytes b off 2)"

definition load32 :: "buffer \<Rightarrow> nat \<Rightarrow> u32 option" where
  "load32 b off = map_option of_le32 (rd_bytes b off 4)"

definition store16 :: "buffer \<Rightarrow> nat \<Rightarrow> u16 \<Rightarrow> buffer option" where
  "store16 b off w = wr_bytes b off (le16 w)"

definition store32 :: "buffer \<Rightarrow> nat \<Rightarrow> u32 \<Rightarrow> buffer option" where
  "store32 b off w = wr_bytes b off (le32 w)"

section \<open>Byte-order conversion\<close>

definition htons :: "u16 \<Rightarrow> u16" where
  "htons w = push_bit 8 w OR drop_bit 8 w"

definition htonl :: "u32 \<Rightarrow> u32" where
  "htonl w = push_bit 24 w OR push_bit 8 (w AND 0xFF00) OR (drop_bit 8 w AND 0xFF00) OR drop_bit 24 w"

abbreviation ntohs :: "u16 \<Rightarrow> u16" where "ntohs \<equiv> htons"
abbreviation ntohl :: "u32 \<Rightarrow> u32" where "ntohl \<equiv> htonl"

text \<open>A \<open>float\<close> is its IEEE bit pattern, so these two are byte swaps as well.\<close>

abbreviation htonf :: "u32 \<Rightarrow> u32" where "htonf \<equiv> htonl"
abbreviation ntohf :: "u32 \<Rightarrow> u32" where "ntohf \<equiv> htonl"

section \<open>Big-endian bytes\<close>

definition be16 :: "u16 \<Rightarrow> u8 list" where
  "be16 w = [ucast (drop_bit 8 w), ucast w]"

definition be24 :: "u32 \<Rightarrow> u8 list" where
  "be24 w = [ucast (drop_bit 16 w), ucast (drop_bit 8 w), ucast w]"

definition be32 :: "u32 \<Rightarrow> u8 list" where
  "be32 w = [ucast (drop_bit 24 w), ucast (drop_bit 16 w), ucast (drop_bit 8 w), ucast w]"

text \<open>\<open>(uint16(a) << 8) + b\<close>, the code's other way to read a big-endian halfword.\<close>

definition of_be16 :: "u8 \<Rightarrow> u8 \<Rightarrow> u16" where
  "of_be16 a b = push_bit 8 (ucast a) + ucast b"

lemma bit_u8_high [simp]: "8 \<le> n \<Longrightarrow> \<not> bit (b :: u8) n"
  using bit_imp_le_length[of b n] by auto

lemma bit_255: "bit (0xFF :: u32) n \<longleftrightarrow> n < 8"
proof -
  have "bit (0xFF :: u32) n \<longleftrightarrow> bit (mask 8 :: u32) n" by (simp add: mask_eq_exp_minus_1)
  then show ?thesis by (auto simp: bit_simps)
qed

lemma length_be [simp]: "length (be16 w) = 2" "length (be24 x) = 3" "length (be32 x) = 4"
  "length (le16 w) = 2" "length (le32 x) = 4"
  by (simp_all add: be16_def be24_def be32_def le16_def le32_def)

lemma of_be16_or: "of_be16 a b = push_bit 8 (ucast a) OR ucast b"
proof -
  have "push_bit 8 (ucast a :: u16) AND ucast b = 0"
    by (rule bit_word_eqI) (auto simp: bit_simps)
  then show ?thesis by (simp add: of_be16_def disjunctive_add_eq_or)
qed

lemma of_be16_be16 [simp]: "of_be16 (ucast (drop_bit 8 w)) (ucast w) = w"
  unfolding of_be16_or by (rule bit_word_eqI) (auto simp: bit_simps)

lemma be16_of_be16 [simp]: "be16 (of_be16 a b) = [a, b]"
  unfolding of_be16_or be16_def
  by (auto intro!: bit_word_eqI simp: bit_simps)

lemma of_be16_mul: "ucast a * 256 + ucast b = of_be16 a b"
  by (simp add: of_be16_def push_bit_eq_mult)

lemma le16_htons: "le16 (htons w) = be16 w"
  by (auto simp: le16_def be16_def htons_def bit_simps intro!: bit_word_eqI)

lemma bit_65280: "bit (0xFF00 :: u32) n \<longleftrightarrow> 8 \<le> n \<and> n < 16"
proof -
  have "bit (0xFF00 :: u32) n \<longleftrightarrow> bit (push_bit 8 (mask 8) :: u32) n"
    by (simp add: push_bit_eq_mult mask_eq_exp_minus_1)
  then show ?thesis by (auto simp: bit_simps)
qed

lemma bit_htonl: "bit (htonl w) n \<longleftrightarrow>
    24 \<le> n \<and> n < 32 \<and> bit w (n - 24) \<or> 16 \<le> n \<and> n < 24 \<and> bit w (n - 8) \<or>
    8 \<le> n \<and> n < 16 \<and> bit w (n + 8) \<or> n < 8 \<and> bit w (n + 24)"
  unfolding htonl_def
  by (auto simp only: bit_or_iff bit_and_iff bit_push_bit_iff bit_drop_bit_eq bit_65280 o_def
        possible_bit_word)
    (auto simp: add.commute dest: bit_imp_le_length)

lemma le32_htonl: "le32 (htonl w) = be32 w"
  by (auto simp: le32_def be32_def bit_simps bit_htonl add.commute intro!: bit_word_eqI)

lemma of_le16_le16 [simp]: "of_le16 (le16 w) = w"
  by (auto simp: le16_def bit_simps intro!: bit_word_eqI)

lemma of_le32_le32 [simp]: "of_le32 (le32 w) = w"
proof (rule bit_word_eqI)
  fix n :: nat assume "n < LENGTH(32)"
  consider "n < 8" | "8 \<le> n \<and> n < 16" | "16 \<le> n \<and> n < 24" | "24 \<le> n" by linarith
  then show "bit (of_le32 (le32 w)) n = bit w n"
    by cases (auto simp: le32_def bit_simps dest: bit_imp_le_length)
qed

lemma htons_htons [simp]: "htons (htons w) = w"
  by (auto simp: htons_def bit_simps intro!: bit_word_eqI)

lemma of_le16_be16 [simp]: "of_le16 (be16 w) = htons w"
  by (simp flip: le16_htons)

lemma of_le32_be32 [simp]: "of_le32 (be32 w) = htonl w"
  by (simp flip: le32_htonl)

lemma htonl_htonl [simp]: "htonl (htonl w) = w"
proof -
  have "le32 (htonl w) = rev (le32 w)" for w
    by (simp add: le32_htonl) (simp add: be32_def le32_def)
  then have "le32 (htonl (htonl w)) = le32 w" by simp
  then have "of_le32 (le32 (htonl (htonl w))) = of_le32 (le32 w)" by simp
  then show ?thesis by simp
qed

lemma be16_inject [simp]: "be16 v = be16 w \<longleftrightarrow> v = w"
  by (metis htons_htons of_le16_be16)

lemma be32_inject [simp]: "be32 v = be32 w \<longleftrightarrow> v = w"
  by (metis htonl_htonl of_le32_be32)

section \<open>The code's loads and stores\<close>

lemma load16_holds [parse_rules]: "holds_at b off (be16 w) \<Longrightarrow> load16 b off = Some (htons w)"
  using rd_bytes_holds[of b off "be16 w"] by (simp add: load16_def)

lemma load32_holds [parse_rules]: "holds_at b off (be32 w) \<Longrightarrow> load32 b off = Some (htonl w)"
  using rd_bytes_holds[of b off "be32 w"] by (simp add: load32_def)

lemma store16_htons [simp]:
  "off + 2 \<le> length b \<Longrightarrow> store16 b off (htons w) = Some (overlay off (be16 w) b)"
  by (simp add: store16_def le16_htons)

lemma store32_htonl [simp]:
  "off + 4 \<le> length b \<Longrightarrow> store32 b off (htonl w) = Some (overlay off (be32 w) b)"
  by (simp add: store32_def le32_htonl)

lemma load16_read:
  "off + 2 \<le> length b \<Longrightarrow> load16 b off = Some (htons (of_be16 (b ! off) (b ! Suc off)))"
proof (rule load16_holds)
  assume "off + 2 \<le> length b"
  then show "holds_at b off (be16 (of_be16 (b ! off) (b ! Suc off)))"
    by (simp add: holds_at_Cons)
qed

text \<open>A big-endian word of 24 bits, the code's \<open>(a << 16) + (b << 8) + c\<close>.\<close>

definition of_be24 :: "u8 \<Rightarrow> u8 \<Rightarrow> u8 \<Rightarrow> u32" where
  "of_be24 a b c = push_bit 16 (ucast a) + push_bit 8 (ucast b) + ucast c"

lemma of_be24_or: "of_be24 a b c = push_bit 16 (ucast a) OR push_bit 8 (ucast b) OR ucast c"
proof -
  have "push_bit 16 (ucast a :: u32) AND push_bit 8 (ucast b) = 0"
    by (rule bit_word_eqI) (auto simp: bit_simps)
  moreover have "(push_bit 16 (ucast a :: u32) OR push_bit 8 (ucast b)) AND ucast c = 0"
    by (rule bit_word_eqI) (auto simp: bit_simps)
  ultimately show ?thesis by (simp add: of_be24_def disjunctive_add_eq_or or.assoc)
qed

lemma of_be24_be24:
  "of_be24 (ucast (drop_bit 16 w)) (ucast (drop_bit 8 w)) (ucast w) = take_bit 24 w"
  unfolding of_be24_or
proof (rule bit_word_eqI)
  fix n :: nat assume "n < LENGTH(32)"
  consider "n < 8" | "8 \<le> n \<and> n < 16" | "16 \<le> n \<and> n < 24" | "24 \<le> n" by linarith
  then show "bit (push_bit 16 (ucast (ucast (drop_bit 16 w) :: u8)) OR
      push_bit 8 (ucast (ucast (drop_bit 8 w) :: u8)) OR ucast (ucast w :: u8) :: u32) n =
    bit (take_bit 24 w) n"
    by cases (auto simp: bit_simps)
qed

lemma be24_of_be24 [simp]: "be24 (of_be24 a b c) = [a, b, c]"
  unfolding of_be24_or be24_def
  by (auto intro!: bit_word_eqI simp: bit_simps)

end
