(* ===== verification/IEEE_Float.thy ===== *)
theory IEEE_Float
  imports PMU_Prelude
begin

text \<open>
  The floating-point arithmetic of the code.  A \<open>float\<close> is its 32-bit and a \<open>double\<close> its
  64-bit IEEE-754 pattern; conversions, products and quotients are computed exactly on
  the decoded operands and rounded once, to nearest with ties to even, which is what the
  standard asks of every implementation.  A NaN result of arithmetic is the quiet NaN; widening
  and narrowing keep a NaN's payload and set its quiet bit, as the SSE conversions do.

  Both formats share the definitions: \<open>t\<close> is the number of stored fraction bits, \<open>emin\<close> the
  exponent of the unit in the last place of the smallest numbers, \<open>infp\<close> the magnitude pattern
  of infinity.  A magnitude pattern is the word without its sign bit, read as a number.
\<close>

type_synonym f32 = u32
type_synonym f64 = u64

section \<open>Decoding a magnitude pattern\<close>

definition fp_mant :: "nat \<Rightarrow> nat \<Rightarrow> nat" where
  "fp_mant t p = (if p div 2 ^ t = 0 then p mod 2 ^ t else 2 ^ t + p mod 2 ^ t)"

definition fp_exp :: "nat \<Rightarrow> int \<Rightarrow> nat \<Rightarrow> int" where
  "fp_exp t emin p = (if p div 2 ^ t = 0 then emin else emin + int (p div 2 ^ t) - 1)"

section \<open>Rounding a ratio to the nearest pattern\<close>

fun bit_length :: "nat \<Rightarrow> nat" where
  "bit_length n = (if n = 0 then 0 else Suc (bit_length (n div 2)))"

declare bit_length.simps [simp del]

definition ge_pow2 :: "nat \<Rightarrow> nat \<Rightarrow> int \<Rightarrow> bool" where
  "ge_pow2 n d k = (if 0 \<le> k then d * 2 ^ nat k \<le> n else d \<le> n * 2 ^ nat (- k))"

text \<open>The exponent of the leading binary digit of \<open>n / d\<close>, from the estimate \<open>k\<close>.\<close>

definition adjust_exp :: "nat \<Rightarrow> nat \<Rightarrow> int \<Rightarrow> int" where
  "adjust_exp n d k = (if ge_pow2 n d k then k else k - 1)"

definition lead_exp :: "nat \<Rightarrow> nat \<Rightarrow> int" where
  "lead_exp n d = adjust_exp n d (int (bit_length n) - int (bit_length d))"

definition round_up :: "nat \<Rightarrow> nat \<Rightarrow> nat \<Rightarrow> nat" where
  "round_up q r d = (if 2 * r < d then q else if d < 2 * r then q + 1 else if even q then q else q + 1)"

definition round_half_even :: "nat \<Rightarrow> nat \<Rightarrow> nat" where
  "round_half_even n d = round_up (n div d) (n mod d) d"

definition round_at :: "nat \<Rightarrow> nat \<Rightarrow> int \<Rightarrow> nat" where
  "round_at n d e = (if 0 \<le> e then round_half_even n (d * 2 ^ nat e)
     else round_half_even (n * 2 ^ nat (- e)) d)"

definition fp_pattern :: "nat \<Rightarrow> int \<Rightarrow> nat \<Rightarrow> nat \<Rightarrow> nat \<Rightarrow> int \<Rightarrow> nat" where
  "fp_pattern t emin infp n d e = min infp (nat (e - emin) * 2 ^ t + round_at n d e)"

definition fp_round :: "nat \<Rightarrow> int \<Rightarrow> nat \<Rightarrow> nat \<Rightarrow> nat \<Rightarrow> nat" where
  "fp_round t emin infp n d =
     (if n = 0 then 0 else fp_pattern t emin infp n d (max emin (lead_exp n d - int t)))"

section \<open>The two formats\<close>

datatype fpval = NaN_val | Inf_val bool | Fin_val bool nat int

abbreviation top32 :: nat where "top32 \<equiv> 2139095040" \<comment> \<open>\<open>255 * 2 ^ 23\<close>\<close>
abbreviation top64 :: nat where "top64 \<equiv> 9218868437227405312" \<comment> \<open>\<open>2047 * 2 ^ 52\<close>\<close>

definition f32_mag :: "f32 \<Rightarrow> nat" where "f32_mag w = unat (take_bit 31 w)"
definition f64_mag :: "f64 \<Rightarrow> nat" where "f64_mag w = unat (take_bit 63 w)"
definition f32_sign :: "f32 \<Rightarrow> bool" where "f32_sign w = bit w 31"
definition f64_sign :: "f64 \<Rightarrow> bool" where "f64_sign w = bit w 63"

definition f32_mk :: "bool \<Rightarrow> nat \<Rightarrow> f32" where
  "f32_mk s p = (if s then 0x80000000 else 0) + of_nat p"

definition f64_mk :: "bool \<Rightarrow> nat \<Rightarrow> f64" where
  "f64_mk s p = (if s then 0x8000000000000000 else 0) + of_nat p"

definition fp_classify :: "nat \<Rightarrow> int \<Rightarrow> nat \<Rightarrow> bool \<Rightarrow> nat \<Rightarrow> fpval" where
  "fp_classify t emin infp s p =
     (if infp < p then NaN_val else if p = infp then Inf_val s
      else Fin_val s (fp_mant t p) (fp_exp t emin p))"

definition f32_val :: "f32 \<Rightarrow> fpval" where
  "f32_val w = fp_classify 23 (-149) top32 (f32_sign w) (f32_mag w)"

definition f64_val :: "f64 \<Rightarrow> fpval" where
  "f64_val w = fp_classify 52 (-1074) top64 (f64_sign w) (f64_mag w)"

definition f64_nan :: f64 where "f64_nan = 0x7FF8000000000000"

text \<open>The double nearest to \<open>(-1)^s * (n / d) * 2^e\<close>.\<close>

definition f64_of_scaled :: "bool \<Rightarrow> nat \<Rightarrow> nat \<Rightarrow> int \<Rightarrow> f64" where
  "f64_of_scaled s n d e =
     f64_mk s (if 0 \<le> e then fp_round 52 (-1074) top64 (n * 2 ^ nat e) d
               else fp_round 52 (-1074) top64 n (d * 2 ^ nat (- e)))"

definition f32_of_scaled :: "bool \<Rightarrow> nat \<Rightarrow> int \<Rightarrow> f32" where
  "f32_of_scaled s n e =
     f32_mk s (if 0 \<le> e then fp_round 23 (-149) top32 (n * 2 ^ nat e) 1
               else fp_round 23 (-149) top32 n (2 ^ nat (- e)))"

section \<open>Operations\<close>

text \<open>\<open>static_cast<double>\<close> of an integer, \<open>static_cast<double>\<close> of a \<open>float\<close> and the
  narrowing \<open>static_cast<float>\<close>.\<close>

definition f64_of_int :: "int \<Rightarrow> f64" where
  "f64_of_int z = f64_of_scaled (z < 0) (nat \<bar>z\<bar>) 1 0"

definition f32_of_int :: "int \<Rightarrow> f32" where
  "f32_of_int z = f32_of_scaled (z < 0) (nat \<bar>z\<bar>) 0"

definition f64_of_f32 :: "f32 \<Rightarrow> f64" where
  "f64_of_f32 w = (case f32_val w of
     NaN_val \<Rightarrow> f64_mk (f32_sign w) (top64 + (f32_mag w - top32) * 2 ^ 29) OR 0x8000000000000
   | Inf_val s \<Rightarrow> f64_mk s top64
   | Fin_val s m e \<Rightarrow> f64_of_scaled s m 1 e)"

definition f32_of_f64 :: "f64 \<Rightarrow> f32" where
  "f32_of_f64 w = (case f64_val w of
     NaN_val \<Rightarrow> f32_mk (f64_sign w) (top32 + (f64_mag w - top64) div 2 ^ 29) OR 0x400000
   | Inf_val s \<Rightarrow> f32_mk s top32
   | Fin_val s m e \<Rightarrow> f32_of_scaled s m e)"

fun fp_mul_val :: "fpval \<Rightarrow> fpval \<Rightarrow> f64" where
  "fp_mul_val (Fin_val s m e) (Fin_val s' m' e') = f64_of_scaled (s \<noteq> s') (m * m') 1 (e + e')"
| "fp_mul_val (Inf_val s) (Inf_val s') = f64_mk (s \<noteq> s') top64"
| "fp_mul_val (Inf_val s) (Fin_val s' m e) = (if m = 0 then f64_nan else f64_mk (s \<noteq> s') top64)"
| "fp_mul_val (Fin_val s m e) (Inf_val s') = (if m = 0 then f64_nan else f64_mk (s \<noteq> s') top64)"
| "fp_mul_val _ _ = f64_nan"

fun fp_div_val :: "fpval \<Rightarrow> fpval \<Rightarrow> f64" where
  "fp_div_val (Fin_val s m e) (Fin_val s' m' e') =
     (if m' = 0 then (if m = 0 then f64_nan else f64_mk (s \<noteq> s') top64)
      else f64_of_scaled (s \<noteq> s') m m' (e - e'))"
| "fp_div_val (Inf_val s) (Fin_val s' m e) = f64_mk (s \<noteq> s') top64"
| "fp_div_val (Fin_val s m e) (Inf_val s') = f64_mk (s \<noteq> s') 0"
| "fp_div_val _ _ = f64_nan"

definition f64_mul :: "f64 \<Rightarrow> f64 \<Rightarrow> f64" where
  "f64_mul a b = fp_mul_val (f64_val a) (f64_val b)"

definition f64_div :: "f64 \<Rightarrow> f64 \<Rightarrow> f64" where
  "f64_div a b = fp_div_val (f64_val a) (f64_val b)"

text \<open>\<open>a - b\<close>: exact on the common scale, then rounded.  An exact zero is positive unless it is \<open>-0 - +0\<close>.\<close>

definition signed_at :: "bool \<Rightarrow> nat \<Rightarrow> int \<Rightarrow> int \<Rightarrow> int" where
  "signed_at s m e e0 = (if s then - 1 else 1) * int m * 2 ^ nat (e - e0)"

fun fp_sub_val :: "fpval \<Rightarrow> fpval \<Rightarrow> f64" where
  "fp_sub_val (Fin_val s m e) (Fin_val s' m' e') =
     (let e0 = min e e'; z = signed_at s m e e0 - signed_at s' m' e' e0 in
      if z = 0 then f64_mk (m = 0 \<and> s \<and> \<not> s') 0 else f64_of_scaled (z < 0) (nat \<bar>z\<bar>) 1 e0)"
| "fp_sub_val (Inf_val s) (Inf_val s') = (if s = s' then f64_nan else f64_mk s top64)"
| "fp_sub_val (Inf_val s) (Fin_val s' m e) = f64_mk s top64"
| "fp_sub_val (Fin_val s m e) (Inf_val s') = f64_mk (\<not> s') top64"
| "fp_sub_val _ _ = f64_nan"

definition f64_sub :: "f64 \<Rightarrow> f64 \<Rightarrow> f64" where
  "f64_sub a b = fp_sub_val (f64_val a) (f64_val b)"

text \<open>\<open>std::floor\<close>: a negative number with a fraction goes away from zero; the sign of a zero is kept.\<close>

fun fp_floor_val :: "fpval \<Rightarrow> f64" where
  "fp_floor_val (Fin_val s m e) =
     (if 0 \<le> e then f64_of_scaled s m 1 e
      else f64_of_scaled s (m div 2 ^ nat (- e) + (if s \<and> m mod 2 ^ nat (- e) \<noteq> 0 then 1 else 0)) 1 0)"
| "fp_floor_val (Inf_val s) = f64_mk s top64"
| "fp_floor_val NaN_val = f64_nan"

definition f64_floor :: "f64 \<Rightarrow> f64" where
  "f64_floor a = fp_floor_val (f64_val a)"

text \<open>Conversion to an integer type discards the fraction; where the result does not fit the
  type the conversion is undefined.\<close>

definition scaled_floor :: "nat \<Rightarrow> int \<Rightarrow> nat" where
  "scaled_floor m e = (if 0 \<le> e then m * 2 ^ nat e else m div 2 ^ nat (- e))"

fun fp_trunc_val :: "fpval \<Rightarrow> int option" where
  "fp_trunc_val (Fin_val s m e) = Some (if s then - int (scaled_floor m e) else int (scaled_floor m e))"
| "fp_trunc_val _ = None"

definition f64_trunc :: "f64 \<Rightarrow> int option" where
  "f64_trunc w = fp_trunc_val (f64_val w)"

definition f64_to_i16 :: "f64 \<Rightarrow> u16 option" where
  "f64_to_i16 w = do { z \<leftarrow> f64_trunc w;
     if - 32768 \<le> z \<and> z < 32768 then Some (word_of_int z) else None }"

definition f64_to_u16 :: "f64 \<Rightarrow> u16 option" where
  "f64_to_u16 w = do { z \<leftarrow> f64_trunc w;
     if 0 \<le> z \<and> z < 65536 then Some (word_of_int z) else None }"

definition f64_to_u32 :: "f64 \<Rightarrow> u32 option" where
  "f64_to_u32 w = do { z \<leftarrow> f64_trunc w;
     if 0 \<le> z \<and> z < 4294967296 then Some (word_of_int z) else None }"

text \<open>Comparison of floats: unordered when an operand is a NaN, and both zeros equal.\<close>

definition f32_key :: "f32 \<Rightarrow> int" where
  "f32_key w = (if f32_sign w then - int (f32_mag w) else int (f32_mag w))"

definition f32_lt :: "f32 \<Rightarrow> f32 \<Rightarrow> bool" where
  "f32_lt a b \<longleftrightarrow> f32_mag a \<le> top32 \<and> f32_mag b \<le> top32 \<and> f32_key a < f32_key b"

definition f32_eq :: "f32 \<Rightarrow> f32 \<Rightarrow> bool" where
  "f32_eq a b \<longleftrightarrow> f32_mag a \<le> top32 \<and> f32_mag b \<le> top32 \<and> f32_key a = f32_key b"

text \<open>The literals of the code, as the doubles a compiler stores for them.\<close>

definition lit_1e_m5 :: f64 where "lit_1e_m5 = 0x3EE4F8B588E368F1" \<comment> \<open>\<open>1e-5\<close>\<close>
definition lit_1e5 :: f64 where "lit_1e5 = 0x40F86A0000000000" \<comment> \<open>\<open>1e5\<close>\<close>
definition lit_1e4 :: f64 where "lit_1e4 = 0x40C3880000000000" \<comment> \<open>\<open>1e4\<close>\<close>
definition lit_1e9 :: f64 where "lit_1e9 = 0x41CDCD6500000000" \<comment> \<open>\<open>1e9\<close>\<close>
definition lit_1000 :: f64 where "lit_1000 = 0x408F400000000000" \<comment> \<open>\<open>1000.0\<close>\<close>

section \<open>Evaluation\<close>

text \<open>\<open>simp add: fp_eval\<close> computes a closed floating-point term: the length of a numeral is read
  off its digits, so that nothing unfolds before its argument is known.\<close>

lemma bit_length_numeral [simp]:
  "bit_length 0 = 0" "bit_length 1 = 1" "bit_length (Suc 0) = 1"
  "bit_length (numeral (num.Bit0 k)) = Suc (bit_length (numeral k))"
  "bit_length (numeral (num.Bit1 k)) = Suc (bit_length (numeral k))"
  by (simp_all add: bit_length.simps[of 0] bit_length.simps[of 1] bit_length.simps[of "Suc 0"]
      bit_length.simps[of "numeral (num.Bit0 k)"] bit_length.simps[of "numeral (num.Bit1 k)"])

lemmas fp_eval = fp_mant_def fp_exp_def ge_pow2_def adjust_exp_def lead_exp_def round_up_def
  round_half_even_def round_at_def fp_pattern_def fp_round_def fp_classify_def scaled_floor_def
  f32_mag_def f64_mag_def f32_sign_def f64_sign_def f32_mk_def f64_mk_def f32_val_def f64_val_def
  f64_nan_def f64_of_scaled_def f32_of_scaled_def f64_of_int_def f32_of_int_def f64_of_f32_def f32_of_f64_def
  f64_mul_def f64_div_def f64_sub_def f64_floor_def signed_at_def f64_trunc_def f64_to_i16_def f64_to_u16_def f64_to_u32_def
  f32_key_def f32_lt_def f32_eq_def
  lit_1e_m5_def lit_1e5_def lit_1e4_def lit_1e9_def lit_1000_def

end
