(* ===== verification/C37118_Types.thy ===== *)
theory C37118_Types
  imports Net_Bytes IEEE_Float
begin

text \<open>
  The data of \<open>src/pmu/c37118.h\<close>: constants, enumerations and the classes that carry
  configurations and measurements.  An \<open>enum class\<close> with a fixed underlying type can hold every
  value of that type, and the parsers cast raw packet bytes into these enumerations, so each
  datatype has one constructor per enumerator and one, \<open>..._other\<close>, for the remaining values; the
  conversions to and from the underlying integer are the two \<open>static_cast\<close>s.  Floating-point
  members are IEEE bit patterns.
\<close>

section \<open>Constants\<close>

abbreviation (input) sync_lead :: u8 where "sync_lead \<equiv> 0xAA"
abbreviation (input) typeMask :: u8 where "typeMask \<equiv> 0x70"
abbreviation (input) version2005 :: u8 where "version2005 \<equiv> 1"
abbreviation (input) extended_frame_command :: u16 where "extended_frame_command \<equiv> 8"
abbreviation (input) default_data_rate :: u16 where "default_data_rate \<equiv> 30"
abbreviation (input) default_time_base :: u32 where "default_time_base \<equiv> 1000000"
abbreviation (input) common_frame_size :: nat where "common_frame_size \<equiv> 14"
abbreviation (input) min_packet_size :: nat where "min_packet_size \<equiv> 18"
abbreviation (input) channel_name_size :: nat where "channel_name_size \<equiv> 16"
abbreviation (input) integer_format :: "1 word" where "integer_format \<equiv> 0"
abbreviation (input) floating_point_format :: "1 word" where "floating_point_format \<equiv> 1"
abbreviation (input) rectangular_phasor :: "1 word" where "rectangular_phasor \<equiv> 0"
abbreviation (input) polar_phasor :: "1 word" where "polar_phasor \<equiv> 1"

section \<open>Enumerations\<close>

datatype PmuPacketType = Pkt_data | Pkt_header | Pkt_config1 | Pkt_config2 | Pkt_config3
  | Pkt_command | Pkt_unknown | Pkt_other u8

fun packet_type_code :: "PmuPacketType \<Rightarrow> u8" where
  "packet_type_code Pkt_data = 0x00"
| "packet_type_code Pkt_header = 0x10"
| "packet_type_code Pkt_config1 = 0x20"
| "packet_type_code Pkt_config2 = 0x30"
| "packet_type_code Pkt_config3 = 0x50"
| "packet_type_code Pkt_command = 0x40"
| "packet_type_code Pkt_unknown = 0xFF"
| "packet_type_code (Pkt_other c) = c"

definition packet_type_of :: "u8 \<Rightarrow> PmuPacketType" where
  "packet_type_of c =
     (if c = 0x00 then Pkt_data else if c = 0x10 then Pkt_header else if c = 0x20 then Pkt_config1
      else if c = 0x30 then Pkt_config2 else if c = 0x50 then Pkt_config3
      else if c = 0x40 then Pkt_command else if c = 0xFF then Pkt_unknown else Pkt_other c)"

datatype PmuCommand = Cmd_unknown | Cmd_data_off | Cmd_data_on | Cmd_send_header | Cmd_send_config1
  | Cmd_send_config2 | Cmd_send_config3 | Cmd_extended | Cmd_other u16

fun pmu_command_code :: "PmuCommand \<Rightarrow> u16" where
  "pmu_command_code Cmd_unknown = 0"
| "pmu_command_code Cmd_data_off = 1"
| "pmu_command_code Cmd_data_on = 2"
| "pmu_command_code Cmd_send_header = 3"
| "pmu_command_code Cmd_send_config1 = 4"
| "pmu_command_code Cmd_send_config2 = 5"
| "pmu_command_code Cmd_send_config3 = 6"
| "pmu_command_code Cmd_extended = 8"
| "pmu_command_code (Cmd_other c) = c"

definition pmu_command_of :: "u16 \<Rightarrow> PmuCommand" where
  "pmu_command_of c =
     (if c = 0 then Cmd_unknown else if c = 1 then Cmd_data_off else if c = 2 then Cmd_data_on
      else if c = 3 then Cmd_send_header else if c = 4 then Cmd_send_config1
      else if c = 5 then Cmd_send_config2 else if c = 6 then Cmd_send_config3
      else if c = 8 then Cmd_extended else Cmd_other c)"

datatype ParseResult = invalid_sync | invalid_checksum | id_mismatch | incorrect_type
  | not_implemented | length_mismatch | config_mismatch | parse_complete | not_parsed

fun parse_result_code :: "ParseResult \<Rightarrow> int" where
  "parse_result_code invalid_sync = - 16"
| "parse_result_code invalid_checksum = - 12"
| "parse_result_code id_mismatch = - 9"
| "parse_result_code incorrect_type = - 6"
| "parse_result_code not_implemented = - 4"
| "parse_result_code length_mismatch = - 3"
| "parse_result_code config_mismatch = - 1"
| "parse_result_code parse_complete = 0"
| "parse_result_code not_parsed = 2"

datatype PhasorType = PhT_voltage | PhT_current | PhT_voltage_disabled | PhT_current_disabled
  | PhT_other u8

fun phasor_type_code :: "PhasorType \<Rightarrow> u8" where
  "phasor_type_code PhT_voltage = 0"
| "phasor_type_code PhT_current = 1"
| "phasor_type_code PhT_voltage_disabled = 0x80"
| "phasor_type_code PhT_current_disabled = 0x81"
| "phasor_type_code (PhT_other c) = c"

definition phasor_type_of :: "u8 \<Rightarrow> PhasorType" where
  "phasor_type_of c =
     (if c = 0 then PhT_voltage else if c = 1 then PhT_current
      else if c = 0x80 then PhT_voltage_disabled else if c = 0x81 then PhT_current_disabled
      else PhT_other c)"

datatype AnalogType = AnT_single_point_on_wave | AnT_rms | AnT_peak
  | AnT_single_point_on_wave_disabled | AnT_rms_disabled | AnT_peak_disabled | AnT_other u8

fun analog_type_code :: "AnalogType \<Rightarrow> u8" where
  "analog_type_code AnT_single_point_on_wave = 0"
| "analog_type_code AnT_rms = 1"
| "analog_type_code AnT_peak = 2"
| "analog_type_code AnT_single_point_on_wave_disabled = 0x80"
| "analog_type_code AnT_rms_disabled = 0x81"
| "analog_type_code AnT_peak_disabled = 0x82"
| "analog_type_code (AnT_other c) = c"

definition analog_type_of :: "u8 \<Rightarrow> AnalogType" where
  "analog_type_of c =
     (if c = 0 then AnT_single_point_on_wave else if c = 1 then AnT_rms else if c = 2 then AnT_peak
      else if c = 0x80 then AnT_single_point_on_wave_disabled else if c = 0x81 then AnT_rms_disabled
      else if c = 0x82 then AnT_peak_disabled else AnT_other c)"

text \<open>Casting an enumeration built from a raw value back gives the raw value.\<close>

lemma packet_type_code_of [simp]: "packet_type_code (packet_type_of c) = c"
  by (simp add: packet_type_of_def)

lemma pmu_command_code_of [simp]: "pmu_command_code (pmu_command_of c) = c"
  by (simp add: pmu_command_of_def)

lemma phasor_type_code_of [simp]: "phasor_type_code (phasor_type_of c) = c"
  by (simp add: phasor_type_of_def)

lemma analog_type_code_of [simp]: "analog_type_code (analog_type_of c) = c"
  by (simp add: analog_type_of_def)

text \<open>Results are ordered by their integer codes; the failures are the negative ones.\<close>

instantiation ParseResult :: linorder
begin

definition less_eq_ParseResult :: "ParseResult \<Rightarrow> ParseResult \<Rightarrow> bool" where
  "less_eq_ParseResult a b = (parse_result_code a \<le> parse_result_code b)"

definition less_ParseResult :: "ParseResult \<Rightarrow> ParseResult \<Rightarrow> bool" where
  "less_ParseResult a b = (parse_result_code a < parse_result_code b)"

instance
proof
  fix a b :: ParseResult
  show "a \<le> b \<Longrightarrow> b \<le> a \<Longrightarrow> a = b"
    by (cases a; cases b) (simp_all add: less_eq_ParseResult_def)
qed (auto simp: less_eq_ParseResult_def less_ParseResult_def)

end

section \<open>Strings and bytes\<close>

definition byte_of_char :: "char \<Rightarrow> u8" where
  "byte_of_char c = of_nat (of_char c)"

definition char_of_byte :: "u8 \<Rightarrow> char" where
  "char_of_byte w = char_of (unat w)"

lemma byte_of_char_of_byte [simp]: "byte_of_char (char_of_byte w) = w"
proof -
  have "unat w mod 256 = unat w" using unsigned_less[of w, where 'a = nat] by simp
  then show ?thesis by (simp add: byte_of_char_def char_of_byte_def)
qed

lemma char_of_byte_of_char [simp]: "char_of_byte (byte_of_char c) = c"
proof -
  have "(of_char c :: nat) < 256" by (metis of_char_mod_256 mod_less_divisor zero_less_numeral)
  then show ?thesis
    by (simp add: byte_of_char_def char_of_byte_def unat_of_nat take_bit_eq_mod)
qed

lemma bytes_of_chars_inverse [simp]:
  "map (byte_of_char \<circ> char_of_byte) ws = ws" "map (char_of_byte \<circ> byte_of_char) cs = cs"
  by (simp_all add: map_idI)

text \<open>Formats are single bits.\<close>

lemma bit1_cases: "(x :: 1 word) = 0 \<or> x = 1"
proof -
  have "unat x < 2" using unsigned_less[of x, where 'a = nat] by simp
  then have "unat x = 0 \<or> unat x = 1" by linarith
  then show ?thesis by (metis unat_0 unat_1 unsigned_word_eqI)
qed

section \<open>Classes\<close>

record CommonFrame =
  cf_type :: PmuPacketType
  cf_sourceID :: u16
  cf_chkSum :: u16
  cf_byteCount :: u16
  cf_soc :: u32
  cf_fracSec :: u32

record PmuConfig =
  pc_sourceID :: u16
  pc_pmuClass :: u8
  pc_phasorFormat :: "1 word"
  pc_analogFormat :: "1 word"
  pc_freqFormat :: "1 word"
  pc_phasorCoordinates :: "1 word"
  pc_phasorCount :: u16
  pc_analogCount :: u16
  pc_digitalWordCount :: u16
  pc_phasorNames :: "string list"
  pc_analogNames :: "string list"
  pc_digitChannelNames :: "string list"
  pc_phasorType :: "PhasorType list"
  pc_phasorConversion :: "u32 list"
  pc_analogType :: "AnalogType list"
  pc_analogConversion :: "u32 list" \<comment> \<open>\<open>std::int32_t\<close>, read with \<open>sint\<close>\<close>
  pc_digitalNominal :: "u16 list"
  pc_digitalActive :: "u16 list"
  pc_nominalFrequency :: f32
  pc_lat :: f32
  pc_lon :: f32
  pc_elev :: f32
  pc_changeCount :: u16
  pc_active :: bool
  pc_window :: u32
  pc_grpDelay :: u32
  pc_stationName :: string

record Config =
  cfg_idcode :: u16
  cfg_dataRate :: u16 \<comment> \<open>\<open>std::int16_t\<close>, read with \<open>sint\<close>\<close>
  cfg_soc :: u32
  cfg_fracsec :: u32
  cfg_timeBase :: u32
  cfg_pmus :: "PmuConfig list"

record TimeQuality =
  tq_reserved :: "1 word"
  tq_leapSecondDirection :: "1 word"
  tq_leapSecondOccurred :: "1 word"
  tq_leapSecondPending :: "1 word"
  tq_timeQualityCode :: "4 word"
  tq_timeQuality :: f32

record PmuData =
  pd_stat :: u16
  pd_freq :: f64
  pd_rocof :: f64
  pd_phasors :: "(f64 \<times> f64) list" \<comment> \<open>real and imaginary parts\<close>
  pd_analog :: "f64 list"
  pd_digital :: "u16 list"

record PmuDataFrame =
  pdf_idcode :: u16
  pdf_timeQuality :: u8
  pdf_parseResult :: ParseResult
  pdf_soc :: u32
  pdf_fracSec :: f64
  pdf_pmus :: "PmuData list"

abbreviation (input) f32_60 :: f32 where "f32_60 \<equiv> 0x42700000" \<comment> \<open>\<open>60.0f\<close>\<close>
abbreviation (input) f32_50 :: f32 where "f32_50 \<equiv> 0x42480000" \<comment> \<open>\<open>50.0f\<close>\<close>

text \<open>
  The elements that \<open>std::vector::resize\<close> adds are value-initialised: every member is zero or
  empty unless the class gives it an initial value.  A local \<open>CommonFrame frame;\<close> starts with
  indeterminate members; \<open>fresh_frame\<close> stands for it, and no parser reads a member that
  \<open>parseCommon\<close> has not set.
\<close>

definition fresh_frame :: CommonFrame where
  "fresh_frame = \<lparr>cf_type = Pkt_data, cf_sourceID = 0, cf_chkSum = 0, cf_byteCount = 0, cf_soc = 0,
     cf_fracSec = 0\<rparr>"

definition default_PmuConfig :: PmuConfig where
  "default_PmuConfig = \<lparr>pc_sourceID = 0, pc_pmuClass = 0, pc_phasorFormat = 0, pc_analogFormat = 0,
     pc_freqFormat = 0, pc_phasorCoordinates = 0, pc_phasorCount = 0, pc_analogCount = 0,
     pc_digitalWordCount = 0, pc_phasorNames = [], pc_analogNames = [], pc_digitChannelNames = [],
     pc_phasorType = [], pc_phasorConversion = [], pc_analogType = [], pc_analogConversion = [],
     pc_digitalNominal = [], pc_digitalActive = [], pc_nominalFrequency = f32_60, pc_lat = 0,
     pc_lon = 0, pc_elev = 0, pc_changeCount = 0, pc_active = True, pc_window = 0, pc_grpDelay = 0,
     pc_stationName = []\<rparr>"

definition default_PmuData :: PmuData where
  "default_PmuData = \<lparr>pd_stat = 0, pd_freq = 0, pd_rocof = 0, pd_phasors = [], pd_analog = [],
     pd_digital = []\<rparr>"

definition default_Config :: Config where
  "default_Config = \<lparr>cfg_idcode = 0, cfg_dataRate = default_data_rate, cfg_soc = 0, cfg_fracsec = 0,
     cfg_timeBase = default_time_base, cfg_pmus = []\<rparr>"

end
