(* ===== verification/Crc_Checksum.thy ===== *)
theory Crc_Checksum
  imports Net_Bytes
begin

text \<open>
  The checksum of every frame, \<open>calculateCRC\<close> and \<open>addCRC\<close> of \<open>src/pmu/c37118.cpp\<close>.
  The code uses the standard's byte-at-a-time form with shifts and exclusive ors; the reference
  is the bit-at-a-time division by \<open>x^16 + x^12 + x^5 + 1\<close> started at \<open>0xFFFF\<close>.  Both are linear
  over the two-element field, so they agree when they agree on the sixteen unit vectors.
  Injectivity of one step gives the error-detection facts used by the frame parser.
\<close>

section \<open>The code\<close>

definition crc_step :: "u16 \<Rightarrow> u8 \<Rightarrow> u16" where
  "crc_step crc d =
     (let calc1 = drop_bit 8 crc XOR ucast d;
          crc = push_bit 8 crc;
          calc2 = calc1 XOR drop_bit 4 calc1;
          crc = crc XOR calc2;
          calc2 = push_bit 5 calc2;
          crc = crc XOR calc2;
          calc2 = push_bit 7 calc2
      in crc XOR calc2)"

text \<open>
  The loop bound \<open>dataLength - 2\<close> is computed in \<open>int\<close>: for \<open>dataLength < 2\<close> it is
  negative and the body never runs, which is what subtraction on \<open>nat\<close> gives too.
\<close>

definition calculateCRC :: "buffer \<Rightarrow> nat \<Rightarrow> u16 \<Rightarrow> u16 option" where
  "calculateCRC b base dataLength =
     mfold (\<lambda>ii crc. do { d \<leftarrow> rd8 b (base + ii); Some (crc_step crc d) })
       [0..<unat dataLength - 2] 0xFFFF"

definition addCRC :: "buffer \<Rightarrow> nat \<Rightarrow> u16 \<Rightarrow> buffer option" where
  "addCRC b base dataSize =
     do { crc \<leftarrow> calculateCRC b base dataSize;
          if unat dataSize < 2 \<and> base + unat dataSize < 2 then None
          else store16 b (base + unat dataSize - 2) (htons crc) }"

section \<open>The reference: division one bit at a time\<close>

definition crc_bit :: "u16 \<Rightarrow> u16" where
  "crc_bit c = (if bit c 15 then push_bit 1 c XOR 0x1021 else push_bit 1 c)"

definition crc_byte :: "u16 \<Rightarrow> u8 \<Rightarrow> u16" where
  "crc_byte c d = (crc_bit ^^ 8) (c XOR push_bit 8 (ucast d))"

definition crc_ccitt :: "u8 list \<Rightarrow> u16" where
  "crc_ccitt bs = foldl crc_byte 0xFFFF bs"

section \<open>Linear maps on halfwords\<close>

definition xor_linear :: "(u16 \<Rightarrow> u16) \<Rightarrow> bool" where
  "xor_linear f \<longleftrightarrow> (\<forall>x y. f (x XOR y) = f x XOR f y)"

lemma xor_linear_0: "xor_linear f \<Longrightarrow> f 0 = 0"
  unfolding xor_linear_def by (metis xor_self_eq)

lemma xor_linear_funpow: "xor_linear f \<Longrightarrow> xor_linear (f ^^ n)"
  by (induction n) (simp_all add: xor_linear_def)

lemma take_bit_Suc_xor: "take_bit (Suc n) (w :: u16) = take_bit n w XOR (if bit w n then 2 ^ n else 0)"
  by (rule bit_word_eqI) (auto simp: bit_simps less_Suc_eq)

lemma xor_linear_ext:
  assumes f: "xor_linear f" and g: "xor_linear g"
    and basis: "\<And>k. k < 16 \<Longrightarrow> f (2 ^ k) = g (2 ^ k)"
  shows "f w = g w"
proof -
  have "f (take_bit n w) = g (take_bit n w)" if "n \<le> 16" for n
    using that
  proof (induction n)
    case 0
    then show ?case using xor_linear_0[OF f] xor_linear_0[OF g] by simp
  next
    case (Suc n)
    then show ?case
      using f g basis[of n] xor_linear_0[OF f] xor_linear_0[OF g]
      by (simp add: take_bit_Suc_xor xor_linear_def)
  qed
  from this[of 16] show ?thesis by (simp add: take_bit_word_eq_self)
qed

lemma crc_bit_linear: "xor_linear crc_bit"
  unfolding xor_linear_def crc_bit_def
  by (auto simp: bit_xor_iff push_bit_xor xor.assoc xor.left_commute xor.commute)

section \<open>The table-free form computes the division\<close>

definition crc_fold :: "u16 \<Rightarrow> u16" where
  "crc_fold t = (let calc2 = drop_bit 8 t XOR drop_bit 4 (drop_bit 8 t)
     in push_bit 8 t XOR calc2 XOR push_bit 5 calc2 XOR push_bit 7 (push_bit 5 calc2))"

lemma crc_step_fold: "crc_step c d = crc_fold (c XOR push_bit 8 (ucast d))"
proof -
  have "drop_bit 8 (c XOR push_bit 8 (ucast d)) = drop_bit 8 c XOR ucast d"
    by (rule bit_word_eqI) (auto simp: bit_simps)
  moreover have "push_bit 8 (c XOR push_bit 8 (ucast d)) = push_bit 8 c"
    by (rule bit_word_eqI) (auto simp: bit_simps)
  ultimately show ?thesis
    by (simp add: crc_step_def crc_fold_def Let_def xor.assoc)
qed

lemma crc_fold_linear: "xor_linear crc_fold"
  unfolding xor_linear_def crc_fold_def Let_def
  by (simp only: drop_bit_xor push_bit_xor xor.assoc xor.left_commute xor.commute) simp

lemma funpow_numeral_step: "(f ^^ numeral k) x = (f ^^ pred_numeral k) (f x)"
  by (simp add: numeral_eq_Suc funpow_swap1)

lemma xor_cancel [simp]: "a XOR c = b XOR c \<longleftrightarrow> a = (b :: u16)"
proof
  assume "a XOR c = b XOR c"
  then have "(a XOR c) XOR c = (b XOR c) XOR c" by simp
  then show "a = b" by (simp only: xor.assoc xor_self_eq xor.right_neutral)
qed simp

lemma xor_cancel_left [simp]: "c XOR a = c XOR b \<longleftrightarrow> a = (b :: u16)"
  using xor_cancel[of a c b] by (simp only: xor.commute)

lemma crc_fold_unit_vectors:
  "\<forall>x \<in> {1, 2, 4, 8, 0x10, 0x20, 0x40, 0x80, 0x100, 0x200, 0x400, 0x800, 0x1000, 0x2000, 0x4000, 0x8000}.
     crc_fold x = (crc_bit ^^ 8) x"
  by (simp add: funpow_numeral_step crc_bit_def crc_fold_def)

lemma unit_vector_cases:
  assumes "k < 16"
  shows "(2 ^ k :: u16) \<in>
    {1, 2, 4, 8, 0x10, 0x20, 0x40, 0x80, 0x100, 0x200, 0x400, 0x800, 0x1000, 0x2000, 0x4000, 0x8000}"
proof -
  have "k \<in> set [0..<16]" using assms by simp
  moreover have "[0..<16] = [0, 1, 2, 3, 4, 5, 6, 7, 8, 9, 10, 11, 12, 13, 14, 15]"
    by (simp add: upt_rec)
  ultimately have "k \<in> {0, 1, 2, 3, 4, 5, 6, 7, 8, 9, 10, 11, 12, 13, 14, 15}" by simp
  then show ?thesis by (elim insertE emptyE) simp_all
qed

lemma crc_fold_bits: "crc_fold t = (crc_bit ^^ 8) t"
  by (rule xor_linear_ext[OF crc_fold_linear xor_linear_funpow[OF crc_bit_linear]])
    (rule bspec[OF crc_fold_unit_vectors unit_vector_cases])

lemma crc_step_byte: "crc_step c d = crc_byte c d"
  by (simp add: crc_step_fold crc_byte_def crc_fold_bits)

lemma foldl_crc_step: "foldl crc_step c bs = foldl crc_byte c bs"
  by (simp add: crc_step_byte[abs_def])

lemma crc_ccitt_step: "crc_ccitt bs = foldl crc_step 0xFFFF bs"
  by (simp add: crc_ccitt_def foldl_crc_step)

text \<open>The code's loop is a left fold over the bytes before the checksum.\<close>

lemma crc_loop:
  "base + i + n \<le> length b \<Longrightarrow>
   mfold (\<lambda>ii crc. do { d \<leftarrow> rd8 b (base + ii); Some (crc_step crc d) }) [i..<i + n] c =
   Some (foldl crc_step c (take n (drop (base + i) b)))"
proof (induction n arbitrary: i c)
  case (Suc n)
  have "[i..<i + Suc n] = i # [Suc i..<Suc i + n]" by (simp add: upt_rec)
  moreover have "take (Suc n) (drop (base + i) b) = b ! (base + i) # take n (drop (base + Suc i) b)"
    using Suc.prems by (simp add: take_Suc hd_drop_conv_nth drop_Suc tl_drop drop_eq_Nil)
  ultimately show ?case
    using Suc.IH[of "Suc i"] Suc.prems by simp
qed simp

lemma calculateCRC_eq:
  assumes "base + unat n \<le> length b"
  shows "calculateCRC b base n = Some (crc_ccitt (take (unat n - 2) (drop base b)))"
  using crc_loop[of base 0 "unat n - 2" b "0xFFFF"] assms
  by (simp add: calculateCRC_def crc_ccitt_def foldl_crc_step)

text \<open>C16: \<open>calculateCRC\<close> computes the CRC-CCITT of the standard: on a frame of \<open>n\<close>
  bytes that lies inside the buffer it returns the bit-at-a-time remainder of its first
  \<open>n - 2\<close> bytes.\<close>

theorem calculateCRC_is_ccitt:
  assumes "base + unat n \<le> length b"
  shows "calculateCRC b base n = Some (crc_ccitt (take (unat n - 2) (drop base b)))"
  using assms by (rule calculateCRC_eq)

theorem calculateCRC_is_ccitt_witness:
  "calculateCRC [0, 0xAA, 0x41, 0, 0] 1 4 = Some (crc_ccitt [0xAA, 0x41])"
  using calculateCRC_is_ccitt[of 1 4 "[0, 0xAA, 0x41, 0, 0]"] by simp

section \<open>Error detection\<close>

lemma crc_bit_inj: "inj crc_bit"
proof (rule injI)
  fix x y assume eq: "crc_bit x = crc_bit y"
  have b0: "bit (crc_bit w) 0 = bit w 15" for w
    by (simp add: crc_bit_def bit_0 even_xor_iff)
  have top: "bit x 15 = bit y 15" using eq b0[of x] b0[of y] by simp
  then have push: "push_bit 1 x = push_bit 1 y"
    using eq by (auto simp: crc_bit_def split: if_splits)
  show "x = y"
  proof (rule bit_word_eqI)
    fix n :: nat assume "n < LENGTH(16)"
    then consider "n = 15" | "Suc n < 16" by fastforce
    then show "bit x n = bit y n"
    proof cases
      case 2
      have "bit (push_bit 1 x) (Suc n) = bit (push_bit 1 y) (Suc n)" using push by simp
      with 2 show ?thesis by (simp only: bit_push_bit_iff) simp
    qed (use top in simp)
  qed
qed

lemma crc_fold_inj: "inj crc_fold"
proof -
  have "crc_fold = crc_bit ^^ 8" by (rule ext) (rule crc_fold_bits)
  then show ?thesis using inj_fn[OF crc_bit_inj, of 8] by metis
qed

lemma crc_step_inj_state: "crc_step c d = crc_step c' d \<longleftrightarrow> c = c'"
proof
  assume "crc_step c d = crc_step c' d"
  then have "c XOR push_bit 8 (ucast d) = c' XOR push_bit 8 (ucast d)"
    unfolding crc_step_fold by (rule injD[OF crc_fold_inj])
  then show "c = c'" by simp
qed simp

lemma foldl_crc_inj: "foldl crc_step c bs = foldl crc_step c' bs \<longleftrightarrow> c = c'"
  by (induction bs arbitrary: c c') (simp_all add: crc_step_inj_state)

text \<open>Two consecutive bytes are two rounds of the division on the same halfword.\<close>

lemma crc_fold_byte: "crc_fold (ucast (d :: u8)) = push_bit 8 (ucast d)"
proof -
  have "drop_bit 8 (ucast d :: u16) = 0"
    by (rule bit_word_eqI) (simp add: bit_simps)
  then show ?thesis by (simp add: crc_fold_def)
qed

lemma crc_step_two: "crc_step (crc_step c a1) a2 = crc_fold (crc_fold (c XOR of_be16 a1 a2))"
proof -
  have "c XOR of_be16 a1 a2 = (c XOR push_bit 8 (ucast a1)) XOR ucast a2"
    unfolding of_be16_or by (rule bit_word_eqI) (auto simp: bit_simps)
  then have "crc_fold (c XOR of_be16 a1 a2) = crc_fold (c XOR push_bit 8 (ucast a1)) XOR push_bit 8 (ucast a2)"
    using crc_fold_linear by (simp add: xor_linear_def crc_fold_byte)
  then show ?thesis by (simp add: crc_step_fold)
qed

lemma of_be16_inject [simp]: "of_be16 a b = of_be16 c d \<longleftrightarrow> a = c \<and> b = d"
  by (metis be16_of_be16 list.inject)

text \<open>The checksum detects every error burst confined to two consecutive bytes, a
  single damaged byte among them, wherever it is in the message.\<close>

theorem crc_detects_two_byte_burst:
  assumes "(a1, a2) \<noteq> (b1, b2)"
  shows "crc_ccitt (pre @ [a1, a2] @ suf) \<noteq> crc_ccitt (pre @ [b1, b2] @ suf)"
proof -
  let ?c = "foldl crc_step 0xFFFF pre"
  have "crc_step (crc_step ?c a1) a2 \<noteq> crc_step (crc_step ?c b1) b2"
    using assms by (auto simp: crc_step_two inj_eq[OF crc_fold_inj])
  then show ?thesis
    by (simp add: crc_ccitt_step foldl_crc_inj)
qed

theorem crc_detects_two_byte_burst_witness:
  "crc_ccitt ([0xAA] @ [0x41, 0x00] @ [0x12]) \<noteq> crc_ccitt ([0xAA] @ [0x41, 0x80] @ [0x12])"
  by (rule crc_detects_two_byte_burst) simp

lemma crc_detects_byte:
  assumes "length xs = length ys" "i < length xs" "xs ! i \<noteq> ys ! i"
    and "\<And>j. j < length xs \<Longrightarrow> j \<noteq> i \<Longrightarrow> xs ! j = ys ! j"
  shows "crc_ccitt xs \<noteq> crc_ccitt ys"
proof -
  have pre: "take i xs = take i ys" and suf: "drop (Suc i) xs = drop (Suc i) ys"
    using assms by (auto intro!: nth_equalityI)
  let ?c = "foldl crc_step 0xFFFF (take i xs)"
  have "crc_step ?c (xs ! i) \<noteq> crc_step ?c (ys ! i)"
    using assms(3) crc_step_two[of ?c "xs ! i" 0] crc_step_two[of ?c "ys ! i" 0]
    by (auto simp: inj_eq[OF crc_fold_inj])
  then have "foldl crc_step ?c (xs ! i # drop (Suc i) xs) \<noteq> foldl crc_step ?c (ys ! i # drop (Suc i) ys)"
    by (simp add: suf foldl_crc_inj)
  moreover have "foldl crc_step 0xFFFF zs = foldl crc_step (foldl crc_step 0xFFFF (take i zs)) (zs ! i # drop (Suc i) zs)"
    if "i < length zs" for zs
    using that by (subst id_take_nth_drop[OF that]) simp
  ultimately show ?thesis
    using assms(1,2) pre by (simp add: crc_ccitt_step)
qed

section \<open>Appending the checksum\<close>

lemma addCRC_ok:
  assumes "2 \<le> unat n" "base + unat n \<le> length b"
  shows "addCRC b base n =
    Some (overlay (base + unat n - 2) (be16 (crc_ccitt (take (unat n - 2) (drop base b)))) b)"
  using assms by (simp add: addCRC_def calculateCRC_eq)

end
