(* ===== verification/Common_Frame.thy ===== *)
theory Common_Frame
  imports C37118_Types Crc_Checksum
begin

text \<open>
  The part every packet shares (\<open>src/pmu/c37118.cpp\<close>): sync byte, type, size, id code, time
  stamp and checksum.  \<open>parseCommon\<close> and the packet inspectors read it,
  \<open>generateCommonFrame\<close>, \<open>addTime\<close>, \<open>addSize\<close> and \<open>addCRC\<close> write it.  The public functions
  get \<open>data\<close> at the start of the allocation; \<open>dataSize\<close> is the caller's byte count, which the
  code does not compare with the bytes it reads except where the model shows it.
\<close>

section \<open>Parsing\<close>

definition parseCommon :: "buffer \<Rightarrow> nat \<Rightarrow> CommonFrame \<Rightarrow> (ParseResult \<times> CommonFrame) option" where
  "parseCommon b dataSize frame = do {
     d0 \<leftarrow> rd8 b 0;
     if d0 \<noteq> sync_lead then Some (invalid_sync, frame)
     else do {
       d1 \<leftarrow> rd8 b 1;
       let frame = frame\<lparr>cf_type := packet_type_of (d1 AND typeMask)\<rparr>;
       d2 \<leftarrow> rd8 b 2;
       d3 \<leftarrow> rd8 b 3;
       let frame = frame\<lparr>cf_byteCount := ucast d2 * 256 + ucast d3\<rparr>;
       if dataSize < unat (cf_byteCount frame) then Some (length_mismatch, frame)
       else do {
         crc \<leftarrow> calculateCRC b 0 (cf_byteCount frame);
         hi \<leftarrow> rd8_int b (int (unat (cf_byteCount frame)) - 2);
         lo \<leftarrow> rd8_int b (int (unat (cf_byteCount frame)) - 1);
         let actualCRC = ucast hi * 256 + ucast lo;
         if actualCRC \<noteq> crc then Some (invalid_checksum, frame)
         else do {
           sid \<leftarrow> load16 b 4;
           soc \<leftarrow> load32 b 6;
           frac \<leftarrow> load32 b 10;
           Some (parse_complete,
             frame\<lparr>cf_sourceID := ntohs sid, cf_soc := ntohl soc, cf_fracSec := ntohl frac\<rparr>)
         }
       }
     }
   }"

definition getPacketType :: "buffer \<Rightarrow> nat \<Rightarrow> PmuPacketType option" where
  "getPacketType b dataSize =
     (if dataSize < 16 then Some Pkt_unknown
      else do { d0 \<leftarrow> rd8 b 0;
                if d0 \<noteq> sync_lead then Some Pkt_unknown
                else do { d1 \<leftarrow> rd8 b 1; Some (packet_type_of (d1 AND typeMask)) } })"

definition getIdCode :: "buffer \<Rightarrow> nat \<Rightarrow> u16 option" where
  "getIdCode b dataSize =
     (if dataSize < 16 then Some 0
      else do { d0 \<leftarrow> rd8 b 0;
                if d0 \<noteq> sync_lead then Some 0
                else do { i \<leftarrow> load16 b 4; Some (ntohs i) } })"

definition getPacketSize :: "buffer \<Rightarrow> nat \<Rightarrow> u16 option" where
  "getPacketSize b dataSize =
     (if dataSize < 16 then Some 0
      else do { d0 \<leftarrow> rd8 b 0;
                if d0 \<noteq> sync_lead then Some 0
                else do { d2 \<leftarrow> rd8 b 2; d3 \<leftarrow> rd8 b 3; Some (ucast d2 * 256 + ucast d3) } })"

section \<open>Generation\<close>

text \<open>The two overloads differ in where the id code comes from; both are given it here.  The size
  parameter is a \<open>std::uint16_t\<close>: the callers cast their \<open>size_t\<close> to it.\<close>

definition generateCommonFrame :: "buffer \<Rightarrow> u16 \<Rightarrow> u16 \<Rightarrow> PmuPacketType \<Rightarrow> buffer option" where
  "generateCommonFrame b dataSize idCode type =
     (if unat dataSize < min_packet_size then Some b
      else do {
        b \<leftarrow> wr8 b 0 sync_lead;
        b \<leftarrow> wr8 b 1 ((packet_type_code type AND typeMask) + version2005);
        store16 b 4 (htons idCode)
      })"

definition generateCommonFrame_cfg :: "buffer \<Rightarrow> u16 \<Rightarrow> Config \<Rightarrow> PmuPacketType \<Rightarrow> buffer option" where
  "generateCommonFrame_cfg b dataSize config type =
     (if unat dataSize < min_packet_size then Some b
      else do {
        b \<leftarrow> wr8 b 0 sync_lead;
        b \<leftarrow> wr8 b 1 ((packet_type_code type AND typeMask) + version2005);
        store16 b 4 (htons (cfg_idcode config))
      })"

definition addTime :: "buffer \<Rightarrow> u32 \<Rightarrow> u32 \<Rightarrow> buffer option" where
  "addTime b soc fracsec = do {
     b \<leftarrow> store32 b 6 (htonl soc);
     store32 b 10 (htonl fracsec)
   }"

definition addSize :: "buffer \<Rightarrow> u16 \<Rightarrow> buffer option" where
  "addSize b dataSize = do {
     b \<leftarrow> wr8 b 2 (ucast (drop_bit 8 dataSize));
     wr8 b 3 (ucast (dataSize AND 0xFF))
   }"

section \<open>What parsing a frame means\<close>

text \<open>The size field of a buffer, and its promise: the announced bytes are there and the last
  two of them are the CRC-CCITT of the others.\<close>

definition frame_size :: "buffer \<Rightarrow> nat" where
  "frame_size b = unat (of_be16 (b ! 2) (b ! 3))"

definition frame_crc_ok :: "buffer \<Rightarrow> bool" where
  "frame_crc_ok b \<longleftrightarrow>
     of_be16 (b ! (frame_size b - 2)) (b ! (frame_size b - 1)) = crc_ccitt (take (frame_size b - 2) b)"

definition frame_header :: "buffer \<Rightarrow> CommonFrame \<Rightarrow> CommonFrame" where
  "frame_header b f = f\<lparr>cf_type := packet_type_of (b ! 1 AND typeMask),
     cf_byteCount := of_be16 (b ! 2) (b ! 3)\<rparr>"

definition be32_at :: "buffer \<Rightarrow> nat \<Rightarrow> u32" where
  "be32_at b off = htonl (of_le32 (take 4 (drop off b)))"

definition parsed_frame :: "buffer \<Rightarrow> CommonFrame \<Rightarrow> CommonFrame" where
  "parsed_frame b f = (frame_header b f)\<lparr>cf_sourceID := of_be16 (b ! 4) (b ! 5),
     cf_soc := be32_at b 6, cf_fracSec := be32_at b 10\<rparr>"

lemma frame_size_bound: "frame_size b < 65536"
  using unsigned_less[of "of_be16 (b ! 2) (b ! 3)", where 'a = nat] by (simp add: frame_size_def)

lemma load32_read: "off + 4 \<le> length b \<Longrightarrow> load32 b off = Some (htonl (be32_at b off))"
  by (simp add: load32_def be32_at_def)

lemma be32_at_holds: "holds_at b off (be32 w) \<Longrightarrow> be32_at b off = w"
  by (simp add: be32_at_def holds_at_def)

text \<open>The whole behaviour of \<open>parseCommon\<close> on a buffer of at least fourteen bytes that backs
  the caller's count: which result it returns, in which order the tests are made, and the one
  case that is undefined, a size field below two.\<close>

lemma parseCommon_cases:
  assumes "14 \<le> length b" "dataSize \<le> length b"
  shows "parseCommon b dataSize f =
    (if b ! 0 \<noteq> sync_lead then Some (invalid_sync, f)
     else if dataSize < frame_size b then Some (length_mismatch, frame_header b f)
     else if frame_size b < 2 then None
     else if frame_crc_ok b then Some (parse_complete, parsed_frame b f)
     else Some (invalid_checksum, frame_header b f))"
proof -
  have ne: "b \<noteq> []" using assms by auto
  have size: "ucast (b ! 2) * 256 + ucast (b ! 3) = of_be16 (b ! 2) (b ! 3)"
    by (simp add: of_be16_mul)
  consider "b ! 0 \<noteq> sync_lead \<or> dataSize < frame_size b"
    | "b ! 0 = sync_lead" "frame_size b \<le> dataSize" "frame_size b < 2"
    | "b ! 0 = sync_lead" "frame_size b \<le> dataSize" "2 \<le> frame_size b"
    by linarith
  then show ?thesis
  proof cases
    case 1
    then show ?thesis
      using assms ne by (auto simp: parseCommon_def Let_def size frame_size_def frame_header_def)
  next
    case 2
    then show ?thesis
      using assms ne
      by (simp add: parseCommon_def Let_def size rd8_int_def flip: frame_size_def)
  next
    case 3
    have idx: "nat (int (frame_size b) - 2) = frame_size b - 2" "nat (int (frame_size b) - 1) = frame_size b - 1"
      by simp_all
    have "calculateCRC b 0 (of_be16 (b ! 2) (b ! 3)) = Some (crc_ccitt (take (frame_size b - 2) b))"
      using 3 assms calculateCRC_eq[of 0 "of_be16 (b ! 2) (b ! 3)" b]
      by (simp add: frame_size_def)
    then show ?thesis
      using 3 assms ne
      by (simp add: parseCommon_def Let_def size rd8_int_def idx frame_crc_ok_def of_be16_mul
          load16_read load32_read frame_header_def parsed_frame_def
          flip: frame_size_def)
  qed
qed

lemma parseCommon_complete:
  assumes "14 \<le> length b" "dataSize \<le> length b" "b ! 0 = sync_lead" "frame_size b \<le> dataSize"
    "2 \<le> frame_size b" "frame_crc_ok b"
  shows "parseCommon b dataSize f = Some (parse_complete, parsed_frame b f)"
  using assms by (simp add: parseCommon_cases)

lemma parseCommon_completeD:
  assumes "parseCommon b dataSize f = Some (parse_complete, g)" "14 \<le> length b" "dataSize \<le> length b"
  shows "b ! 0 = sync_lead" "frame_size b \<le> dataSize" "2 \<le> frame_size b" "frame_crc_ok b"
    "g = parsed_frame b f"
  using assms by (auto simp: parseCommon_cases split: if_splits)

text \<open>A concrete packet, the command \<open>data_on\<close> for device 7, on which the theorems are tried.\<close>

definition sample_packet :: buffer where
  "sample_packet = [0xAA, 0x41, 0, 18, 0, 7, 0, 0, 0, 0, 0, 0, 0, 0, 0, 2, 0x64, 0xFB]"

lemma sample_packet_parses:
  "parseCommon sample_packet 18 fresh_frame = Some (parse_complete, parsed_frame sample_packet fresh_frame)"
proof (rule parseCommon_complete)
  have size: "frame_size sample_packet = 18"
    by (simp add: frame_size_def sample_packet_def of_be16_def)
  then show "frame_size sample_packet \<le> 18" "2 \<le> frame_size sample_packet" by simp_all
  show "frame_crc_ok sample_packet"
    by (simp add: frame_crc_ok_def size) (simp add: sample_packet_def crc_ccitt_step crc_step_def of_be16_def)
qed (simp_all add: sample_packet_def)

text \<open>C14: a packet that parses is rejected after any one of its bytes has been changed, the two
  bytes of the size field apart: as out of sync when the sync byte was hit, as failing the
  checksum everywhere else.\<close>

theorem damaged_frame_rejected:
  assumes ok: "parseCommon b dataSize f = Some (parse_complete, g)"
    and len: "14 \<le> length b" "dataSize \<le> length b"
    and i: "i < frame_size b" "i \<noteq> 2" "i \<noteq> 3" and v: "v \<noteq> b ! i"
  shows "parseCommon (b[i := v]) dataSize h =
    (if i = 0 then Some (invalid_sync, h) else Some (invalid_checksum, frame_header (b[i := v]) h))"
proof -
  note fr = parseCommon_completeD[OF ok len]
  have il: "i < length b" using i(1) fr(2) len(2) by linarith
  have size: "frame_size (b[i := v]) = frame_size b"
    using i by (simp add: frame_size_def nth_list_update)
  have "\<not> frame_crc_ok (b[i := v])"
  proof (cases "i < frame_size b - 2")
    case True
    have nth: "j < frame_size b - 2 \<Longrightarrow> j \<noteq> i \<Longrightarrow> take (frame_size b - 2) (b[i := v]) ! j =
        take (frame_size b - 2) b ! j" for j
      by simp
    have "crc_ccitt (take (frame_size b - 2) (b[i := v])) \<noteq> crc_ccitt (take (frame_size b - 2) b)"
      using True il v fr(2) len(2) by (intro crc_detects_byte[where i = i]) (auto simp: nth)
    with True fr(4) show ?thesis by (simp add: frame_crc_ok_def size)
  next
    case False
    then have "take (frame_size b - 2) (b[i := v]) = take (frame_size b - 2) b" by simp
    moreover have "i = frame_size b - 2 \<or> i = frame_size b - 1" "frame_size b - 2 \<noteq> frame_size b - 1"
      using False i(1) fr(3) by linarith+
    ultimately show ?thesis
      using fr(4) v il fr(2) len(2)
      by (auto simp: frame_crc_ok_def size nth_list_update) (metis of_be16_inject)+
  qed
  then show ?thesis
    using len fr il v by (cases "i = 0") (auto simp: parseCommon_cases size nth_list_update)
qed

theorem damaged_frame_rejected_witness:
  "parseCommon (sample_packet[9 := 1]) 18 fresh_frame =
     Some (invalid_checksum, frame_header (sample_packet[9 := 1]) fresh_frame)"
  using damaged_frame_rejected[OF sample_packet_parses, of 9 1 fresh_frame]
  by (simp add: sample_packet_def frame_size_def of_be16_def)

lemma parseCommon_short:
  assumes "4 \<le> length b" "length b < 14" "dataSize \<le> length b"
  shows "parseCommon b dataSize f = None \<longleftrightarrow>
    b ! 0 = sync_lead \<and> frame_size b \<le> dataSize \<and> (2 \<le> frame_size b \<longrightarrow> frame_crc_ok b)"
proof -
  have ne: "b \<noteq> []" using assms by auto
  have size: "ucast (b ! 2) * 256 + ucast (b ! 3) = of_be16 (b ! 2) (b ! 3)"
    by (simp add: of_be16_mul)
  consider "b ! 0 \<noteq> sync_lead \<or> dataSize < frame_size b"
    | "b ! 0 = sync_lead" "frame_size b \<le> dataSize" "frame_size b < 2"
    | "b ! 0 = sync_lead" "frame_size b \<le> dataSize" "2 \<le> frame_size b"
    by linarith
  then show ?thesis
  proof cases
    case 1
    then show ?thesis
      using assms ne by (auto simp: parseCommon_def Let_def size frame_size_def)
  next
    case 2
    then show ?thesis
      using assms ne by (simp add: parseCommon_def Let_def size rd8_int_def flip: frame_size_def)
  next
    case 3
    have idx: "nat (int (frame_size b) - 2) = frame_size b - 2" "nat (int (frame_size b) - 1) = frame_size b - 1"
      by simp_all
    have "calculateCRC b 0 (of_be16 (b ! 2) (b ! 3)) = Some (crc_ccitt (take (frame_size b - 2) b))"
      using 3 assms calculateCRC_eq[of 0 "of_be16 (b ! 2) (b ! 3)" b]
      by (simp add: frame_size_def)
    then show ?thesis
      using 3 assms ne
      by (auto simp: parseCommon_def Let_def size rd8_int_def idx frame_crc_ok_def of_be16_mul load32_def
          rd_bytes_def split: Option.bind_splits simp flip: frame_size_def)
  qed
qed

text \<open>C26: exactly which packets \<open>parseCommon\<close> leaves undefined, for a count that the buffer backs.  An empty buffer;
  fewer than four bytes that start in sync, for the size field is read before the count is looked at; an
  announced size of zero or one within the count, since two is subtracted without a lower bound; and four to
  thirteen bytes that announce a size within the count and have a matching checksum, since the fourteen bytes of
  the header are read then.  Everything else gets a result.\<close>

theorem parseCommon_undefined:
  assumes "dataSize \<le> length b"
  shows "parseCommon b dataSize f = None \<longleftrightarrow>
    b = [] \<or> b ! 0 = sync_lead \<and>
      (length b < 4 \<or>
       frame_size b \<le> dataSize \<and> (frame_size b < 2 \<or> length b < 14 \<and> frame_crc_ok b))"
proof -
  consider "b = []" | "b \<noteq> []" "length b < 4" | "4 \<le> length b" "length b < 14" | "14 \<le> length b" by linarith
  then show ?thesis
  proof cases
    case 1
    then show ?thesis by (simp add: parseCommon_def rd8_def)
  next
    case 2
    then show ?thesis
      by (cases "2 < length b"; cases "1 < length b") (auto simp: parseCommon_def rd8_def Let_def)
  next
    case 3
    moreover have "b \<noteq> []" using 3 by auto
    ultimately show ?thesis using parseCommon_short[OF 3 assms] by auto
  next
    case 4
    moreover have "b \<noteq> []" using 4 by auto
    ultimately show ?thesis using assms by (auto simp: parseCommon_cases)
  qed
qed

text \<open>Two bytes; a size of one; six bytes that are a valid frame of six.\<close>

theorem parseCommon_undefined_witness:
  "parseCommon [0xAA, 0x41] 2 fresh_frame = None \<and>
   parseCommon ([0xAA, 0x41, 0, 1] @ replicate 14 0) 18 fresh_frame = None \<and>
   (\<exists>x y. parseCommon [0xAA, 0x41, 0, 6, x, y] 6 fresh_frame = None)"
proof (intro conjI)
  show "parseCommon [0xAA, 0x41] 2 fresh_frame = None"
    using parseCommon_undefined[of 2 "[0xAA, 0x41]" fresh_frame] by simp
  show "parseCommon ([0xAA, 0x41, 0, 1] @ replicate 14 0) 18 fresh_frame = None"
    using parseCommon_undefined[of 18 "[0xAA, 0x41, 0, 1] @ replicate 14 0" fresh_frame]
    by (simp add: frame_size_def of_be16_def)
  let ?c = "crc_ccitt [0xAA, 0x41, 0, 6]"
  let ?b = "[0xAA, 0x41, 0, 6, be16 ?c ! 0, be16 ?c ! 1]"
  have size: "frame_size ?b = 6" by (simp add: frame_size_def of_be16_def)
  have "frame_crc_ok ?b" unfolding frame_crc_ok_def size by (simp add: be16_def)
  with size have "parseCommon ?b 6 fresh_frame = None" using parseCommon_undefined[of 6 ?b fresh_frame] by simp
  then show "\<exists>x y. parseCommon [0xAA, 0x41, 0, 6, x, y] 6 fresh_frame = None" by blast
qed

lemma inspectors_of_parsed:
  assumes "parseCommon b dataSize f = Some (parse_complete, g)" "16 \<le> dataSize" "dataSize \<le> length b"
  shows "getPacketType b dataSize = Some (cf_type g) \<and> getIdCode b dataSize = Some (cf_sourceID g) \<and>
    getPacketSize b dataSize = Some (cf_byteCount g)"
proof -
  have len: "14 \<le> length b" and ne: "b \<noteq> []" using assms by auto
  note fr = parseCommon_completeD[OF assms(1) len assms(3)]
  show ?thesis
    using fr assms(2) len ne
    by (simp add: getPacketType_def getIdCode_def getPacketSize_def parsed_frame_def frame_header_def
        load16_read of_be16_mul)
qed

text \<open>The packet inspectors agree with the parser on every packet of sixteen bytes or more that it accepts; a
  shorter one, which the parser accepts from fourteen bytes on, they do not look at.\<close>

theorem inspectors_agree:
  assumes "parseCommon b dataSize f = Some (parse_complete, g)" "dataSize \<le> length b"
  shows "(getPacketType b dataSize, getIdCode b dataSize, getPacketSize b dataSize) =
    (if 16 \<le> dataSize then (Some (cf_type g), Some (cf_sourceID g), Some (cf_byteCount g))
     else (Some Pkt_unknown, Some 0, Some 0))"
proof (cases "16 \<le> dataSize")
  case True
  then show ?thesis using inspectors_of_parsed[OF assms(1) _ assms(2)] by simp
qed (simp add: getPacketType_def getIdCode_def getPacketSize_def)

theorem inspectors_agree_witness:
  "getPacketType sample_packet 18 = Some Pkt_command \<and> getIdCode sample_packet 18 = Some 7 \<and>
   getPacketSize sample_packet 18 = Some 18"
  using inspectors_agree[OF sample_packet_parses]
  by (simp add: sample_packet_def parsed_frame_def frame_header_def packet_type_of_def of_be16_def)

section \<open>What generating a frame means\<close>

definition frame_bytes :: "PmuPacketType \<Rightarrow> u8 list" where
  "frame_bytes t = [sync_lead, (packet_type_code t AND typeMask) + version2005]"

lemma length_frame_bytes [simp]: "length (frame_bytes t) = 2"
  by (simp add: frame_bytes_def)

lemma generateCommonFrame_ok:
  assumes "min_packet_size \<le> unat n" "6 \<le> length b"
  shows "generateCommonFrame b n sid t = Some (overlay 4 (be16 sid) (overlay 0 (frame_bytes t) b))"
proof -
  have "overlay (0 + length [sync_lead]) [(packet_type_code t AND typeMask) + version2005] (overlay 0 [sync_lead] b) =
      overlay 0 (frame_bytes t) b"
    using assms(2) by (subst overlay_append) (simp_all add: frame_bytes_def)
  moreover have "b \<noteq> []" using assms(2) by auto
  ultimately show ?thesis
    using assms by (simp add: generateCommonFrame_def)
qed

lemma generateCommonFrame_cfg_eq:
  "generateCommonFrame_cfg b n config t = generateCommonFrame b n (cfg_idcode config) t"
  by (simp add: generateCommonFrame_cfg_def generateCommonFrame_def)

lemma addSize_ok:
  assumes "4 \<le> length b"
  shows "addSize b n = Some (overlay 2 (be16 n) b)"
proof -
  have "n AND 0xFF = take_bit 8 n"
    by (simp add: take_bit_eq_mask mask_eq_exp_minus_1)
  then have "ucast (n AND 0xFF) = (ucast n :: u8)"
    by (simp only:) (rule bit_word_eqI, simp add: bit_simps)
  then show ?thesis
    using assms overlay_append[of 2 "[ucast (drop_bit 8 n)]" "[ucast n]" b]
    by (simp add: addSize_def be16_def)
qed

lemma addTime_ok:
  assumes "14 \<le> length b"
  shows "addTime b soc fracsec = Some (overlay 6 (be32 soc @ be32 fracsec) b)"
  using assms overlay_append[of 6 "be32 soc" "be32 fracsec" b] by (simp add: addTime_def)

text \<open>The version nibble does not disturb the type bits.\<close>

lemma type_bits_survive: "((c AND typeMask) + version2005) AND typeMask = c AND typeMask"
proof -
  have m: "(typeMask :: u8) = push_bit 4 (mask 3)" by (simp add: push_bit_eq_mult mask_eq_exp_minus_1)
  have "(c AND typeMask) AND version2005 = 0"
    by (simp add: and.assoc)
  then have "(c AND typeMask) + version2005 = (c AND typeMask) OR version2005"
    by (rule disjunctive_add_eq_or)
  then have "((c AND typeMask) + version2005) AND typeMask = ((c AND typeMask) OR version2005) AND typeMask"
    by simp
  also have "\<dots> = c AND typeMask"
    by (simp add: and.assoc bit.conj_disj_distrib2)
  finally show ?thesis .
qed

lemma holds_at_take_cong:
  assumes "take k b' = take k b" "off + length bs \<le> k" "length b' = length b"
  shows "holds_at b' off bs = holds_at b off bs"
proof -
  have "b' ! i = b ! i" if "i < k" for i
    using assms(1) that by (metis nth_take)
  then show ?thesis using assms(2,3) by (auto simp: holds_at_iff_nth)
qed

text \<open>The fields a generator has put in front of the checksum are what \<open>parseCommon\<close> reports.\<close>

definition common_result :: "PmuPacketType \<Rightarrow> u16 \<Rightarrow> u16 \<Rightarrow> u32 \<Rightarrow> u32 \<Rightarrow> CommonFrame \<Rightarrow> CommonFrame" where
  "common_result t n sid soc frac f = f\<lparr>cf_type := packet_type_of (packet_type_code t AND typeMask),
     cf_byteCount := n, cf_sourceID := sid, cf_soc := soc, cf_fracSec := frac\<rparr>"

lemma parsed_frame_holds:
  assumes "holds_at b 0 (frame_bytes t)" "holds_at b 2 (be16 n)" "holds_at b 4 (be16 sid)"
  shows "parsed_frame b f = common_result t n sid (be32_at b 6) (be32_at b 10) f"
    "b ! 0 = sync_lead" "frame_size b = unat n"
proof -
  have b: "b ! 0 = sync_lead" "b ! 1 = (packet_type_code t AND typeMask) + version2005"
    "[b ! 2, b ! 3] = be16 n" "[b ! 4, b ! 5] = be16 sid"
    using holds_at_nth[OF assms(1), of 0] holds_at_nth[OF assms(1), of 1]
      holds_at_nth[OF assms(2), of 0] holds_at_nth[OF assms(2), of 1]
      holds_at_nth[OF assms(3), of 0] holds_at_nth[OF assms(3), of 1]
    by (simp_all add: frame_bytes_def be16_def)
  have of: "of_be16 (b ! 2) (b ! 3) = n" "of_be16 (b ! 4) (b ! 5) = sid"
    using b(3,4) by (simp_all add: be16_def)
  show "b ! 0 = sync_lead" "frame_size b = unat n"
    "parsed_frame b f = common_result t n sid (be32_at b 6) (be32_at b 10) f"
    using b(1,2) of type_bits_survive[of "packet_type_code t"]
    by (simp_all add: parsed_frame_def frame_header_def common_result_def frame_size_def)
qed

lemma finish_frame:
  assumes n: "16 \<le> unat n" "unat n \<le> length b"
    and head: "holds_at b 0 (frame_bytes t)" "holds_at b 2 (be16 n)" "holds_at b 4 (be16 sid)"
  obtains b' where "addCRC b 0 n = Some b'" "length b' = length b"
    "take (unat n - 2) b' = take (unat n - 2) b" "drop (unat n) b' = drop (unat n) b"
    "\<And>ds f. unat n \<le> ds \<Longrightarrow> ds \<le> length b \<Longrightarrow> parseCommon b' ds f =
       Some (parse_complete, common_result t n sid (be32_at b 6) (be32_at b 10) f)"
proof -
  define crc where "crc = crc_ccitt (take (unat n - 2) b)"
  define b' where "b' = overlay (unat n - 2) (be16 crc) b"
  have len: "length b' = length b" using n by (simp add: b'_def)
  have pre: "take (unat n - 2) b' = take (unat n - 2) b" using n by (simp add: b'_def)
  have "unat n - 2 + 2 = unat n" using n by simp
  then have post: "drop (unat n) b' = drop (unat n) b" using n by (simp add: b'_def overlay_def)
  have add: "addCRC b 0 n = Some b'"
    using n by (simp add: addCRC_ok b'_def crc_def)
  have head': "holds_at b' 0 (frame_bytes t)" "holds_at b' 2 (be16 n)" "holds_at b' 4 (be16 sid)"
    using head n by (simp_all add: holds_at_take_cong[OF pre _ len])
  have last: "holds_at b' (unat n - 2) (be16 crc)"
    using n by (simp add: b'_def holds_at_overlay)
  have nth: "b' ! (unat n - 2) = be16 crc ! 0" "b' ! (unat n - 1) = be16 crc ! 1"
    using holds_at_nth[OF last, of 0] holds_at_nth[OF last, of 1] n by (simp_all add: Suc_diff_Suc numeral_2_eq_2)
  note fr = parsed_frame_holds[OF head']
  have crc: "frame_crc_ok b'"
    using nth by (simp add: frame_crc_ok_def fr(3) pre flip: crc_def) (simp add: be16_def)
  have at: "be32_at b' 6 = be32_at b 6" "be32_at b' 10 = be32_at b 10"
    using pre n by (auto simp: be32_at_def b'_def overlay_def take_drop min_def)
  have "parseCommon b' ds f = Some (parse_complete, common_result t n sid (be32_at b 6) (be32_at b 10) f)"
    if "unat n \<le> ds" "ds \<le> length b" for ds f
    using parseCommon_complete[of b' ds f] fr crc that n len at by simp
  with add len pre post show ?thesis by (rule that)
qed

lemma common_result_simps [simp]:
  "cf_type (common_result t n sid soc fr f) = packet_type_of (packet_type_code t AND typeMask)"
  "cf_byteCount (common_result t n sid soc fr f) = n"
  "cf_sourceID (common_result t n sid soc fr f) = sid"
  "cf_soc (common_result t n sid soc fr f) = soc"
  "cf_fracSec (common_result t n sid soc fr f) = fr"
  by (simp_all add: common_result_def)

lemma packet_type_of_codes [simp]:
  "packet_type_of 0x40 = Pkt_command" "packet_type_of 0x10 = Pkt_header" "packet_type_of 0 = Pkt_data"
  "packet_type_of 0x20 = Pkt_config1" "packet_type_of 0x30 = Pkt_config2"
  by (simp_all add: packet_type_of_def)

text \<open>Bytes behind the count the caller gives do not matter.\<close>

lemma holds_at_take:
  "off + length bs \<le> n \<Longrightarrow> n \<le> length b \<Longrightarrow> holds_at (take n b) off bs = holds_at b off bs"
  by (auto simp: holds_at_iff_nth)

lemma parseCommon_take:
  assumes "14 \<le> n" "n \<le> length b"
  shows "parseCommon (take n b) n f = parseCommon b n f"
proof -
  have nth: "i < 14 \<Longrightarrow> take n b ! i = b ! i" for i using assms by simp
  have size: "frame_size (take n b) = frame_size b" using assms by (simp add: frame_size_def)
  have head: "frame_header (take n b) f = frame_header b f"
    using assms by (simp add: frame_header_def)
  have "parsed_frame (take n b) f = parsed_frame b f"
    using assms by (simp add: parsed_frame_def head be32_at_def drop_take min_def)
  moreover have "frame_crc_ok (take n b) = frame_crc_ok b" if "frame_size b \<le> n" "2 \<le> frame_size b"
    using that assms by (simp add: frame_crc_ok_def size min.absorb1)
  ultimately show ?thesis
    using assms by (auto simp: parseCommon_cases size head)
qed

end
