(* ===== verification/Command_Frame.thy ===== *)
theory Command_Frame
  imports Common_Frame
begin

text \<open>
  Command, header and extended frames of \<open>src/pmu/c37118.cpp\<close>: the generators
  \<open>generateCommand\<close>, \<open>generateHeader\<close>, \<open>generateExtendedFrame\<close> and the parsers
  \<open>parseCommand\<close>, \<open>parseHeader\<close>, \<open>getExtendedData\<close>.  The generators return the buffer
  and the number of bytes of the frame.
\<close>

section \<open>The code\<close>

abbreviation (input) command_location :: nat where "command_location \<equiv> 14"

text \<open>\<open>std::string(data + from, data + to)\<close>; a range that ends before it starts is not a range.\<close>

definition string_of_range :: "buffer \<Rightarrow> nat \<Rightarrow> int \<Rightarrow> string option" where
  "string_of_range b from to =
     (if to < int from then None
      else map_option (map char_of_byte) (rd_bytes b from (nat to - from)))"

definition parseHeader :: "buffer \<Rightarrow> nat \<Rightarrow> string option" where
  "parseHeader b dataSize = do {
     (r, frame) \<leftarrow> parseCommon b dataSize fresh_frame;
     if r \<noteq> parse_complete then Some []
     else string_of_range b command_location (int (unat (cf_byteCount frame)) - 2)
   }"

definition parseCommand :: "buffer \<Rightarrow> nat \<Rightarrow> PmuCommand option" where
  "parseCommand b dataSize = do {
     (r, frame) \<leftarrow> parseCommon b dataSize fresh_frame;
     if r \<noteq> parse_complete then Some Cmd_unknown
     else if cf_type frame \<noteq> Pkt_command then Some Cmd_unknown
     else do {
       hi \<leftarrow> rd8 b command_location;
       lo \<leftarrow> rd8 b (command_location + 1);
       Some (pmu_command_of (of_be16 hi lo))
     }
   }"

definition getExtendedData :: "buffer \<Rightarrow> nat \<Rightarrow> string option" where
  "getExtendedData b dataSize = do {
     (r, frame) \<leftarrow> parseCommon b dataSize fresh_frame;
     if r \<noteq> parse_complete then Some []
     else if cf_type frame \<noteq> Pkt_command then Some []
     else do {
       hi \<leftarrow> rd8 b command_location;
       lo \<leftarrow> rd8 b (command_location + 1);
       if of_be16 hi lo \<noteq> extended_frame_command then Some []
       else string_of_range b common_frame_size (int (unat (cf_byteCount frame)) - 2)
     }
   }"

definition generateCommand :: "buffer \<Rightarrow> nat \<Rightarrow> PmuCommand \<Rightarrow> u16 \<Rightarrow> (buffer \<times> u16) option" where
  "generateCommand b dataSize command idCode = do {
     b \<leftarrow> generateCommonFrame b (of_nat dataSize) idCode Pkt_command;
     b \<leftarrow> store16 b common_frame_size (htons (pmu_command_code command));
     b \<leftarrow> addSize b 18;
     b \<leftarrow> addCRC b 0 18;
     Some (b, 18)
   }"

definition generateHeader :: "buffer \<Rightarrow> nat \<Rightarrow> string \<Rightarrow> Config \<Rightarrow> (buffer \<times> u16) option" where
  "generateHeader b dataSize header config = do {
     let bytes_used = 14;
     b \<leftarrow> generateCommonFrame_cfg b (of_nat dataSize) config Pkt_header;
     b \<leftarrow> addSize b (bytes_used + of_nat (length header) + 2);
     b \<leftarrow> wr_bytes b (unat bytes_used) (map byte_of_char header);
     let bytes_used = bytes_used + (of_nat (length header) + 2);
     b \<leftarrow> addCRC b 0 bytes_used;
     Some (b, bytes_used)
   }"

definition generateExtendedFrame :: "buffer \<Rightarrow> nat \<Rightarrow> string \<Rightarrow> u16 \<Rightarrow> (buffer \<times> u16) option" where
  "generateExtendedFrame b dataSize frameData idCode = do {
     let bytes_used = 14;
     b \<leftarrow> generateCommonFrame b (of_nat dataSize) idCode Pkt_command;
     b \<leftarrow> store16 b (unat bytes_used) (htons extended_frame_command);
     let bytes_used = bytes_used + 2;
     b \<leftarrow> addSize b (bytes_used + of_nat (length frameData) + 2);
     b \<leftarrow> wr_bytes b (unat bytes_used) (map byte_of_char frameData);
     let bytes_used = bytes_used + (of_nat (length frameData) + 2);
     b \<leftarrow> addCRC b 0 bytes_used;
     Some (b, bytes_used)
   }"

section \<open>A frame with a body\<close>

text \<open>
  What the three generators have in common: header fields at the front, \<open>body\<close> from byte 14 on,
  size and checksum around them.  \<open>framed b b' t sid body\<close> says that \<open>b'\<close> starts with that
  frame and otherwise equals \<open>b\<close>, the eight bytes of the time stamp included, which these
  generators do not write.
\<close>

definition framed :: "buffer \<Rightarrow> buffer \<Rightarrow> PmuPacketType \<Rightarrow> u16 \<Rightarrow> u8 list \<Rightarrow> bool" where
  "framed b b' t sid body \<longleftrightarrow>
     length b' = length b \<and> drop (16 + length body) b' = drop (16 + length body) b \<and>
     holds_at b' 14 body \<and>
     (\<forall>ds f. 16 + length body \<le> ds \<longrightarrow> ds \<le> length b \<longrightarrow> parseCommon b' ds f =
        Some (parse_complete,
          common_result t (of_nat (16 + length body)) sid (be32_at b 6) (be32_at b 10) f))"

definition framed_content :: "buffer \<Rightarrow> PmuPacketType \<Rightarrow> u16 \<Rightarrow> u16 \<Rightarrow> u8 list \<Rightarrow> buffer" where
  "framed_content b t sid n body =
     overlay 14 body (overlay 2 (be16 n) (overlay 4 (be16 sid) (overlay 0 (frame_bytes t) b)))"

lemma framed_addCRC:
  assumes body: "16 + length body < 65536" "16 + length body \<le> length b"
    and n: "n = of_nat (16 + length body)"
  shows "\<exists>b'. addCRC (framed_content b t sid n body) 0 n = Some b' \<and> framed b b' t sid body"
proof -
  let ?c = "framed_content b t sid n body"
  have un: "unat n = 16 + length body"
    using body(1) by (simp add: n unat_of_nat take_bit_eq_mod del: of_nat_add)
  have len: "length ?c = length b" using body by (simp add: framed_content_def)
  have head: "holds_at ?c 0 (frame_bytes t)" "holds_at ?c 2 (be16 n)" "holds_at ?c 4 (be16 sid)"
    "holds_at ?c 14 body"
    using body
    by (simp_all add: framed_content_def holds_at_overlay_before holds_at_overlay_after holds_at_overlay)
  obtain b' where b': "addCRC ?c 0 n = Some b'" "length b' = length ?c"
      "take (unat n - 2) b' = take (unat n - 2) ?c" "drop (unat n) b' = drop (unat n) ?c"
      "\<And>ds f. unat n \<le> ds \<Longrightarrow> ds \<le> length ?c \<Longrightarrow> parseCommon b' ds f =
         Some (parse_complete, common_result t n sid (be32_at ?c 6) (be32_at ?c 10) f)"
    using finish_frame[OF _ _ head(1-3)] un body len by auto
  have at: "be32_at ?c 6 = be32_at b 6" "be32_at ?c 10 = be32_at b 10"
    using body by (simp_all add: framed_content_def be32_at_def overlay_def take_drop min_def)
  have "holds_at b' 14 body"
    using holds_at_take_cong[OF b'(3)] b'(2) head(4) un by simp
  moreover have "drop (unat n) ?c = drop (unat n) b"
    using body un by (simp add: framed_content_def overlay_def)
  ultimately have "framed b b' t sid body"
    using b' len un at by (simp add: framed_def n)
  with b'(1) show ?thesis by blast
qed

lemma framedD:
  assumes "framed b b' t sid body" "16 + length body \<le> ds" "ds \<le> length b"
  shows "length b' = length b" "holds_at b' 14 body"
    "parseCommon b' ds f = Some (parse_complete,
       common_result t (of_nat (16 + length body)) sid (be32_at b 6) (be32_at b 10) f)"
  using assms by (auto simp: framed_def)

lemma string_of_range_holds:
  assumes "holds_at b off bs"
  shows "string_of_range b off (int (off + length bs)) = Some (map char_of_byte bs)"
  using rd_bytes_holds[OF assms] by (simp add: string_of_range_def nat_add_distrib)

section \<open>Commands\<close>

lemma generateCommand_framed:
  assumes "18 \<le> unat (of_nat dataSize :: u16)" "18 \<le> length b"
  shows "\<exists>b'. generateCommand b dataSize cmd sid = Some (b', 18) \<and>
    framed b b' Pkt_command sid (be16 (pmu_command_code cmd))"
proof -
  let ?body = "be16 (pmu_command_code cmd)"
  let ?x = "overlay 4 (be16 sid) (overlay 0 (frame_bytes Pkt_command) b)"
  have x: "overlay 2 (be16 18) (overlay 14 ?body ?x) = framed_content b Pkt_command sid 18 ?body"
    using assms(2) overlay_overlay_disjoint[of 2 "be16 18" 14 ?body ?x]
    by (simp add: framed_content_def)
  obtain b' where "addCRC (framed_content b Pkt_command sid 18 ?body) 0 18 = Some b'"
      "framed b b' Pkt_command sid ?body"
    using framed_addCRC[of ?body b 18] assms(2) by auto
  with assms x show ?thesis
    by (simp add: generateCommand_def generateCommonFrame_ok addSize_ok)
qed



lemma command_in_64k_buffer:
  assumes "18 \<le> length b" "b ! 0 \<noteq> sync_lead"
  shows "\<exists>b'. generateCommand b 65536 cmd sid = Some (b', 18) \<and> take 2 b' = take 2 b \<and>
    b' ! 4 = b ! 4 \<and> b' ! 5 = b ! 5 \<and> parseCommon b' 18 f = Some (invalid_sync, f)"
proof -
  let ?x = "overlay 2 (be16 18) (overlay 14 (be16 (pmu_command_code cmd)) b)"
  have len: "length ?x = length b" using assms by simp
  obtain b' where b': "addCRC ?x 0 18 = Some b'" "b' = overlay 16 (be16 (crc_ccitt (take 16 ?x))) ?x"
    using addCRC_ok[of 18 0 ?x] assms len by simp
  have same: "b' ! i = b ! i" if "i < 2 \<or> i = 4 \<or> i = 5" for i
    using assms len that by (auto simp: b'(2) nth_overlay)
  have "take 2 b' = take 2 b"
    using assms len by (intro nth_equalityI) (auto simp: same b'(2))
  moreover have "parseCommon b' 18 f = Some (invalid_sync, f)"
    using assms len same[of 0] by (subst parseCommon_cases) (simp_all add: b'(2))
  ultimately show ?thesis
    using assms b'(1) same
    by (simp add: generateCommand_def generateCommonFrame_def addSize_ok)
qed

text \<open>The size of the output buffer reaches \<open>generateCommonFrame\<close> as a 16-bit number.  A
  buffer of 65536 bytes therefore counts as empty: the function returns a frame of
  eighteen bytes without having written the sync byte, the type or the id code, and the
  receiver of the frame does not recognise it.\<close>

theorem command_lost_in_64k_buffer:
  assumes "18 \<le> length b" "b ! 0 \<noteq> sync_lead"
  shows "\<exists>b'. generateCommand b 65536 cmd sid = Some (b', 18) \<and> take 2 b' = take 2 b \<and>
    b' ! 4 = b ! 4 \<and> b' ! 5 = b ! 5 \<and> parseCommon b' 18 f = Some (invalid_sync, f)"
  using assms by (rule command_in_64k_buffer)

theorem command_lost_in_64k_buffer_witness:
  "\<exists>b'. generateCommand (replicate 20 0) 65536 Cmd_data_on 7 = Some (b', 18) \<and> take 2 b' = [0, 0] \<and>
     b' ! 4 = 0 \<and> b' ! 5 = 0 \<and> parseCommon b' 18 fresh_frame = Some (invalid_sync, fresh_frame)"
proof -
  have "replicate 2 (0 :: u8) = [0, 0]" by (simp add: numeral_2_eq_2)
  with command_lost_in_64k_buffer[of "replicate 20 0" Cmd_data_on 7 fresh_frame] show ?thesis by simp
qed

section \<open>Headers and extended frames\<close>

lemma unat_frame_offsets [simp]: "unat (14 :: u16) = 14" "unat (16 :: u16) = 16"
  by simp_all

lemma generateHeader_framed:
  assumes "18 \<le> unat (of_nat dataSize :: u16)" "16 + length header < 65536" "16 + length header \<le> length b"
  shows "\<exists>b'. generateHeader b dataSize header config = Some (b', of_nat (16 + length header)) \<and>
    framed b b' Pkt_header (cfg_idcode config) (map byte_of_char header)"
proof -
  let ?n = "of_nat (16 + length header) :: u16"
  let ?body = "map byte_of_char header"
  obtain b' where "addCRC (framed_content b Pkt_header (cfg_idcode config) ?n ?body) 0 ?n = Some b'"
      "framed b b' Pkt_header (cfg_idcode config) ?body"
    using framed_addCRC[of ?body b ?n] assms by auto
  moreover have "14 + of_nat (length header) + 2 = ?n" "14 + (of_nat (length header) + 2) = ?n"
    by simp_all
  ultimately show ?thesis
    using assms
    by (simp add: generateHeader_def generateCommonFrame_cfg_eq generateCommonFrame_ok addSize_ok
        framed_content_def Let_def)
qed

text \<open>C15: a generated header frame parses back to the same text, from a packet of the header type
  that carries the configuration's id code.\<close>

theorem header_roundtrip:
  assumes "18 \<le> unat (of_nat dataSize :: u16)" "16 + length header < 65536" "16 + length header \<le> length b"
  shows "\<exists>b'. generateHeader b dataSize header config = Some (b', of_nat (16 + length header)) \<and>
    parseHeader b' (16 + length header) = Some header \<and>
    getPacketType b' (16 + length header) = Some Pkt_header \<and>
    getIdCode b' (16 + length header) = Some (cfg_idcode config)"
proof -
  let ?body = "map byte_of_char header"
  obtain b' where b': "generateHeader b dataSize header config = Some (b', of_nat (16 + length header))"
      and fr: "framed b b' Pkt_header (cfg_idcode config) ?body"
    using generateHeader_framed[OF assms] by blast
  have len: "16 + length ?body \<le> 16 + length header" by simp
  note fr' = framedD[OF fr len assms(3)]
  have un: "uint (of_nat (16 + length header) :: u16) = int (16 + length header)"
    using assms(2) by (rule uint16)
  have "parseHeader b' (16 + length header) = string_of_range b' 14 (int (14 + length ?body))"
    using fr'(3) un by (simp add: parseHeader_def)
  moreover have "string_of_range b' 14 (int (14 + length ?body)) = Some header"
    by (subst string_of_range_holds[OF fr'(2)]) simp
  moreover note inspectors_of_parsed[OF fr'(3)]
  ultimately show ?thesis
    using b' fr'(1) assms(3) by simp
qed

theorem header_roundtrip_witness:
  "\<exists>b'. generateHeader (replicate 40 0) 40 ''PMU'' default_Config = Some (b', 19) \<and>
     parseHeader b' 19 = Some ''PMU'' \<and> getPacketType b' 19 = Some Pkt_header \<and> getIdCode b' 19 = Some 0"
  using header_roundtrip[of 40 "''PMU''" "replicate 40 0" default_Config]
  by (simp add: default_Config_def)

lemma addCRC_short:
  assumes "length b < unat n" "2 \<le> unat n"
  shows "addCRC b 0 n = None"
  using assms by (auto simp: addCRC_def store16_def wr_bytes_def split: Option.bind_splits)

text \<open>The header generator never compares the text with \<open>dataSize\<close>.  What decides whether it
  stays in bounds is the allocation alone: it is defined exactly if text and overhead fit into
  the buffer, whatever size the caller announced.\<close>

theorem generateHeader_defined:
  assumes "18 \<le> unat (of_nat dataSize :: u16)" "16 + length header < 65536" "14 \<le> length b"
  shows "generateHeader b dataSize header config = None \<longleftrightarrow> length b < 16 + length header"
proof
  assume "generateHeader b dataSize header config = None"
  then show "length b < 16 + length header"
    using generateHeader_framed[OF assms(1,2), of b config] by (cases "16 + length header \<le> length b") auto
next
  assume short: "length b < 16 + length header"
  let ?n = "14 + (of_nat (length header) + 2) :: u16"
  have "?n = of_nat (16 + length header)" by simp
  then have un: "unat ?n = 16 + length header" using unat16[OF assms(2)] by simp
  then have "addCRC c 0 ?n = None" if "length c = length b" for c
    using short that by (intro addCRC_short) simp_all
  with assms show "generateHeader b dataSize header config = None"
    by (auto simp: generateHeader_def generateCommonFrame_cfg_eq generateCommonFrame_ok addSize_ok
        Let_def wr_bytes_def split: Option.bind_splits)
qed

theorem generateHeader_defined_witness:
  "generateHeader (replicate 18 0) 18 ''PMU'' default_Config = None"
  using generateHeader_defined[of 18 "''PMU''" "replicate 18 0" default_Config] by simp

lemma generateExtendedFrame_framed:
  assumes "18 \<le> unat (of_nat dataSize :: u16)" "18 + length d < 65536" "18 + length d \<le> length b"
  shows "\<exists>b'. generateExtendedFrame b dataSize d sid = Some (b', of_nat (18 + length d)) \<and>
    framed b b' Pkt_command sid (be16 extended_frame_command @ map byte_of_char d)"
proof -
  let ?n = "of_nat (18 + length d) :: u16"
  let ?ext = "be16 extended_frame_command" and ?data = "map byte_of_char d"
  let ?x = "overlay 4 (be16 sid) (overlay 0 (frame_bytes Pkt_command) b)"
  have x: "overlay 16 ?data (overlay 2 (be16 ?n) (overlay 14 ?ext ?x)) =
      framed_content b Pkt_command sid ?n (?ext @ ?data)"
    using assms(3) overlay_overlay_disjoint[of 2 "be16 ?n" 14 ?ext ?x]
      overlay_append[of 14 ?ext ?data "overlay 2 (be16 ?n) ?x"]
    by (simp add: framed_content_def)
  obtain b' where "addCRC (framed_content b Pkt_command sid ?n (?ext @ ?data)) 0 ?n = Some b'"
      "framed b b' Pkt_command sid (?ext @ ?data)"
    using framed_addCRC[of "?ext @ ?data" b ?n] assms by auto
  moreover have "14 + 2 + of_nat (length d) + 2 = ?n" "14 + 2 + (of_nat (length d) + 2) = ?n"
    "unat (14 + 2 :: u16) = 16"
    by simp_all
  ultimately show ?thesis
    using assms x
    by (simp add: generateExtendedFrame_def generateCommonFrame_ok addSize_ok Let_def)
qed

text \<open>Extended frames do not round-trip.  The reader starts at the end of the common part,
  where the writer has put the command code, so the data come back with the two bytes of the code
  in front of them.\<close>

theorem extended_data_keeps_command:
  assumes "18 \<le> unat (of_nat dataSize :: u16)" "18 + length d < 65536" "18 + length d \<le> length b"
  shows "\<exists>b'. generateExtendedFrame b dataSize d sid = Some (b', of_nat (18 + length d)) \<and>
    parseCommand b' (18 + length d) = Some Cmd_extended \<and>
    getExtendedData b' (18 + length d) = Some ([char_of_byte 0, char_of_byte 8] @ d)"
proof -
  let ?body = "be16 extended_frame_command @ map byte_of_char d"
  obtain b' where b': "generateExtendedFrame b dataSize d sid = Some (b', of_nat (18 + length d))"
      and fr: "framed b b' Pkt_command sid ?body"
    using generateExtendedFrame_framed[OF assms] by blast
  have len: "16 + length ?body \<le> 18 + length d" by simp
  note fr' = framedD[OF fr len assms(3)]
  have un: "uint (of_nat (18 + length d) :: u16) = int (18 + length d)"
    using assms(2) by (rule uint16)
  have code: "rd8 b' 14 = Some 0" "rd8 b' 15 = Some 8"
    using rd8_holds[OF fr'(2), of 0] rd8_holds[OF fr'(2), of 1] by (simp_all add: be16_def)
  have "getExtendedData b' (18 + length d) = string_of_range b' 14 (int (14 + length ?body))"
    using fr'(3) un code by (simp add: getExtendedData_def of_be16_def)
  moreover have "string_of_range b' 14 (int (14 + length ?body)) = Some ([char_of_byte 0, char_of_byte 8] @ d)"
    by (subst string_of_range_holds[OF fr'(2)]) (simp add: be16_def)
  moreover have "parseCommand b' (18 + length d) = Some Cmd_extended"
    using fr'(3) code by (simp add: parseCommand_def of_be16_def pmu_command_of_def)
  ultimately show ?thesis using b' by simp
qed

theorem extended_data_keeps_command_witness:
  "\<exists>b'. generateExtendedFrame (replicate 40 0) 40 ''ab'' 7 = Some (b', 20) \<and>
     parseCommand b' 20 = Some Cmd_extended \<and>
     getExtendedData b' 20 = Some [char_of_byte 0, char_of_byte 8, CHR ''a'', CHR ''b'']"
  using extended_data_keeps_command[of 40 "''ab''" "replicate 40 0" 7] by simp

end
