(* ===== verification/Config_Fields.thy ===== *)
theory Config_Fields
  imports Common_Frame
begin

text \<open>
  The repeated fields of a configuration frame (\<open>parsePmuConfig\<close> and \<open>generatePMUConfig\<close> in
  \<open>src/pmu/c37118.cpp\<close>): channel names of sixteen bytes, and the units of phasor, analog and
  digital channels of four bytes.  For each kind of field the code of the generator's loop body, the
  code of the parser's loop body and the wire format; each is shown to be an instance of
  \<open>wire_field\<close>, which gives the facts on runs of fields.
\<close>

section \<open>Loop bodies of the generator\<close>

definition wr_name :: "string \<Rightarrow> nat \<Rightarrow> cursor \<Rightarrow> cursor option" where
  "wr_name name base = (\<lambda>(b, bytes_used). do {
     let nameSize = min (length name) channel_name_size;
     b \<leftarrow> wr_bytes b (base + unat bytes_used) (map byte_of_char (take nameSize name));
     b \<leftarrow> (if nameSize < channel_name_size
          then memset b (base + unat bytes_used + nameSize) 0 (channel_name_size - nameSize)
          else Some b);
     Some (b, bytes_used + of_nat channel_name_size)
   })"

text \<open>\<open>data[bytes_used] = (v >> 8) & low_byte_mask; data[bytes_used + 1] = v & low_byte_mask;
  bytes_used += 2;\<close>\<close>

definition wr_u16 :: "u16 \<Rightarrow> nat \<Rightarrow> cursor \<Rightarrow> cursor option" where
  "wr_u16 v base = (\<lambda>(b, bytes_used). do {
     b \<leftarrow> wr8 b (base + unat bytes_used) (ucast (drop_bit 8 v AND 0xFF));
     b \<leftarrow> wr8 b (base + unat bytes_used + 1) (ucast (v AND 0xFF));
     Some (b, bytes_used + 2)
   })"

definition wr_phasor_unit :: "PhasorType \<times> u32 \<Rightarrow> nat \<Rightarrow> cursor \<Rightarrow> cursor option" where
  "wr_phasor_unit = (\<lambda>(type, conversion) base (b, bytes_used). do {
     b \<leftarrow> wr8 b (base + unat bytes_used) (phasor_type_code type);
     b \<leftarrow> wr8 b (base + unat bytes_used + 1) (ucast (drop_bit 16 conversion AND 0xFF));
     b \<leftarrow> wr8 b (base + unat bytes_used + 2) (ucast (drop_bit 8 conversion AND 0xFF));
     b \<leftarrow> wr8 b (base + unat bytes_used + 3) (ucast (conversion AND 0xFF));
     Some (b, bytes_used + 4)
   })"

definition wr_analog_unit :: "AnalogType \<times> u32 \<Rightarrow> nat \<Rightarrow> cursor \<Rightarrow> cursor option" where
  "wr_analog_unit = (\<lambda>(type, conversion) base (b, bytes_used). do {
     b \<leftarrow> store32 b (base + unat bytes_used) (htonl conversion);
     b \<leftarrow> wr8 b (base + unat bytes_used) (analog_type_code type);
     Some (b, bytes_used + 4)
   })"

definition wr_digital_unit :: "u16 \<times> u16 \<Rightarrow> nat \<Rightarrow> cursor \<Rightarrow> cursor option" where
  "wr_digital_unit = (\<lambda>(nominal, active) base s. do {
     s \<leftarrow> wr_u16 nominal base s;
     wr_u16 active base s
   })"

section \<open>Loop bodies of the parser\<close>

definition interpret24bitAsInt32 :: "u32 \<Rightarrow> u32" where
  "interpret24bitAsInt32 val =
     (let val1 = ucast (drop_bit 16 val AND 0xFF) :: u8;
          val2 = ucast (drop_bit 8 val AND 0xFF) :: u8;
          val3 = ucast (val AND 0xFF) :: u8
      in signed_drop_bit 8 (push_bit 24 (ucast val1) OR push_bit 16 (ucast val2) OR push_bit 8 (ucast val3)))"

definition rd_name :: "buffer \<Rightarrow> nat \<Rightarrow> (string \<times> nat) option" where
  "rd_name b off = do { bs \<leftarrow> rd_bytes b off 16; Some (map char_of_byte bs, off + 16) }"

definition rd_u16 :: "buffer \<Rightarrow> nat \<Rightarrow> u16 option" where
  "rd_u16 b off = do { hi \<leftarrow> rd8 b off; lo \<leftarrow> rd8 b (off + 1); Some (of_be16 hi lo) }"

definition rd_phasor_unit :: "buffer \<Rightarrow> nat \<Rightarrow> ((PhasorType \<times> u32) \<times> nat) option" where
  "rd_phasor_unit b off = do {
     t \<leftarrow> rd8 b off;
     x1 \<leftarrow> rd8 b (off + 1);
     x2 \<leftarrow> rd8 b (off + 2);
     x3 \<leftarrow> rd8 b (off + 3);
     Some ((phasor_type_of t, of_be24 x1 x2 x3), off + 4)
   }"

definition rd_analog_unit :: "buffer \<Rightarrow> nat \<Rightarrow> ((AnalogType \<times> u32) \<times> nat) option" where
  "rd_analog_unit b off = do {
     t \<leftarrow> rd8 b off;
     conversion \<leftarrow> load32 b off;
     Some ((analog_type_of t, interpret24bitAsInt32 (ntohl conversion)), off + 4)
   }"

definition rd_digital_unit :: "buffer \<Rightarrow> nat \<Rightarrow> ((u16 \<times> u16) \<times> nat) option" where
  "rd_digital_unit b off = do {
     nominal \<leftarrow> rd_u16 b off;
     active \<leftarrow> rd_u16 b (off + 2);
     Some ((nominal, active), off + 4)
   }"

section \<open>Wire formats\<close>

text \<open>A name is cut or padded with NUL to sixteen bytes.\<close>

definition enc_name :: "string \<Rightarrow> u8 list" where
  "enc_name name = map byte_of_char (take 16 name) @ replicate (16 - length name) 0"

definition canon_name :: "string \<Rightarrow> string" where
  "canon_name name = take 16 name @ replicate (16 - length name) (char_of_byte 0)"

definition enc_phasor :: "PhasorType \<times> u32 \<Rightarrow> u8 list" where
  "enc_phasor u = phasor_type_code (fst u) # be24 (snd u)"

definition canon_phasor :: "PhasorType \<times> u32 \<Rightarrow> PhasorType \<times> u32" where
  "canon_phasor u = (phasor_type_of (phasor_type_code (fst u)), take_bit 24 (snd u))"

definition enc_analog :: "AnalogType \<times> u32 \<Rightarrow> u8 list" where
  "enc_analog u = analog_type_code (fst u) # be24 (snd u)"

text \<open>The sign of an analog conversion factor is bit 23 of the 24 bits on the wire.\<close>

definition canon_analog :: "AnalogType \<times> u32 \<Rightarrow> AnalogType \<times> u32" where
  "canon_analog u = (analog_type_of (analog_type_code (fst u)), signed_take_bit 23 (snd u))"

definition enc_digital :: "u16 \<times> u16 \<Rightarrow> u8 list" where
  "enc_digital u = be16 (fst u) @ be16 (snd u)"

lemma length_enc [simp]:
  "length (enc_name s) = 16" "length (enc_phasor p) = 4" "length (enc_analog a) = 4"
  "length (enc_digital d) = 4"
  by (auto simp: enc_name_def enc_phasor_def enc_analog_def enc_digital_def)

lemma length_canon_name [simp]: "length (canon_name s) = 16"
  by (auto simp: canon_name_def)

lemma chars_enc_name: "map char_of_byte (enc_name s) = canon_name s"
  by (simp add: enc_name_def canon_name_def)

lemma low_byte_ucast [simp]:
  "ucast ((w :: u16) AND 0xFF) = (ucast w :: u8)" "ucast ((v :: u32) AND 0xFF) = (ucast v :: u8)"
proof -
  have "w AND 0xFF = take_bit 8 w" "v AND 0xFF = take_bit 8 v"
    by (simp_all add: take_bit_eq_mask mask_eq_exp_minus_1)
  then show "ucast (w AND 0xFF) = (ucast w :: u8)" "ucast (v AND 0xFF) = (ucast v :: u8)"
    by (simp_all only:) (rule bit_word_eqI, simp add: bit_simps)+
qed

section \<open>The generators emit the wire formats\<close>

lemma emits_name [emit_rules]: "emits base (wr_name name base) (enc_name name)"
proof (rule emitsI)
  fix b :: buffer and used :: u16
  assume len: "base + unat used + length (enc_name name) \<le> length b"
  let ?o = "base + unat used"
  let ?cs = "map byte_of_char (take (min (length name) 16) name)"
  have enc: "enc_name name = ?cs @ replicate (16 - length name) 0"
    by (simp add: enc_name_def min_def)
  have "overlay (?o + length ?cs) (replicate (16 - length name) 0) (overlay ?o ?cs b) =
      overlay ?o (enc_name name) b"
    unfolding enc using len by (intro overlay_append) (auto simp: min_def)
  with len show "wr_name name base (b, used) =
      Some (overlay ?o (enc_name name) b, used + of_nat (length (enc_name name)))"
    by (auto simp: wr_name_def Let_def memset_def enc min_def)
qed

lemma emits_u16 [emit_rules]: "emits base (wr_u16 v base) (be16 v)"
proof (rule emitsI)
  fix b :: buffer and used :: u16
  assume len: "base + unat used + length (be16 v) \<le> length b"
  then show "wr_u16 v base (b, used) =
      Some (overlay (base + unat used) (be16 v) b, used + of_nat (length (be16 v)))"
    using overlay_append[of "base + unat used" "[ucast (drop_bit 8 v)]" "[ucast v]" b]
    by (simp add: wr_u16_def) (simp add: be16_def)
qed

lemma emits_phasor [emit_rules]: "emits base (wr_phasor_unit u base) (enc_phasor u)"
proof (rule emitsI)
  fix b :: buffer and used :: u16
  assume len: "base + unat used + length (enc_phasor u) \<le> length b"
  obtain t c where u: "u = (t, c)" by (cases u)
  let ?o = "base + unat used" and ?b1 = "overlay (base + unat used) [phasor_type_code t] b"
  have "overlay (?o + 1) [ucast (drop_bit 16 c)] ?b1 = overlay ?o [phasor_type_code t, ucast (drop_bit 16 c)] b"
    "overlay (?o + 2) [ucast (drop_bit 8 c)] (overlay ?o [phasor_type_code t, ucast (drop_bit 16 c)] b) =
      overlay ?o [phasor_type_code t, ucast (drop_bit 16 c), ucast (drop_bit 8 c)] b"
    "overlay (?o + 3) [ucast c] (overlay ?o [phasor_type_code t, ucast (drop_bit 16 c), ucast (drop_bit 8 c)] b) =
      overlay ?o (enc_phasor u) b"
    using len overlay_append[of ?o "[phasor_type_code t]" "[ucast (drop_bit 16 c)]" b]
      overlay_append[of ?o "[phasor_type_code t, ucast (drop_bit 16 c)]" "[ucast (drop_bit 8 c)]" b]
      overlay_append[of ?o "[phasor_type_code t, ucast (drop_bit 16 c), ucast (drop_bit 8 c)]" "[ucast c]" b]
    by (simp_all add: u enc_phasor_def be24_def numeral_2_eq_2 numeral_3_eq_3)
  with len show "wr_phasor_unit u base (b, used) =
      Some (overlay ?o (enc_phasor u) b, used + of_nat (length (enc_phasor u)))"
    by (simp add: wr_phasor_unit_def u)
qed

lemma emits_analog [emit_rules]: "emits base (wr_analog_unit u base) (enc_analog u)"
proof (rule emitsI)
  fix b :: buffer and used :: u16
  assume len: "base + unat used + length (enc_analog u) \<le> length b"
  obtain t c where u: "u = (t, c)" by (cases u)
  let ?o = "base + unat used"
  have "overlay ?o [analog_type_code t] (overlay ?o (be32 c) b) = overlay ?o (enc_analog u) b"
    using len by (intro nth_equalityI)
      (auto simp: nth_overlay u enc_analog_def be24_def be32_def nth_Cons split: nat.splits)
  with len show "wr_analog_unit u base (b, used) =
      Some (overlay ?o (enc_analog u) b, used + of_nat (length (enc_analog u)))"
    by (simp add: wr_analog_unit_def u)
qed

lemma emits_digital [emit_rules]: "emits base (wr_digital_unit u base) (enc_digital u)"
proof -
  obtain m a where u: "u = (m, a)" by (cases u)
  have "wr_digital_unit u base = (\<lambda>s. do { s' \<leftarrow> wr_u16 m base s; wr_u16 a base s' })"
    by (intro ext) (simp add: wr_digital_unit_def u)
  moreover have "enc_digital u = be16 m @ be16 a" by (simp add: enc_digital_def u)
  ultimately show ?thesis
    by (simp only:) (intro emits_seq emits_u16)
qed

section \<open>The parsers read them\<close>

lemma rd_name_enc: "holds_at b off (enc_name s) \<Longrightarrow> rd_name b off = Some (canon_name s, off + 16)"
  using rd_bytes_holds[of b off "enc_name s"] by (simp add: rd_name_def chars_enc_name)

lemma rd_u16_be16 [parse_rules]: "holds_at b off (be16 v) \<Longrightarrow> rd_u16 b off = Some v"
  using rd8_holds[of b off "be16 v" 0] rd8_holds[of b off "be16 v" 1]
  by (simp add: rd_u16_def) (simp add: be16_def)

lemma rd_phasor_enc:
  "holds_at b off (enc_phasor u) \<Longrightarrow> rd_phasor_unit b off = Some (canon_phasor u, off + 4)"
  using rd8_holds[of b off "enc_phasor u" 0] rd8_holds[of b off "enc_phasor u" 1]
    rd8_holds[of b off "enc_phasor u" 2] rd8_holds[of b off "enc_phasor u" 3]
  by (simp add: rd_phasor_unit_def) (simp add: enc_phasor_def be24_def canon_phasor_def of_be24_be24)

lemma bit_signed_drop_bit_u32:
  assumes "n < 32"
  shows "bit (signed_drop_bit 8 (w :: u32)) n \<longleftrightarrow> bit w (if n < 24 then n + 8 else 31)"
proof -
  have "LENGTH(32) - 1 = 31" "LENGTH(32) - 8 = 24" "LENGTH(32) = 32" by simp_all
  then show ?thesis
    using assms by (simp only: bit_signed_drop_bit_iff) (simp add: add.commute)
qed

lemma interpret24bit_eq: "interpret24bitAsInt32 w = signed_take_bit 23 w"
proof (rule bit_word_eqI)
  fix n :: nat assume n: "n < LENGTH(32)"
  have eq: "bit (interpret24bitAsInt32 w) n = bit (push_bit 24 (ucast (ucast (drop_bit 16 w) :: u8))
      OR push_bit 16 (ucast (ucast (drop_bit 8 w) :: u8)) OR push_bit 8 (ucast (ucast w :: u8)) :: u32)
      (if n < 24 then n + 8 else 31)"
    using n by (simp add: interpret24bitAsInt32_def bit_signed_drop_bit_u32)
  consider "n < 8" | "8 \<le> n \<and> n < 16" | "16 \<le> n \<and> n < 23" | "n = 23" | "24 \<le> n \<and> n < 32"
    using n by force
  then show "bit (interpret24bitAsInt32 w) n = bit (signed_take_bit 23 w) n"
    unfolding eq by cases (auto simp: bit_simps min_def)
qed

lemma rd_analog_enc:
  assumes h: "holds_at b off (enc_analog u)"
  shows "rd_analog_unit b off = Some (canon_analog u, off + 4)"
proof -
  let ?t = "analog_type_code (fst u)" and ?c = "snd u"
  let ?w = "push_bit 24 (ucast ?t) OR take_bit 24 ?c :: u32"
  have w: "be32 ?w = enc_analog u"
    by (auto simp: be32_def enc_analog_def be24_def bit_simps intro!: bit_word_eqI)
  have "signed_take_bit 23 ?w = signed_take_bit 23 ?c"
    by (rule bit_word_eqI) (auto simp: bit_simps min_def)
  then have "rd_analog_unit b off = Some ((analog_type_of ?t, signed_take_bit 23 ?c), off + 4)"
    using load32_holds[of b off ?w] rd8_holds[OF h, of 0] h w
    by (simp add: rd_analog_unit_def interpret24bit_eq) (simp add: enc_analog_def)
  then show ?thesis by (simp add: canon_analog_def)
qed

lemma rd_digital_enc: "holds_at b off (enc_digital u) \<Longrightarrow> rd_digital_unit b off = Some (u, off + 4)"
  using rd_u16_be16[of b off "fst u"] rd_u16_be16[of b "off + 2" "snd u"]
  by (simp add: rd_digital_unit_def enc_digital_def holds_at_append)

interpretation name_field: wire_field wr_name rd_name enc_name canon_name "\<lambda>_. True"
  by unfold_locales (simp_all add: emits_name rd_name_enc)

interpretation phasor_field: wire_field wr_phasor_unit rd_phasor_unit enc_phasor canon_phasor "\<lambda>_. True"
  by unfold_locales (simp_all add: emits_phasor rd_phasor_enc)

interpretation analog_field: wire_field wr_analog_unit rd_analog_unit enc_analog canon_analog "\<lambda>_. True"
  by unfold_locales (simp_all add: emits_analog rd_analog_enc)

interpretation digital_field: wire_field wr_digital_unit rd_digital_unit enc_digital "\<lambda>u. u" "\<lambda>_. True"
  by unfold_locales (simp_all add: emits_digital rd_digital_enc)

end
