(* ===== verification/Config_Frame.thy ===== *)
theory Config_Frame
  imports Config_Fields
begin

text \<open>
  Configuration frames (\<open>src/pmu/c37118.cpp\<close>): \<open>parsePmuConfig\<close>, \<open>parseConfig1/2/3\<close>,
  \<open>getPmuConfigSize\<close>, \<open>getConfigSize\<close>, \<open>generatePMUConfig\<close>, \<open>generateConfig\<close> and
  \<open>generateConfig1/2/3\<close>.  \<open>pmu_wire\<close> is the wire format of one PMU block; the generator emits
  it, the parser reads it back as \<open>canon_pmu\<close>, the configuration as the wire can carry it.
\<close>

section \<open>Parsing\<close>

text \<open>
  The function gets \<open>data\<close> at offset \<open>base\<close> of the allocation.  \<open>off\<close> is \<open>data + bytes_used\<close>;
  the result is the configuration, updated in place by the code, and \<open>bytes_used\<close>.
\<close>

definition parsePmuConfig :: "buffer \<Rightarrow> nat \<Rightarrow> PmuConfig \<Rightarrow> (PmuConfig \<times> nat) option" where
  "parsePmuConfig b base config = do {
     (stationName, off) \<leftarrow> rd_name b base;
     let config = config\<lparr>pc_stationName := stationName\<rparr>;
     sourceID \<leftarrow> load16 b off;
     let config = config\<lparr>pc_sourceID := ntohs sourceID\<rparr>;
     let off = off + 2;
     format \<leftarrow> load16 b off;
     let format = ntohs format;
     let config = config\<lparr>
       pc_freqFormat := (if format AND 8 = 0 then integer_format else floating_point_format),
       pc_analogFormat := (if format AND 4 = 0 then integer_format else floating_point_format),
       pc_phasorFormat := (if format AND 2 = 0 then integer_format else floating_point_format),
       pc_phasorCoordinates := (if format AND 1 = 0 then rectangular_phasor else polar_phasor)\<rparr>;
     let off = off + 2;
     phasorCount \<leftarrow> rd_u16 b off;
     let off = off + 2;
     analogCount \<leftarrow> rd_u16 b off;
     let off = off + 2;
     digitalWordCount \<leftarrow> rd_u16 b off;
     let off = off + 2;
     let config = config\<lparr>pc_phasorCount := phasorCount, pc_analogCount := analogCount,
       pc_digitalWordCount := digitalWordCount\<rparr>;
     (phasorNames, off) \<leftarrow> rd_each rd_name (unat phasorCount) b off;
     (analogNames, off) \<leftarrow> rd_each rd_name (unat analogCount) b off;
     (digitChannelNames, off) \<leftarrow> rd_each rd_name (unat digitalWordCount * 16) b off;
     let config = config\<lparr>pc_phasorNames := phasorNames, pc_analogNames := analogNames,
       pc_digitChannelNames := digitChannelNames\<rparr>;
     (phasorUnits, off) \<leftarrow> rd_each rd_phasor_unit (unat phasorCount) b off;
     let config = config\<lparr>pc_phasorType := map fst phasorUnits, pc_phasorConversion := map snd phasorUnits\<rparr>;
     (analogUnits, off) \<leftarrow> rd_each rd_analog_unit (unat analogCount) b off;
     let config = config\<lparr>pc_analogType := map fst analogUnits, pc_analogConversion := map snd analogUnits\<rparr>;
     (digitalUnits, off) \<leftarrow> rd_each rd_digital_unit (unat digitalWordCount) b off;
     let config = config\<lparr>pc_digitalNominal := map fst digitalUnits, pc_digitalActive := map snd digitalUnits\<rparr>;
     nominal \<leftarrow> rd8 b (off + 1);
     let config = (if nominal = 1 then config\<lparr>pc_nominalFrequency := f32_50\<rparr> else config);
     let off = off + 2;
     changeCount \<leftarrow> rd_u16 b off;
     let config = config\<lparr>pc_changeCount := changeCount\<rparr>;
     let off = off + 2;
     Some (config, off - base)
   }"

fun parse_pmus :: "buffer \<Rightarrow> nat \<Rightarrow> PmuConfig list \<Rightarrow> (PmuConfig list \<times> nat) option" where
  "parse_pmus b bytes_used [] = Some ([], bytes_used)"
| "parse_pmus b bytes_used (pmu # pmus) = do {
     (pmu, n) \<leftarrow> parsePmuConfig b bytes_used pmu;
     (pmus, bytes_used) \<leftarrow> parse_pmus b (bytes_used + n) pmus;
     Some (pmu # pmus, bytes_used)
   }"

definition parseConfig1 :: "buffer \<Rightarrow> nat \<Rightarrow> Config \<Rightarrow> (ParseResult \<times> Config) option" where
  "parseConfig1 b dataSize config = do {
     (pResult, frame) \<leftarrow> parseCommon b dataSize fresh_frame;
     if pResult \<noteq> parse_complete then Some (pResult, config)
     else if cf_type frame \<noteq> Pkt_config1 \<and> cf_type frame \<noteq> Pkt_config2
     then Some (incorrect_type, config)
     else do {
       let config = config\<lparr>cfg_idcode := cf_sourceID frame, cfg_fracsec := cf_fracSec frame,
         cfg_soc := cf_soc frame\<rparr>;
       d15 \<leftarrow> rd8 b 15;
       d16 \<leftarrow> rd8 b 16;
       d17 \<leftarrow> rd8 b 17;
       let config = config\<lparr>cfg_timeBase := of_be24 d15 d16 d17\<rparr>;
       numPmu \<leftarrow> rd_u16 b 18;
       (pmus, bytes_used) \<leftarrow> parse_pmus b 20 (resize (unat numPmu) default_PmuConfig (cfg_pmus config));
       dataRate \<leftarrow> rd_u16 b bytes_used;
       Some (parse_complete, config\<lparr>cfg_pmus := pmus, cfg_dataRate := dataRate\<rparr>)
     }
   }"

definition parseConfig2 :: "buffer \<Rightarrow> nat \<Rightarrow> Config \<Rightarrow> (ParseResult \<times> Config) option" where
  "parseConfig2 b dataSize config = parseConfig1 b dataSize config"

definition parseConfig3 :: "buffer \<Rightarrow> nat \<Rightarrow> Config \<Rightarrow> (ParseResult \<times> Config) option" where
  "parseConfig3 b dataSize config = Some (not_implemented, config)"

section \<open>Generation\<close>

definition getPmuConfigSize :: "PmuConfig \<Rightarrow> bool \<Rightarrow> u16" where
  "getPmuConfigSize config activeOnly =
     (let byte_count = 30;
          byte_count = byte_count + of_nat ((channel_name_size + 4) * unat (pc_phasorCount config));
          byte_count = byte_count + of_nat ((channel_name_size + 4) * unat (pc_analogCount config));
          byte_count = byte_count + of_nat ((16 * channel_name_size + 2 * 2) * unat (pc_digitalWordCount config))
      in byte_count)"

definition getConfigSize :: "Config \<Rightarrow> bool \<Rightarrow> u16" where
  "getConfigSize config activeOnly =
     foldl (\<lambda>byte_count pmu. byte_count + getPmuConfigSize pmu activeOnly) 24 (cfg_pmus config)"

text \<open>\<open>memcpy\<close> of a halfword converted with \<open>htons\<close>.\<close>

definition wr_htons :: "u16 \<Rightarrow> nat \<Rightarrow> cursor \<Rightarrow> cursor option" where
  "wr_htons v base = (\<lambda>(b, bytes_used). do {
     b \<leftarrow> store16 b (base + unat bytes_used) (htons v);
     Some (b, bytes_used + 2)
   })"

definition format_word :: "PmuConfig \<Rightarrow> u16" where
  "format_word config =
     (if pc_freqFormat config = floating_point_format then 8 else 0) +
     (if pc_analogFormat config = floating_point_format then 4 else 0) +
     (if pc_phasorFormat config = floating_point_format then 2 else 0) +
     (if pc_phasorCoordinates config = polar_phasor then 1 else 0)"

definition nominal_code :: "PmuConfig \<Rightarrow> u8" where
  "nominal_code config = (if f32_eq (pc_nominalFrequency config) f32_50 then 1 else 0)"

definition wr_nominal :: "u8 \<Rightarrow> nat \<Rightarrow> cursor \<Rightarrow> cursor option" where
  "wr_nominal code base = (\<lambda>(b, bytes_used). do {
     b \<leftarrow> wr8 b (base + unat bytes_used) 0;
     b \<leftarrow> wr8 b (base + unat bytes_used + 1) code;
     Some (b, bytes_used + 2)
   })"

text \<open>The code after the size test.  The loops over units index the vectors with the counts.\<close>

definition pmu_config_body :: "PmuConfig \<Rightarrow> nat \<Rightarrow> cursor \<Rightarrow> cursor option" where
  "pmu_config_body config base s = do {
     s \<leftarrow> wr_name (pc_stationName config) base s;
     s \<leftarrow> wr_htons (pc_sourceID config) base s;
     s \<leftarrow> wr_htons (format_word config) base s;
     s \<leftarrow> wr_u16 (pc_phasorCount config) base s;
     s \<leftarrow> wr_u16 (pc_analogCount config) base s;
     s \<leftarrow> wr_u16 (pc_digitalWordCount config) base s;
     s \<leftarrow> mfold (\<lambda>pn. wr_name pn base) (pc_phasorNames config) s;
     s \<leftarrow> mfold (\<lambda>an. wr_name an base) (pc_analogNames config) s;
     s \<leftarrow> mfold (\<lambda>an. wr_name an base) (pc_digitChannelNames config) s;
     s \<leftarrow> mfold (\<lambda>ii s. do {
            t \<leftarrow> idx (pc_phasorType config) ii;
            c \<leftarrow> idx (pc_phasorConversion config) ii;
            wr_phasor_unit (t, c) base s }) [0..<unat (pc_phasorCount config)] s;
     s \<leftarrow> mfold (\<lambda>ii s. do {
            t \<leftarrow> idx (pc_analogType config) ii;
            c \<leftarrow> idx (pc_analogConversion config) ii;
            wr_analog_unit (t, c) base s }) [0..<unat (pc_analogCount config)] s;
     s \<leftarrow> mfold (\<lambda>ii s. do {
            m \<leftarrow> idx (pc_digitalNominal config) ii;
            a \<leftarrow> idx (pc_digitalActive config) ii;
            wr_digital_unit (m, a) base s }) [0..<unat (pc_digitalWordCount config)] s;
     s \<leftarrow> wr_nominal (nominal_code config) base s;
     wr_u16 (pc_changeCount config) base s
   }"

definition generatePMUConfig :: "buffer \<Rightarrow> nat \<Rightarrow> nat \<Rightarrow> PmuConfig \<Rightarrow> bool \<Rightarrow> cursor option" where
  "generatePMUConfig b base dataSize config activeOnly =
     (if dataSize < unat (getPmuConfigSize config activeOnly) then Some (b, 0)
      else pmu_config_body config base (b, 0))"

definition pmu_step :: "nat \<Rightarrow> bool \<Rightarrow> PmuConfig \<Rightarrow> cursor \<Rightarrow> cursor option" where
  "pmu_step dataSize activeOnly pmu = (\<lambda>(b, bytes_used).
     if pc_active pmu \<or> \<not> activeOnly
     then do {
       (b, n) \<leftarrow> generatePMUConfig b (unat bytes_used) (size_sub dataSize (unat bytes_used)) pmu activeOnly;
       Some (b, bytes_used + n)
     }
     else Some (b, bytes_used))"

definition generateConfig :: "buffer \<Rightarrow> nat \<Rightarrow> Config \<Rightarrow> bool \<Rightarrow> (buffer \<times> u16) option" where
  "generateConfig b dataSize config activeOnly =
     (if dataSize < unat (getConfigSize config activeOnly) then Some (b, 0)
      else do {
        b \<leftarrow> addTime b (cfg_soc config) (cfg_fracsec config);
        b \<leftarrow> wr8 b 15 (ucast (drop_bit 16 (cfg_timeBase config) AND 0xFF));
        b \<leftarrow> wr8 b 16 (ucast (drop_bit 8 (cfg_timeBase config) AND 0xFF));
        b \<leftarrow> wr8 b 17 (ucast (cfg_timeBase config AND 0xFF));
        let pmuCnt = length (cfg_pmus config);
        b \<leftarrow> wr8 b 18 (of_nat (pmuCnt div 256 mod 256));
        b \<leftarrow> wr8 b 19 (of_nat (pmuCnt mod 256));
        (b, bytes_used) \<leftarrow> mfold (pmu_step dataSize activeOnly) (cfg_pmus config) (b, 20);
        (b, bytes_used) \<leftarrow> wr_u16 (cfg_dataRate config) 0 (b, bytes_used);
        let bytes_used = bytes_used + 2;
        b \<leftarrow> addSize b bytes_used;
        b \<leftarrow> addCRC b 0 bytes_used;
        Some (b, bytes_used)
      })"

definition generateConfig1 :: "buffer \<Rightarrow> nat \<Rightarrow> Config \<Rightarrow> (buffer \<times> u16) option" where
  "generateConfig1 b dataSize config = do {
     b \<leftarrow> generateCommonFrame_cfg b (of_nat dataSize) config Pkt_config1;
     generateConfig b dataSize config False
   }"

definition generateConfig2 :: "buffer \<Rightarrow> nat \<Rightarrow> Config \<Rightarrow> (buffer \<times> u16) option" where
  "generateConfig2 b dataSize config = do {
     b \<leftarrow> generateCommonFrame_cfg b (of_nat dataSize) config Pkt_config2;
     generateConfig b dataSize config True
   }"

definition generateConfig3 :: "buffer \<Rightarrow> nat \<Rightarrow> Config \<Rightarrow> (buffer \<times> u16) option" where
  "generateConfig3 b dataSize config = Some (b, 0)"

section \<open>The wire format of a PMU block\<close>

text \<open>A configuration whose vectors have the lengths its counts announce.\<close>

definition wf_pmu :: "PmuConfig \<Rightarrow> bool" where
  "wf_pmu c \<longleftrightarrow>
     length (pc_phasorNames c) = unat (pc_phasorCount c) \<and>
     length (pc_analogNames c) = unat (pc_analogCount c) \<and>
     length (pc_digitChannelNames c) = unat (pc_digitalWordCount c) * 16 \<and>
     length (pc_phasorType c) = unat (pc_phasorCount c) \<and>
     length (pc_phasorConversion c) = unat (pc_phasorCount c) \<and>
     length (pc_analogType c) = unat (pc_analogCount c) \<and>
     length (pc_analogConversion c) = unat (pc_analogCount c) \<and>
     length (pc_digitalNominal c) = unat (pc_digitalWordCount c) \<and>
     length (pc_digitalActive c) = unat (pc_digitalWordCount c)"

abbreviation phasor_units :: "PmuConfig \<Rightarrow> (PhasorType \<times> u32) list" where
  "phasor_units c \<equiv> zip (pc_phasorType c) (pc_phasorConversion c)"

abbreviation analog_units :: "PmuConfig \<Rightarrow> (AnalogType \<times> u32) list" where
  "analog_units c \<equiv> zip (pc_analogType c) (pc_analogConversion c)"

abbreviation digital_units :: "PmuConfig \<Rightarrow> (u16 \<times> u16) list" where
  "digital_units c \<equiv> zip (pc_digitalNominal c) (pc_digitalActive c)"

definition nominal_bytes :: "PmuConfig \<Rightarrow> u8 list" where
  "nominal_bytes c = [0, nominal_code c]"

lemma length_nominal_bytes [simp]: "length (nominal_bytes c) = 2"
  by (simp add: nominal_bytes_def)

definition pmu_wire :: "PmuConfig \<Rightarrow> u8 list" where
  "pmu_wire c = enc_name (pc_stationName c) @ be16 (pc_sourceID c) @ be16 (format_word c) @
     be16 (pc_phasorCount c) @ be16 (pc_analogCount c) @ be16 (pc_digitalWordCount c) @
     concat (map enc_name (pc_phasorNames c)) @ concat (map enc_name (pc_analogNames c)) @
     concat (map enc_name (pc_digitChannelNames c)) @ concat (map enc_phasor (phasor_units c)) @
     concat (map enc_analog (analog_units c)) @ concat (map enc_digital (digital_units c)) @
     nominal_bytes c @ be16 (pc_changeCount c)"

definition pmu_size :: "PmuConfig \<Rightarrow> nat" where
  "pmu_size c = 30 + 20 * unat (pc_phasorCount c) + 20 * unat (pc_analogCount c) +
     260 * unat (pc_digitalWordCount c)"

lemma length_concat_const:
  "(\<And>x. length (enc x) = k) \<Longrightarrow> length (concat (map enc xs)) = k * length xs"
  by (induction xs) simp_all

lemma length_runs [simp]:
  "length (concat (map enc_name ns)) = 16 * length ns"
  "length (concat (map enc_phasor ps)) = 4 * length ps"
  "length (concat (map enc_analog as)) = 4 * length as"
  "length (concat (map enc_digital ds)) = 4 * length ds"
  by (simp_all add: length_concat_const[where k = 16] length_concat_const[where k = 4])

lemma length_pmu_wire: "wf_pmu c \<Longrightarrow> length (pmu_wire c) = pmu_size c"
  by (simp add: pmu_wire_def pmu_size_def wf_pmu_def)

lemma getPmuConfigSize_eq: "getPmuConfigSize c a = of_nat (pmu_size c)"
  by (simp add: getPmuConfigSize_def pmu_size_def Let_def algebra_simps)

lemma emits_htons [emit_rules]: "emits base (wr_htons v base) (be16 v)"
  by (rule emitsI) (simp add: wr_htons_def)

lemma emits_nominal [emit_rules]: "emits base (wr_nominal v base) [0, v]"
proof (rule emitsI)
  fix b :: buffer and used :: u16
  assume "base + unat used + length [0, v] \<le> length b"
  then show "wr_nominal v base (b, used) = Some (overlay (base + unat used) [0, v] b, used + of_nat (length [0, v]))"
    using overlay_append[of "base + unat used" "[0]" "[v]" b] by (simp add: wr_nominal_def)
qed

lemma emits_zip_loop:
  assumes "length ts = n" "length vs = n" and g: "\<And>u. emits base (g u) (enc u)"
  shows "emits base (mfold (\<lambda>ii s. do { t \<leftarrow> idx ts ii; v \<leftarrow> idx vs ii; g (t, v) s }) [0..<n])
    (concat (map enc (zip ts vs)))"
proof -
  have zip: "zip ts vs = map (\<lambda>i. (ts ! i, vs ! i)) [0..<n]"
    using assms by (intro nth_equalityI) simp_all
  have "mfold (\<lambda>ii s. do { t \<leftarrow> idx ts ii; v \<leftarrow> idx vs ii; g (t, v) s }) [0..<n] = mfold g (zip ts vs)"
    unfolding zip mfold_map using assms(1,2) by (intro ext mfold_cong_set) simp
  then show ?thesis using g by (simp add: emits_mfold)
qed

lemma emits_pmu_body:
  assumes "wf_pmu c"
  shows "emits base (pmu_config_body c base) (pmu_wire c)"
  unfolding pmu_config_body_def[abs_def] pmu_wire_def nominal_bytes_def
  by (intro emits_seq emits_name emits_htons emits_u16 emits_nominal emits_mfold emits_zip_loop
      emits_phasor emits_analog emits_digital)
    (use assms in \<open>simp_all add: wf_pmu_def\<close>)

section \<open>Reading a PMU block back\<close>

definition canon_pmu :: "PmuConfig \<Rightarrow> PmuConfig \<Rightarrow> PmuConfig" where
  "canon_pmu old c = old\<lparr>
     pc_sourceID := pc_sourceID c,
     pc_phasorFormat := pc_phasorFormat c, pc_analogFormat := pc_analogFormat c,
     pc_freqFormat := pc_freqFormat c, pc_phasorCoordinates := pc_phasorCoordinates c,
     pc_phasorCount := pc_phasorCount c, pc_analogCount := pc_analogCount c,
     pc_digitalWordCount := pc_digitalWordCount c,
     pc_phasorNames := map canon_name (pc_phasorNames c),
     pc_analogNames := map canon_name (pc_analogNames c),
     pc_digitChannelNames := map canon_name (pc_digitChannelNames c),
     pc_phasorType := map (\<lambda>t. phasor_type_of (phasor_type_code t)) (pc_phasorType c),
     pc_phasorConversion := map (take_bit 24) (pc_phasorConversion c),
     pc_analogType := map (\<lambda>t. analog_type_of (analog_type_code t)) (pc_analogType c),
     pc_analogConversion := map (signed_take_bit 23) (pc_analogConversion c),
     pc_digitalNominal := pc_digitalNominal c, pc_digitalActive := pc_digitalActive c,
     pc_nominalFrequency :=
       (if f32_eq (pc_nominalFrequency c) f32_50 then f32_50 else pc_nominalFrequency old),
     pc_changeCount := pc_changeCount c,
     pc_stationName := canon_name (pc_stationName c)\<rparr>"

lemma canon_pmu_simps [simp]:
  "pc_sourceID (canon_pmu old c) = pc_sourceID c"
  "pc_phasorCount (canon_pmu old c) = pc_phasorCount c"
  "pc_analogCount (canon_pmu old c) = pc_analogCount c"
  "pc_digitalWordCount (canon_pmu old c) = pc_digitalWordCount c"
  "pc_phasorNames (canon_pmu old c) = map canon_name (pc_phasorNames c)"
  "pc_analogNames (canon_pmu old c) = map canon_name (pc_analogNames c)"
  "pc_digitChannelNames (canon_pmu old c) = map canon_name (pc_digitChannelNames c)"
  "pc_phasorType (canon_pmu old c) = map (\<lambda>t. phasor_type_of (phasor_type_code t)) (pc_phasorType c)"
  "pc_phasorConversion (canon_pmu old c) = map (take_bit 24) (pc_phasorConversion c)"
  "pc_analogType (canon_pmu old c) = map (\<lambda>t. analog_type_of (analog_type_code t)) (pc_analogType c)"
  "pc_analogConversion (canon_pmu old c) = map (signed_take_bit 23) (pc_analogConversion c)"
  "pc_digitalNominal (canon_pmu old c) = pc_digitalNominal c"
  "pc_digitalActive (canon_pmu old c) = pc_digitalActive c"
  "pc_changeCount (canon_pmu old c) = pc_changeCount c"
  "pc_stationName (canon_pmu old c) = canon_name (pc_stationName c)"
  "pc_nominalFrequency (canon_pmu old c) =
     (if f32_eq (pc_nominalFrequency c) f32_50 then f32_50 else pc_nominalFrequency old)"
  by (simp_all add: canon_pmu_def)

lemma format_bits:
  "(if format_word c AND 8 = 0 then 0 else 1) = pc_freqFormat c"
  "(if format_word c AND 4 = 0 then 0 else 1) = pc_analogFormat c"
  "(if format_word c AND 2 = 0 then 0 else 1) = pc_phasorFormat c"
  "(if format_word c AND 1 = 0 then 0 else 1) = pc_phasorCoordinates c"
  using bit1_cases[of "pc_freqFormat c"] bit1_cases[of "pc_analogFormat c"]
    bit1_cases[of "pc_phasorFormat c"] bit1_cases[of "pc_phasorCoordinates c"]
  by (elim disjE; simp add: format_word_def)+

lemma all_true: "list_all (\<lambda>_. True) xs"
  by (simp add: list_all_iff)

lemma map_phasor_units:
  assumes "length ts = length vs"
  shows "map (fst \<circ> canon_phasor) (zip ts vs) = map (\<lambda>t. phasor_type_of (phasor_type_code t)) ts"
    "map (snd \<circ> canon_phasor) (zip ts vs) = map (take_bit 24) vs"
  using assms by (auto simp: canon_phasor_def intro!: nth_equalityI)

lemma map_analog_units:
  assumes "length ts = length vs"
  shows "map (fst \<circ> canon_analog) (zip ts vs) = map (\<lambda>t. analog_type_of (analog_type_code t)) ts"
    "map (snd \<circ> canon_analog) (zip ts vs) = map (signed_take_bit 23) vs"
  using assms by (auto simp: canon_analog_def intro!: nth_equalityI)

lemma parsePmuConfig_wire:
  assumes wf: "wf_pmu c" and h: "holds_at b base (pmu_wire c)"
  shows "parsePmuConfig b base old = Some (canon_pmu old c, pmu_size c)"
proof -
  note wf' = wf[unfolded wf_pmu_def, THEN conjunct1] wf[unfolded wf_pmu_def, THEN conjunct2, THEN conjunct1]
    wf[unfolded wf_pmu_def, THEN conjunct2, THEN conjunct2, THEN conjunct1]
    wf[unfolded wf_pmu_def, THEN conjunct2, THEN conjunct2, THEN conjunct2]
  have units: "unat (pc_phasorCount c) = length (phasor_units c)"
    "unat (pc_analogCount c) = length (analog_units c)"
    "unat (pc_digitalWordCount c) = length (digital_units c)"
    using wf'(4) by simp_all
  let ?o = "base + 26"
  let ?o1 = "?o + 16 * unat (pc_phasorCount c)"
  let ?o2 = "?o1 + 16 * unat (pc_analogCount c)"
  let ?o3 = "?o2 + 256 * unat (pc_digitalWordCount c)"
  let ?o4 = "?o3 + 4 * unat (pc_phasorCount c)"
  let ?o5 = "?o4 + 4 * unat (pc_analogCount c)"
  let ?o6 = "?o5 + 4 * unat (pc_digitalWordCount c)"
  have parts: "holds_at b base (enc_name (pc_stationName c))" "holds_at b (base + 16) (be16 (pc_sourceID c))"
    "holds_at b (base + 18) (be16 (format_word c))" "holds_at b (base + 20) (be16 (pc_phasorCount c))"
    "holds_at b (base + 22) (be16 (pc_analogCount c))" "holds_at b (base + 24) (be16 (pc_digitalWordCount c))"
    "holds_at b ?o (concat (map enc_name (pc_phasorNames c)))"
    "holds_at b ?o1 (concat (map enc_name (pc_analogNames c)))"
    "holds_at b ?o2 (concat (map enc_name (pc_digitChannelNames c)))"
    "holds_at b ?o3 (concat (map enc_phasor (phasor_units c)))"
    "holds_at b ?o4 (concat (map enc_analog (analog_units c)))"
    "holds_at b ?o5 (concat (map enc_digital (digital_units c)))"
    "holds_at b ?o6 (nominal_bytes c)" "holds_at b (?o6 + 2) (be16 (pc_changeCount c))"
    using h wf' by (simp_all add: pmu_wire_def holds_at_append ac_simps)
  have nom: "rd8 b (?o6 + 1) = Some (nominal_code c)"
    using rd8_holds[OF parts(13), of 1] by (simp add: nominal_bytes_def)
  note reads = rd_name_enc[OF parts(1)] load16_holds[OF parts(2)] load16_holds[OF parts(3)]
    rd_u16_be16[OF parts(4)] rd_u16_be16[OF parts(5)] rd_u16_be16[OF parts(6)]
    name_field.get_run[OF all_true parts(7) wf'(1)[symmetric]]
    name_field.get_run[OF all_true parts(8) wf'(2)[symmetric]]
    name_field.get_run[OF all_true parts(9) wf'(3)[symmetric]]
    phasor_field.get_run[OF all_true parts(10) units(1)]
    analog_field.get_run[OF all_true parts(11) units(2)]
    digital_field.get_run[OF all_true parts(12) units(3)] nom rd_u16_be16[OF parts(14)]
  show ?thesis
    using reads wf'
    by (simp add: parsePmuConfig_def Let_def format_bits format_bits(4)[unfolded and.commute[of _ 1]]
        map_phasor_units map_analog_units canon_pmu_def nominal_code_def
        pmu_size_def ac_simps)
qed

section \<open>Configuration frames\<close>

definition pmus_size :: "PmuConfig list \<Rightarrow> nat" where
  "pmus_size ps = sum_list (map pmu_size ps)"

text \<open>The PMUs a frame contains.\<close>

definition sent :: "bool \<Rightarrow> PmuConfig list \<Rightarrow> PmuConfig list" where
  "sent activeOnly ps = filter (\<lambda>p. pc_active p \<or> \<not> activeOnly) ps"

lemma pmus_size_simps [simp]:
  "pmus_size [] = 0" "pmus_size (p # ps) = pmu_size p + pmus_size ps"
  by (simp_all add: pmus_size_def)

lemma sent_simps [simp]:
  "sent a [] = []" "sent a (p # ps) = (if pc_active p \<or> \<not> a then p # sent a ps else sent a ps)"
  "sent False ps = ps"
  by (simp_all add: sent_def)

lemma pmus_size_sent: "pmus_size (sent a ps) \<le> pmus_size ps"
  by (induction ps) auto

lemma pmus_size_ge: "30 * length ps \<le> pmus_size ps"
  by (induction ps) (auto simp: pmu_size_def)

lemma length_pmu_wires: "list_all wf_pmu ps \<Longrightarrow> length (concat (map pmu_wire ps)) = pmus_size ps"
  by (induction ps) (simp_all add: length_pmu_wire)

lemma list_all_sent: "list_all P ps \<Longrightarrow> list_all P (sent a ps)"
  by (auto simp: list_all_iff sent_def)

lemma getConfigSize_eq: "getConfigSize config a = of_nat (24 + pmus_size (cfg_pmus config))"
proof -
  have "foldl (\<lambda>byte_count pmu. byte_count + getPmuConfigSize pmu a) n ps = n + of_nat (pmus_size ps)" for n ps
    by (induction ps arbitrary: n) (simp_all add: getPmuConfigSize_eq add.assoc)
  then show ?thesis by (simp add: getConfigSize_def)
qed

lemma generatePMUConfig_ok:
  assumes "wf_pmu c" "base + pmu_size c \<le> length b" "pmu_size c < 65536" "pmu_size c \<le> dataSize"
  shows "generatePMUConfig b base dataSize c a = Some (overlay base (pmu_wire c) b, of_nat (pmu_size c))"
  using emitsD[OF emits_pmu_body[OF assms(1)], of base 0 b] assms
  by (simp add: generatePMUConfig_def getPmuConfigSize_eq unat16 length_pmu_wire)

lemma pmu_step_run:
  assumes "list_all wf_pmu ps" "unat used + pmus_size ps \<le> length b"
    "unat used + pmus_size ps < 65536" "unat used + pmus_size ps \<le> dataSize"
  shows "mfold (pmu_step dataSize a) ps (b, used) =
    Some (overlay (unat used) (concat (map pmu_wire (sent a ps))) b, used + of_nat (pmus_size (sent a ps)))"
  using assms
proof (induction ps arbitrary: b used)
  case (Cons p ps)
  then have wf: "wf_pmu p" "list_all wf_pmu ps" by simp_all
  show ?case
  proof (cases "pc_active p \<or> \<not> a")
    case True
    have u: "unat (used + of_nat (pmu_size p)) = unat used + pmu_size p"
      using Cons.prems(3) by (intro unat_add_small) simp
    have "pmu_step dataSize a p (b, used) =
        Some (overlay (unat used) (pmu_wire p) b, used + of_nat (pmu_size p))"
      using True Cons.prems wf
      by (simp add: pmu_step_def size_sub_def generatePMUConfig_ok)
    moreover have "mfold (pmu_step dataSize a) ps (overlay (unat used) (pmu_wire p) b, used + of_nat (pmu_size p)) =
        Some (overlay (unat used + pmu_size p) (concat (map pmu_wire (sent a ps))) (overlay (unat used) (pmu_wire p) b),
          used + of_nat (pmu_size p) + of_nat (pmus_size (sent a ps)))"
      using Cons.IH[of "used + of_nat (pmu_size p)" "overlay (unat used) (pmu_wire p) b"]
        Cons.prems wf by (simp add: u length_pmu_wire)
    moreover have "overlay (unat used + pmu_size p) (concat (map pmu_wire (sent a ps))) (overlay (unat used) (pmu_wire p) b) =
        overlay (unat used) (pmu_wire p @ concat (map pmu_wire (sent a ps))) b"
      using overlay_append[of "unat used" "pmu_wire p" "concat (map pmu_wire (sent a ps))" b]
        Cons.prems wf pmus_size_sent[of a ps]
      by (simp add: length_pmu_wire length_pmu_wires list_all_sent)
    ultimately show ?thesis using True by (simp add: add.assoc)
  next
    case False
    then show ?thesis using Cons.IH[of used b] Cons.prems by (simp add: pmu_step_def)
  qed
qed simp

definition config_wire :: "bool \<Rightarrow> Config \<Rightarrow> u8 list" where
  "config_wire a config = be24 (cfg_timeBase config) @ be16 (of_nat (length (cfg_pmus config))) @
     concat (map pmu_wire (sent a (cfg_pmus config))) @ be16 (cfg_dataRate config)"

definition config_framed :: "buffer \<Rightarrow> PmuPacketType \<Rightarrow> bool \<Rightarrow> Config \<Rightarrow> bool" where
  "config_framed b t a config \<longleftrightarrow>
     holds_at b 15 (config_wire a config) \<and>
     (\<forall>ds f. 24 + pmus_size (sent a (cfg_pmus config)) \<le> ds \<longrightarrow> ds \<le> length b \<longrightarrow> parseCommon b ds f =
        Some (parse_complete, common_result t (of_nat (24 + pmus_size (sent a (cfg_pmus config))))
          (cfg_idcode config) (cfg_soc config) (cfg_fracsec config) f))"

lemma count_bytes:
  assumes "n < 65536"
  shows "[of_nat (n div 256 mod 256), of_nat (n mod 256)] = be16 (of_nat n)"
proof -
  have "drop_bit 8 (of_nat n :: u16) = of_nat (n div 256)"
    using assms by (intro unsigned_word_eqI[where 'a = nat])
      (simp add: unsigned_drop_bit_eq unsigned_of_nat take_bit_eq_mod drop_bit_eq_div unat_div)
  then show ?thesis
    by (simp add: be16_def unsigned_of_nat take_bit_eq_mod word_of_nat_eq_iff mod_mod_cancel)
qed

text \<open>The conditions under which the generators work: consistent vectors, a frame that can be
  announced in sixteen bits, and a buffer that holds it and is not larger than the
  sixteen-bit parameter of \<open>generateCommonFrame\<close> can express.\<close>

definition config_fits :: "Config \<Rightarrow> nat \<Rightarrow> buffer \<Rightarrow> bool" where
  "config_fits config dataSize b \<longleftrightarrow> list_all wf_pmu (cfg_pmus config) \<and>
     24 + pmus_size (cfg_pmus config) < 65536 \<and> 24 + pmus_size (cfg_pmus config) \<le> dataSize \<and>
     dataSize \<le> length b \<and> 18 \<le> unat (of_nat dataSize :: u16)"

lemma overlay5:
  assumes "off + 5 \<le> length b"
  shows "overlay (off + 4) [e] (overlay (off + 3) [d] (overlay (off + 2) [c] (overlay (off + 1) [a'] (overlay off [a] b)))) =
    overlay off [a, a', c, d, e] b"
  using assms overlay_append[of off "[a]" "[a']" b] overlay_append[of off "[a, a']" "[c]" b]
    overlay_append[of off "[a, a', c]" "[d]" b] overlay_append[of off "[a, a', c, d]" "[e]" b]
  by (simp add: numeral_2_eq_2 numeral_3_eq_3 eval_nat_numeral)

text \<open>The frame before its checksum, as a function of what is sent.\<close>

definition config_content :: "buffer \<Rightarrow> PmuPacketType \<Rightarrow> bool \<Rightarrow> Config \<Rightarrow> buffer" where
  "config_content b t a config =
     (let wires = concat (map pmu_wire (sent a (cfg_pmus config))); s = length wires
      in overlay 2 (be16 (24 + of_nat s)) (overlay (20 + s) (be16 (cfg_dataRate config)) (overlay 20 wires
        (overlay 15 (be24 (cfg_timeBase config) @ be16 (of_nat (length (cfg_pmus config))))
          (overlay 6 (be32 (cfg_soc config) @ be32 (cfg_fracsec config))
            (overlay 4 (be16 (cfg_idcode config)) (overlay 0 (frame_bytes t) b)))))))"

lemma generateConfig_content:
  assumes fits: "config_fits config dataSize b"
    and pre: "pre = overlay 4 (be16 (cfg_idcode config)) (overlay 0 (frame_bytes t) b)"
    and s: "s = pmus_size (sent a (cfg_pmus config))"
  shows "generateConfig pre dataSize config a =
    do { b \<leftarrow> addCRC (config_content b t a config) 0 (24 + of_nat s); Some (b, 24 + of_nat s) }"
proof -
  let ?ps = "cfg_pmus config" and ?n = "24 + of_nat s :: u16"
  let ?wires = "concat (map pmu_wire (sent a ?ps))"
  note f = fits[unfolded config_fits_def]
  have len_wires: "length ?wires = s"
    using f by (simp add: length_pmu_wires list_all_sent s)
  have len: "length pre = length b" "24 + s \<le> length b" "24 + s < 65536" "24 \<le> length b"
    using f pmus_size_sent[of a ?ps] by (auto simp: pre s)
  let ?c1 = "overlay 6 (be32 (cfg_soc config) @ be32 (cfg_fracsec config)) pre"
  let ?tb = "cfg_timeBase config" and ?cnt = "be16 (of_nat (length ?ps))"
  let ?c2 = "overlay 15 (be24 ?tb @ ?cnt) ?c1"
  let ?c3 = "overlay 20 ?wires ?c2"
  let ?c4 = "overlay (20 + s) (be16 (cfg_dataRate config)) ?c3"
  let ?c = "overlay 2 (be16 ?n) ?c4"
  have cnt: "length ?ps < 65536" using pmus_size_ge[of ?ps] f by linarith
  have five: "be24 ?tb @ ?cnt = [ucast (drop_bit 16 ?tb), ucast (drop_bit 8 ?tb), ucast ?tb,
      of_nat (length ?ps div 256 mod 256), of_nat (length ?ps mod 256)]"
    using count_bytes[OF cnt] by (simp add: be24_def)
  have c2: "overlay 19 [of_nat (length ?ps mod 256)] (overlay 18 [of_nat (length ?ps div 256 mod 256)]
      (overlay 17 [ucast ?tb] (overlay 16 [ucast (drop_bit 8 ?tb)] (overlay 15 [ucast (drop_bit 16 ?tb)] ?c1)))) = ?c2"
    unfolding five using overlay5[of 15 ?c1] len by simp
  have run: "mfold (pmu_step dataSize a) ?ps (?c2, 20) = Some (?c3, 20 + of_nat s)"
    using pmu_step_run[of ?ps 20 ?c2 dataSize a] f len by (simp add: s)
  have u: "unat (20 + of_nat s :: u16) = 20 + s" "unat ?n = 24 + s"
    using len unat16[of "20 + s"] unat16[of "24 + s"] by simp_all
  have rate: "wr_u16 (cfg_dataRate config) 0 (?c3, 20 + of_nat s) = Some (?c4, 20 + of_nat s + 2)"
    using emitsD[OF emits_u16, of 0 "20 + of_nat s" "cfg_dataRate config" ?c3] len len_wires by (simp add: u)
  have gsize: "unat (getConfigSize config a) = 24 + pmus_size ?ps"
    using f unat16[of "24 + pmus_size ?ps"] by (simp add: getConfigSize_eq)
  have gen: "generateConfig pre dataSize config a = do { b \<leftarrow> addCRC ?c 0 ?n; Some (b, ?n) }"
    using f len len_wires run rate c2
    by (simp add: generateConfig_def gsize addTime_ok Let_def addSize_ok)
  have "config_content b t a config = ?c"
    using len_wires by (simp add: config_content_def Let_def pre)
  with gen show ?thesis by simp
qed

lemma generateConfig_framed:
  assumes fits: "config_fits config dataSize b"
    and pre: "pre = overlay 4 (be16 (cfg_idcode config)) (overlay 0 (frame_bytes t) b)"
    and s: "s = pmus_size (sent a (cfg_pmus config))"
  shows "\<exists>b'. generateConfig pre dataSize config a = Some (b', of_nat (24 + s)) \<and>
    length b' = length b \<and> drop (24 + s) b' = drop (24 + s) b \<and> config_framed b' t a config"
proof -
  let ?ps = "cfg_pmus config" and ?n = "24 + of_nat s :: u16"
  let ?wires = "concat (map pmu_wire (sent a ?ps))"
  let ?tb = "cfg_timeBase config" and ?cnt = "be16 (of_nat (length ?ps))"
  let ?c1 = "overlay 6 (be32 (cfg_soc config) @ be32 (cfg_fracsec config)) pre"
  let ?c = "config_content b t a config"
  note f = fits[unfolded config_fits_def]
  have len_wires: "length ?wires = s"
    using f by (simp add: length_pmu_wires list_all_sent s)
  have len: "24 + s \<le> length b" "24 + s < 65536"
    using f pmus_size_sent[of a ?ps] by (auto simp: s)
  have u: "unat ?n = 24 + s"
    using len unat16[of "24 + s"] by simp
  note gen = generateConfig_content[OF fits pre s]
  note content = config_content_def[of b t a config, unfolded Let_def len_wires, folded pre]
  have lc: "length ?c = length b" using len len_wires by (simp add: content pre)
  have head: "holds_at ?c 0 (frame_bytes t)" "holds_at ?c 2 (be16 ?n)" "holds_at ?c 4 (be16 (cfg_idcode config))"
    "holds_at ?c 6 (be32 (cfg_soc config))" "holds_at ?c 10 (be32 (cfg_fracsec config))"
    "holds_at ?c 15 (be24 ?tb @ ?cnt)" "holds_at ?c 20 ?wires" "holds_at ?c (20 + s) (be16 (cfg_dataRate config))"
    using len len_wires holds_at_overlay[of 6 "be32 (cfg_soc config) @ be32 (cfg_fracsec config)" pre]
      holds_at_overlay[of 15 "be24 ?tb @ ?cnt" ?c1]
    by (simp_all add: content pre holds_at_overlay_before holds_at_overlay_after holds_at_overlay holds_at_append)
  have le: "16 \<le> unat ?n" "unat ?n \<le> length ?c" using len lc u by simp_all
  obtain b' where b': "addCRC ?c 0 ?n = Some b'" "length b' = length ?c"
      "take (unat ?n - 2) b' = take (unat ?n - 2) ?c" "drop (unat ?n) b' = drop (unat ?n) ?c"
      "\<And>ds f. unat ?n \<le> ds \<Longrightarrow> ds \<le> length ?c \<Longrightarrow> parseCommon b' ds f =
         Some (parse_complete, common_result t ?n (cfg_idcode config) (be32_at ?c 6) (be32_at ?c 10) f)"
    using finish_frame[OF le head(1-3)] by auto
  have wire: "holds_at ?c 15 (config_wire a config)"
    using head(6-8) len_wires by (simp add: config_wire_def holds_at_append add.assoc)
  have "length (config_wire a config) = s + 7" using len_wires by (simp add: config_wire_def)
  then have "holds_at b' 15 (config_wire a config)"
    using holds_at_take_cong[OF b'(3) _ b'(2)] wire u by simp
  then have "config_framed b' t a config"
    using b'(5) u lc b'(2) by (simp add: config_framed_def be32_at_holds[OF head(4)] be32_at_holds[OF head(5)] flip: s)
  moreover have "drop (24 + s) ?c = drop (24 + s) b"
    using len len_wires by (simp add: content overlay_def pre)
  ultimately show ?thesis
    using gen b' lc u by simp
qed

lemma generateConfig1_framed:
  assumes "config_fits config dataSize b"
  shows "\<exists>b'. generateConfig1 b dataSize config = Some (b', of_nat (24 + pmus_size (cfg_pmus config))) \<and>
    length b' = length b \<and> config_framed b' Pkt_config1 False config"
proof -
  have "6 \<le> length b" using assms by (auto simp: config_fits_def)
  then show ?thesis
    using assms generateConfig_framed[OF assms refl refl, of Pkt_config1 False]
    by (auto simp: generateConfig1_def generateCommonFrame_cfg_eq generateCommonFrame_ok config_fits_def)
qed

lemma generateConfig2_framed:
  assumes "config_fits config dataSize b"
  shows "\<exists>b'. generateConfig2 b dataSize config = Some (b', of_nat (24 + pmus_size (sent True (cfg_pmus config)))) \<and>
    length b' = length b \<and> config_framed b' Pkt_config2 True config"
proof -
  have "6 \<le> length b" using assms by (auto simp: config_fits_def)
  then show ?thesis
    using assms generateConfig_framed[OF assms refl refl, of Pkt_config2 True]
    by (auto simp: generateConfig2_def generateCommonFrame_cfg_eq generateCommonFrame_ok config_fits_def)
qed

section \<open>Reading a configuration back\<close>

lemma parse_pmus_wire:
  assumes "list_all wf_pmu ps" "length olds = length ps" "holds_at b off (concat (map pmu_wire ps))"
  shows "parse_pmus b off olds = Some (map2 canon_pmu olds ps, off + pmus_size ps)"
  using assms
proof (induction ps arbitrary: off olds)
  case (Cons p ps)
  then obtain o1 os where olds: "olds = o1 # os" by (cases olds) simp_all
  with Cons.prems Cons.IH[of os "off + pmu_size p"] parsePmuConfig_wire[of p b off o1]
  show ?case by (simp add: holds_at_append length_pmu_wire add.assoc)
qed simp

definition canon_config :: "Config \<Rightarrow> Config \<Rightarrow> Config" where
  "canon_config old c = old\<lparr>cfg_idcode := cfg_idcode c, cfg_dataRate := cfg_dataRate c,
     cfg_soc := cfg_soc c, cfg_fracsec := cfg_fracsec c, cfg_timeBase := take_bit 24 (cfg_timeBase c),
     cfg_pmus := map2 canon_pmu
       (resize (length (cfg_pmus c)) default_PmuConfig (cfg_pmus old)) (cfg_pmus c)\<rparr>"

lemma parseConfig_head:
  assumes fr: "config_framed b t a config" and t: "t = Pkt_config1 \<or> t = Pkt_config2"
    and ds: "24 + pmus_size (sent a (cfg_pmus config)) \<le> ds" "ds \<le> length b"
    and cnt: "length (cfg_pmus config) < 65536"
  shows "parseConfig1 b ds old = do {
     (pmus, bytes_used) \<leftarrow> parse_pmus b 20 (resize (length (cfg_pmus config)) default_PmuConfig (cfg_pmus old));
     dataRate \<leftarrow> rd_u16 b bytes_used;
     Some (parse_complete, old\<lparr>cfg_idcode := cfg_idcode config, cfg_fracsec := cfg_fracsec config,
       cfg_soc := cfg_soc config, cfg_timeBase := take_bit 24 (cfg_timeBase config),
       cfg_pmus := pmus, cfg_dataRate := dataRate\<rparr>) }"
proof -
  have w: "holds_at b 15 (be24 (cfg_timeBase config))" "holds_at b 18 (be16 (of_nat (length (cfg_pmus config))))"
    using fr by (simp_all add: config_framed_def config_wire_def holds_at_append)
  have tb: "rd8 b 15 = Some (be24 (cfg_timeBase config) ! 0)" "rd8 b 16 = Some (be24 (cfg_timeBase config) ! 1)"
    "rd8 b 17 = Some (be24 (cfg_timeBase config) ! 2)"
    using rd8_holds[OF w(1), of 0] rd8_holds[OF w(1), of 1] rd8_holds[OF w(1), of 2] by simp_all
  then have "of_be24 (be24 (cfg_timeBase config) ! 0) (be24 (cfg_timeBase config) ! 1) (be24 (cfg_timeBase config) ! 2)
      = take_bit 24 (cfg_timeBase config)"
    by (simp add: be24_def of_be24_be24)
  moreover have "parseCommon b ds fresh_frame = Some (parse_complete,
      common_result t (of_nat (24 + pmus_size (sent a (cfg_pmus config))))
        (cfg_idcode config) (cfg_soc config) (cfg_fracsec config) fresh_frame)"
    using fr ds by (simp add: config_framed_def)
  ultimately show ?thesis
    using tb t cnt rd_u16_be16[OF w(2)]
    by (auto simp: parseConfig1_def common_result_def unat16)
qed

lemma parseConfig_framed:
  assumes fr: "config_framed b t a config" and t: "t = Pkt_config1 \<or> t = Pkt_config2"
    and all: "sent a (cfg_pmus config) = cfg_pmus config" and wf: "list_all wf_pmu (cfg_pmus config)"
    and ds: "24 + pmus_size (cfg_pmus config) \<le> ds" "ds \<le> length b"
    and cnt: "length (cfg_pmus config) < 65536"
  shows "parseConfig1 b ds old = Some (parse_complete, canon_config old config)"
proof -
  have w: "holds_at b 20 (concat (map pmu_wire (cfg_pmus config)))"
    "holds_at b (20 + pmus_size (cfg_pmus config)) (be16 (cfg_dataRate config))"
    using fr wf by (simp_all add: config_framed_def config_wire_def holds_at_append all length_pmu_wires)
  show ?thesis
    using parseConfig_head[OF fr t _ ds(2) cnt] ds parse_pmus_wire[OF wf _ w(1)] rd_u16_be16[OF w(2)]
    by (simp add: all canon_config_def)
qed

lemma config1_roundtrip_ex:
  assumes "config_fits config dataSize b"
  shows "\<exists>b'. generateConfig1 b dataSize config = Some (b', of_nat (24 + pmus_size (cfg_pmus config))) \<and>
    parseConfig1 b' dataSize old = Some (parse_complete, canon_config old config)"
proof -
  obtain b' where b': "generateConfig1 b dataSize config = Some (b', of_nat (24 + pmus_size (cfg_pmus config)))"
      "length b' = length b" "config_framed b' Pkt_config1 False config"
    using generateConfig1_framed[OF assms] by blast
  note f = assms[unfolded config_fits_def]
  have "length (cfg_pmus config) < 65536"
    using f pmus_size_ge[of "cfg_pmus config"] by linarith
  then have "parseConfig1 b' dataSize old = Some (parse_complete, canon_config old config)"
    using parseConfig_framed[OF b'(3)] f b'(2) by simp
  with b'(1) show ?thesis by blast
qed

text \<open>\<open>canon_config\<close> describes the parser as it is, also where it is wrong: a nominal frequency of 60 Hz is not
  set, so that an old 50 Hz stays.  What a parse ought to give is \<open>received_config\<close>: the members a frame carries, in
  the precision of the wire, over those it does not carry (class, position, activity, window and group delay).
  The two agree when no PMU of the old configuration has anything but 60 Hz, as is the case for a new one.\<close>

definition received_pmu :: "PmuConfig \<Rightarrow> PmuConfig \<Rightarrow> PmuConfig" where
  "received_pmu old c = c\<lparr>pc_stationName := canon_name (pc_stationName c),
     pc_phasorNames := map canon_name (pc_phasorNames c), pc_analogNames := map canon_name (pc_analogNames c),
     pc_digitChannelNames := map canon_name (pc_digitChannelNames c),
     pc_phasorType := map (\<lambda>t. phasor_type_of (phasor_type_code t)) (pc_phasorType c),
     pc_phasorConversion := map (take_bit 24) (pc_phasorConversion c),
     pc_analogType := map (\<lambda>t. analog_type_of (analog_type_code t)) (pc_analogType c),
     pc_analogConversion := map (signed_take_bit 23) (pc_analogConversion c),
     pc_nominalFrequency := (if f32_eq (pc_nominalFrequency c) f32_50 then f32_50 else f32_60),
     pc_pmuClass := pc_pmuClass old, pc_lat := pc_lat old, pc_lon := pc_lon old, pc_elev := pc_elev old,
     pc_active := pc_active old, pc_window := pc_window old, pc_grpDelay := pc_grpDelay old\<rparr>"

definition received_config :: "Config \<Rightarrow> Config \<Rightarrow> Config" where
  "received_config old c = c\<lparr>cfg_timeBase := take_bit 24 (cfg_timeBase c),
     cfg_pmus := map2 received_pmu
       (resize (length (cfg_pmus c)) default_PmuConfig (cfg_pmus old)) (cfg_pmus c)\<rparr>"

definition all_60 :: "Config \<Rightarrow> bool" where
  "all_60 c \<longleftrightarrow> list_all (\<lambda>p. pc_nominalFrequency p = f32_60) (cfg_pmus c)"

lemma canon_pmu_received: "pc_nominalFrequency old = f32_60 \<Longrightarrow> canon_pmu old c = received_pmu old c"
  by (cases old; cases c) (simp add: canon_pmu_def received_pmu_def)

lemma resize_60:
  assumes "all_60 old"
  shows "list_all (\<lambda>p. pc_nominalFrequency p = f32_60) (resize n default_PmuConfig (cfg_pmus old))"
proof -
  have "pc_nominalFrequency default_PmuConfig = f32_60" by (simp add: default_PmuConfig_def)
  then show ?thesis using assms by (auto simp: all_60_def resize_def list_all_iff dest: in_set_takeD)
qed

lemma canon_config_received:
  assumes "all_60 old"
  shows "canon_config old c = received_config old c"
proof -
  let ?olds = "resize (length (cfg_pmus c)) default_PmuConfig (cfg_pmus old)"
  have "map2 canon_pmu ?olds (cfg_pmus c) = map2 received_pmu ?olds (cfg_pmus c)"
    using resize_60[OF assms] by (auto simp: list_all_iff canon_pmu_received dest!: set_zip_leftD)
  then show ?thesis by (cases old; cases c) (simp add: canon_config_def received_config_def)
qed


text \<open>A configuration with one PMU of one phasor, with its activity and nominal frequency given.\<close>

definition sample_pmu :: "bool \<Rightarrow> f32 \<Rightarrow> PmuConfig" where
  "sample_pmu active nominal = default_PmuConfig\<lparr>pc_sourceID := 7, pc_stationName := ''Station A'',
     pc_phasorCount := 1, pc_phasorNames := [''VA''], pc_phasorType := [PhT_voltage],
     pc_phasorConversion := [915527], pc_freqFormat := 1, pc_active := active,
     pc_nominalFrequency := nominal\<rparr>"

definition sample_config :: "bool \<Rightarrow> f32 \<Rightarrow> Config" where
  "sample_config active nominal = default_Config\<lparr>cfg_idcode := 7, cfg_pmus := [sample_pmu active nominal]\<rparr>"

lemma sample_simps [simp]:
  "cfg_pmus (sample_config a f) = [sample_pmu a f]" "pmu_size (sample_pmu a f) = 50"
  "pc_active (sample_pmu a f) = a" "pc_nominalFrequency (sample_pmu a f) = f" "wf_pmu (sample_pmu a f)"
  "pc_sourceID (sample_pmu a f) = 7"
  by (simp_all add: sample_config_def sample_pmu_def default_PmuConfig_def pmu_size_def wf_pmu_def)

lemma sample_fits: "config_fits (sample_config a f) 80 (replicate 80 0)"
  by (simp add: config_fits_def)


text \<open>C29: configuration frame 2 round-trips when every PMU is active.\<close>

theorem config2_roundtrip:
  assumes "config_fits config dataSize b" "list_all pc_active (cfg_pmus config)"
  shows "\<exists>b'. generateConfig2 b dataSize config = Some (b', of_nat (24 + pmus_size (cfg_pmus config))) \<and>
    parseConfig2 b' dataSize old = Some (parse_complete, canon_config old config)"
proof -
  have all: "sent True (cfg_pmus config) = cfg_pmus config"
    using assms(2) by (simp add: sent_def list_all_iff)
  obtain b' where b': "generateConfig2 b dataSize config = Some (b', of_nat (24 + pmus_size (cfg_pmus config)))"
      "length b' = length b" "config_framed b' Pkt_config2 True config"
    using generateConfig2_framed[OF assms(1)] all by auto
  note f = assms(1)[unfolded config_fits_def]
  have "length (cfg_pmus config) < 65536"
    using f pmus_size_ge[of "cfg_pmus config"] by linarith
  then have "parseConfig1 b' dataSize old = Some (parse_complete, canon_config old config)"
    using parseConfig_framed[OF b'(3) _ all] f b'(2) by simp
  with b'(1) show ?thesis unfolding parseConfig2_def by blast
qed

theorem config2_roundtrip_witness:
  "\<exists>b'. generateConfig2 (replicate 80 0) 80 (sample_config True f32_50) = Some (b', 74) \<and>
     parseConfig2 b' 80 default_Config =
       Some (parse_complete, canon_config default_Config (sample_config True f32_50))"
  using config2_roundtrip[OF sample_fits, of True f32_50 default_Config] by simp

section \<open>What reading back cannot recover\<close>

lemma rd_each_off:
  assumes "rd_each rd n b off = Some (xs, off')"
    and "\<And>i x j. rd b i = Some (x, j) \<Longrightarrow> i \<le> j"
  shows "off \<le> off'"
  using assms(1)
proof (induction n arbitrary: off xs)
  case (Suc n)
  then obtain x i xs' where "rd b off = Some (x, i)" "rd_each rd n b i = Some (xs', off')"
    by (auto split: Option.bind_splits)
  with Suc.IH assms(2)[of off x i] show ?case by force
qed simp

lemma field_off:
  "rd_name b i = Some (x, j) \<Longrightarrow> j = i + 16"
  "rd_phasor_unit b i = Some (u, j) \<Longrightarrow> j = i + 4"
  "rd_analog_unit b i = Some (v, j) \<Longrightarrow> j = i + 4"
  "rd_digital_unit b i = Some (w, j) \<Longrightarrow> j = i + 4"
  by (auto simp: rd_name_def rd_phasor_unit_def rd_analog_unit_def rd_digital_unit_def
      split: Option.bind_splits)

lemma run_off:
  "rd_each rd_name n b i = Some (xs, j) \<Longrightarrow> i \<le> j"
  "rd_each rd_phasor_unit n b i = Some (us, j) \<Longrightarrow> i \<le> j"
  "rd_each rd_analog_unit n b i = Some (vs, j) \<Longrightarrow> i \<le> j"
  "rd_each rd_digital_unit n b i = Some (ws, j) \<Longrightarrow> i \<le> j"
  by (auto elim!: rd_each_off dest: field_off)

lemma rd_u16_bound: "rd_u16 b i = Some v \<Longrightarrow> i + 2 \<le> length b"
  by (auto simp: rd_u16_def rd8_def split: Option.bind_splits if_splits)

text \<open>Every PMU block a parse consumes has at least thirty bytes and lies inside the buffer.\<close>

lemma parsePmuConfig_bounds:
  assumes "parsePmuConfig b base old = Some (c, n)"
  shows "30 \<le> n \<and> base + n \<le> length b"
  using assms
  by (auto simp: parsePmuConfig_def Let_def dest!: rd_u16_bound run_off field_off
      split: Option.bind_splits simp del: One_nat_def) linarith+

lemma parse_pmus_bounds:
  assumes "parse_pmus b off olds = Some (ps, off')"
  shows "off + 30 * length olds \<le> off'"
  using assms
proof (induction olds arbitrary: off ps)
  case (Cons p olds)
  then obtain c n ps' where "parsePmuConfig b off p = Some (c, n)" "parse_pmus b (off + n) olds = Some (ps', off')"
    by (auto split: Option.bind_splits)
  with Cons.IH[of "off + n" ps'] parsePmuConfig_bounds[of b off p c n] show ?case by simp
qed simp

lemma parseConfig_overrun_none:
  assumes "parseCommon b dataSize fresh_frame = Some (parse_complete, g)"
    and "cf_type g = Pkt_config1 \<or> cf_type g = Pkt_config2"
    and "rd_u16 b 18 = Some cnt" "length b < 22 + 30 * unat cnt"
  shows "parseConfig1 b dataSize old = None"
proof (rule ccontr)
  assume "parseConfig1 b dataSize old \<noteq> None"
  then obtain ps off v where "parse_pmus b 20 (resize (unat cnt) default_PmuConfig (cfg_pmus old)) = Some (ps, off)"
      "rd_u16 b off = Some v"
    using assms(1-3) by (auto simp: parseConfig1_def Let_def split: Option.bind_splits if_splits)
  then have "20 + 30 * unat cnt \<le> off" "off + 2 \<le> length b"
    using parse_pmus_bounds rd_u16_bound by fastforce+
  with assms(4) show False by simp
qed

text \<open>C33: the configuration parser believes the PMU count of the packet.  A packet with a
  valid checksum whose count needs more bytes than the buffer has makes it read behind the end,
  whatever \<open>dataSize\<close> says: there is no error result for it.\<close>

theorem parseConfig_overrun:
  assumes "parseCommon b dataSize fresh_frame = Some (parse_complete, g)"
    and "cf_type g = Pkt_config1 \<or> cf_type g = Pkt_config2"
    and "rd_u16 b 18 = Some cnt" "length b < 22 + 30 * unat cnt"
  shows "parseConfig1 b dataSize old = None"
  using assms by (rule parseConfig_overrun_none)

text \<open>A configuration packet of 24 bytes that announces one PMU and has none.\<close>

definition greedy_packet :: buffer where
  "greedy_packet = [0xAA, 0x31, 0, 24, 0, 7, 0, 0, 0, 0, 0, 0, 0, 0, 0, 0, 0, 0, 0, 1, 0, 30, 0x8A, 0x1D]"

lemma greedy_packet_parses:
  "parseCommon greedy_packet 24 fresh_frame = Some (parse_complete, parsed_frame greedy_packet fresh_frame)"
proof (rule parseCommon_complete)
  have size: "frame_size greedy_packet = 24"
    by (simp add: frame_size_def greedy_packet_def of_be16_def)
  then show "frame_size greedy_packet \<le> 24" "2 \<le> frame_size greedy_packet" by simp_all
  show "frame_crc_ok greedy_packet"
    by (simp add: frame_crc_ok_def size) (simp add: greedy_packet_def crc_ccitt_step crc_step_def of_be16_def)
qed (simp_all add: greedy_packet_def)

theorem parseConfig_overrun_witness: "parseConfig1 greedy_packet 24 default_Config = None"
proof (rule parseConfig_overrun[OF greedy_packet_parses])
  show "rd_u16 greedy_packet 18 = Some 1"
    by (simp add: rd_u16_def greedy_packet_def of_be16_def)
qed (simp_all add: parsed_frame_def frame_header_def greedy_packet_def)

text \<open>Configuration frame 2 leaves out the inactive PMUs but announces all of them.  When
  none is active, the receiver of exactly the bytes the generator reports runs off their end.\<close>

theorem config2_inactive_unreadable:
  assumes fits: "config_fits config dataSize b"
    and "cfg_pmus config \<noteq> []" "list_all (\<lambda>p. \<not> pc_active p) (cfg_pmus config)"
  shows "\<exists>b'. generateConfig2 b dataSize config = Some (b', 24) \<and>
    getPacketSize (take 24 b') 24 = Some 24 \<and> parseConfig2 (take 24 b') 24 old = None"
proof -
  have none: "sent True (cfg_pmus config) = []"
    using assms(3) by (auto simp: sent_def list_all_iff)
  obtain b' where b': "generateConfig2 b dataSize config = Some (b', 24)"
      "length b' = length b" "config_framed b' Pkt_config2 True config"
    using generateConfig2_framed[OF fits] none by auto
  note f = fits[unfolded config_fits_def]
  have len: "24 \<le> length b'" using f b'(2) by simp
  have "length (config_wire True config) = 7" using none by (simp add: config_wire_def)
  moreover have "holds_at b' 15 (config_wire True config)"
    using b'(3) by (simp add: config_framed_def)
  ultimately have "holds_at b' 18 (be16 (of_nat (length (cfg_pmus config))))"
    by (simp add: config_wire_def holds_at_append)
  then have cnt: "rd_u16 (take 24 b') 18 = Some (of_nat (length (cfg_pmus config)))"
    using len by (intro rd_u16_be16) (simp add: holds_at_take)
  have n: "unat (of_nat (length (cfg_pmus config)) :: u16) = length (cfg_pmus config)"
    using f pmus_size_ge[of "cfg_pmus config"] by (intro unat16) linarith
  define g where "g = common_result Pkt_config2 24 (cfg_idcode config) (cfg_soc config) (cfg_fracsec config) fresh_frame"
  have parsed: "parseCommon (take 24 b') 24 fresh_frame = Some (parse_complete, g)"
    using b'(3) len none by (simp add: parseCommon_take config_framed_def g_def)
  obtain k where "length (cfg_pmus config) = Suc k" using assms(2) by (cases "cfg_pmus config") simp_all
  then have "length (take 24 b') < 22 + 30 * unat (of_nat (length (cfg_pmus config)) :: u16)"
    unfolding n using len by simp
  then have "parseConfig1 (take 24 b') 24 old = None"
    by (intro parseConfig_overrun_none[OF parsed _ cnt]) (simp_all add: g_def n Suc_le_eq)
  moreover have "getPacketSize (take 24 b') 24 = Some 24"
    using inspectors_of_parsed[OF parsed] len by (simp add: g_def)
  ultimately show ?thesis using b'(1) by (auto simp: parseConfig2_def)
qed

theorem config2_inactive_unreadable_witness:
  "\<exists>b'. generateConfig2 (replicate 80 0) 80 (sample_config False f32_60) = Some (b', 24) \<and>
     getPacketSize (take 24 b') 24 = Some 24 \<and> parseConfig2 (take 24 b') 24 default_Config = None"
  by (rule config2_inactive_unreadable[OF sample_fits]) simp_all

text \<open>The parser only ever sets the nominal frequency to 50 Hz.  A receiver that once held
  a 50 Hz configuration keeps 50 Hz for every PMU in its list when a configuration of
  60 Hz arrives, although the rest of the configuration is replaced.\<close>

theorem nominal_frequency_sticks:
  assumes "config_fits config dataSize b" "i < length (cfg_pmus config)" "i < length (cfg_pmus old)"
    and "pc_nominalFrequency (cfg_pmus old ! i) = f32_50"
  shows "\<exists>b' c. generateConfig1 b dataSize config = Some (b', of_nat (24 + pmus_size (cfg_pmus config))) \<and>
    parseConfig1 b' dataSize old = Some (parse_complete, c) \<and>
    pc_sourceID (cfg_pmus c ! i) = pc_sourceID (cfg_pmus config ! i) \<and>
    pc_nominalFrequency (cfg_pmus c ! i) = f32_50"
proof -
  have "cfg_pmus (canon_config old config) ! i = canon_pmu (cfg_pmus old ! i) (cfg_pmus config ! i)"
    using assms(2,3) by (simp add: canon_config_def resize_def nth_append)
  then have "pc_sourceID (cfg_pmus (canon_config old config) ! i) = pc_sourceID (cfg_pmus config ! i)"
    "pc_nominalFrequency (cfg_pmus (canon_config old config) ! i) = f32_50"
    using assms(4) by (simp_all add: canon_pmu_def)
  then show ?thesis using config1_roundtrip_ex[OF assms(1), of old] by auto
qed

theorem nominal_frequency_sticks_witness:
  "\<exists>b' c. generateConfig1 (replicate 80 0) 80 (sample_config True f32_60) = Some (b', 74) \<and>
     parseConfig1 b' 80 (sample_config True f32_50) = Some (parse_complete, c) \<and>
     pc_sourceID (cfg_pmus c ! 0) = 7 \<and> pc_nominalFrequency (cfg_pmus c ! 0) = f32_50"
  using nominal_frequency_sticks[OF sample_fits, of 0 True f32_60 "sample_config True f32_50"] by simp

section \<open>Encoding a parsed configuration again\<close>

lemma enc_name_canon [simp]: "enc_name (canon_name s) = enc_name s"
proof -
  have "byte_of_char (char_of_byte 0) = 0" by simp
  then show ?thesis by (simp add: enc_name_def canon_name_def min_def)
qed

lemma be24_take_bit [simp]: "be24 (take_bit 24 w) = be24 w"
  by (auto simp: be24_def bit_simps intro!: bit_word_eqI)

lemma be24_signed_take_bit [simp]: "be24 (signed_take_bit 23 w) = be24 w"
  by (auto simp: be24_def bit_simps min.absorb2 intro!: bit_word_eqI)

lemma enc_canon_phasors:
  "length ts = length vs \<Longrightarrow>
   map enc_phasor (zip (map (\<lambda>t. phasor_type_of (phasor_type_code t)) ts) (map (take_bit 24) vs)) =
   map enc_phasor (zip ts vs)"
  by (auto simp: enc_phasor_def intro!: nth_equalityI)

lemma enc_canon_analogs:
  "length ts = length vs \<Longrightarrow>
   map enc_analog (zip (map (\<lambda>t. analog_type_of (analog_type_code t)) ts) (map (signed_take_bit 23) vs)) =
   map enc_analog (zip ts vs)"
  by (auto simp: enc_analog_def intro!: nth_equalityI)

lemma nominal_code_canon:
  assumes "\<not> f32_eq (pc_nominalFrequency old) f32_50"
  shows "nominal_code (canon_pmu old c) = nominal_code c"
proof -
  have "f32_eq f32_50 f32_50" by (simp add: fp_eval)
  with assms show ?thesis by (simp add: nominal_code_def canon_pmu_def)
qed

lemma pmu_wire_canon:
  assumes "wf_pmu c" "\<not> f32_eq (pc_nominalFrequency old) f32_50"
  shows "pmu_wire (canon_pmu old c) = pmu_wire c"
proof -
  have "format_word (canon_pmu old c) = format_word c" by (simp add: format_word_def canon_pmu_def)
  then show ?thesis
    using assms nominal_code_canon[OF assms(2), of c]
    by (simp add: pmu_wire_def nominal_bytes_def wf_pmu_def o_def enc_canon_phasors enc_canon_analogs)
qed

lemma canon_default_wire:
  assumes "list_all wf_pmu ps"
  shows "map pmu_wire (map2 canon_pmu (replicate (length ps) default_PmuConfig) ps) = map pmu_wire ps"
proof -
  have "\<not> f32_eq (pc_nominalFrequency default_PmuConfig) f32_50"
    by (simp add: default_PmuConfig_def fp_eval)
  with assms show ?thesis by (induction ps) (simp_all add: pmu_wire_canon)
qed

text \<open>The parsed configuration gives the same packet content.\<close>

lemma canon_content:
  assumes "list_all wf_pmu (cfg_pmus config)" "cfg_pmus old = []"
  shows "config_content b t False (canon_config old config) = config_content b t False config"
  using assms canon_default_wire[of "cfg_pmus config"]
  by (simp add: config_content_def canon_config_def resize_def)

lemma wf_canon: "wf_pmu c \<Longrightarrow> wf_pmu (canon_pmu old c)"
  by (simp add: wf_pmu_def)

lemma canon_pmus_fit:
  assumes "list_all wf_pmu ps"
  shows "list_all wf_pmu (map2 canon_pmu (replicate (length ps) default_PmuConfig) ps)"
    "pmus_size (map2 canon_pmu (replicate (length ps) default_PmuConfig) ps) = pmus_size ps"
  using assms by (induction ps) (simp_all add: wf_canon pmu_size_def)

lemma canon_fits:
  "config_fits config dataSize b \<Longrightarrow> cfg_pmus old = [] \<Longrightarrow> config_fits (canon_config old config) dataSize b"
  by (simp add: config_fits_def canon_config_def resize_def canon_pmus_fit)

lemma generateConfig1_content:
  assumes "config_fits config dataSize b"
  shows "generateConfig1 b dataSize config =
    do { b \<leftarrow> addCRC (config_content b Pkt_config1 False config) 0 (24 + of_nat (pmus_size (cfg_pmus config)));
         Some (b, 24 + of_nat (pmus_size (cfg_pmus config))) }"
proof -
  have "6 \<le> length b" using assms by (auto simp: config_fits_def)
  then show ?thesis
    using assms generateConfig_content[OF assms refl refl, of Pkt_config1 False]
    by (simp add: generateConfig1_def generateCommonFrame_cfg_eq generateCommonFrame_ok config_fits_def)
qed

text \<open>A parsed configuration encodes to the packet it came from: what a receiver without
  an earlier configuration makes of a generated frame 1 generates, on the same buffer, the
  same bytes.\<close>

theorem config_reencodes:
  assumes "config_fits config dataSize b" "cfg_pmus old = []"
  shows "\<exists>b' n c. generateConfig1 b dataSize config = Some (b', n) \<and>
    parseConfig1 b' dataSize old = Some (parse_complete, c) \<and> generateConfig1 b dataSize c = Some (b', n)"
proof -
  have "list_all wf_pmu (cfg_pmus config)" using assms(1) by (simp add: config_fits_def)
  moreover from this have "pmus_size (cfg_pmus (canon_config old config)) = pmus_size (cfg_pmus config)"
    using assms(2) by (simp add: canon_config_def resize_def canon_pmus_fit)
  ultimately have "generateConfig1 b dataSize (canon_config old config) = generateConfig1 b dataSize config"
    using generateConfig1_content[OF assms(1)] generateConfig1_content[OF canon_fits[OF assms]]
      canon_content[OF _ assms(2), of config b Pkt_config1] by simp
  then show ?thesis using config1_roundtrip_ex[OF assms(1), of old] by fastforce
qed

theorem config_reencodes_witness:
  "\<exists>b' n c. generateConfig1 (replicate 80 0) 80 (sample_config True f32_60) = Some (b', n) \<and>
     parseConfig1 b' 80 default_Config = Some (parse_complete, c) \<and>
     generateConfig1 (replicate 80 0) 80 c = Some (b', n)"
  using config_reencodes[OF sample_fits, of default_Config True f32_60] by (simp add: default_Config_def)

section \<open>The size test wraps\<close>

lemma names_overflow:
  assumes "length b < base + unat used + 16 * length ns" "base + unat used \<le> length b" "length b < base + 65536"
  shows "mfold (\<lambda>n. wr_name n base) ns (b, used) = None"
  using assms
proof (induction ns arbitrary: b used)
  case (Cons n ns)
  show ?case
  proof (cases "base + unat used + 16 \<le> length b")
    case True
    then have u: "unat (used + 16) = unat used + 16"
      using Cons.prems(3) by (intro unat_add_numeral) simp
    have "wr_name n base (b, used) = Some (overlay (base + unat used) (enc_name n) b, used + 16)"
      using emitsD[OF emits_name, of base used n b] True Cons.prems(3) by simp
    moreover have "mfold (\<lambda>n. wr_name n base) ns (overlay (base + unat used) (enc_name n) b, used + 16) = None"
      using Cons.prems True by (intro Cons.IH) (simp_all add: u)
    ultimately show ?thesis by simp
  next
    case False
    then have "wr_name n base (b, used) = None"
      by (auto simp: wr_name_def Let_def memset_def wr_bytes_def min_def split: Option.bind_splits if_splits)
    then show ?thesis by simp
  qed
qed simp

text \<open>The size a configuration needs is computed in sixteen bits.  With enough channels it
  wraps, the test against \<open>dataSize\<close> passes, and the phasor names are copied over the end of the
  buffer.\<close>

theorem pmu_size_wraps:
  assumes "26 \<le> length b - base" "base \<le> length b" "length b < base + 65536"
    and "length b < base + 26 + 16 * length (pc_phasorNames c)" "pmu_size c mod 65536 \<le> dataSize"
  shows "generatePMUConfig b base dataSize c activeOnly = None"
proof -
  let ?head = "enc_name (pc_stationName c) @ be16 (pc_sourceID c) @ be16 (format_word c) @
    be16 (pc_phasorCount c) @ be16 (pc_analogCount c) @ be16 (pc_digitalWordCount c)"
  let ?hd = "\<lambda>s. do {
     s \<leftarrow> wr_name (pc_stationName c) base s;
     s \<leftarrow> wr_htons (pc_sourceID c) base s;
     s \<leftarrow> wr_htons (format_word c) base s;
     s \<leftarrow> wr_u16 (pc_phasorCount c) base s;
     s \<leftarrow> wr_u16 (pc_analogCount c) base s;
     wr_u16 (pc_digitalWordCount c) base s }"
  have "emits base ?hd ?head"
    by (intro emits_seq emits_name emits_htons emits_u16)
  then have hd: "?hd (b, 0) = Some (overlay base ?head b, 26)"
    using emitsD[of base ?hd ?head 0 b] assms by simp
  have over: "mfold (\<lambda>pn. wr_name pn base) (pc_phasorNames c) (overlay base ?head b, 26) = None"
    using assms by (intro names_overflow) simp_all
  have "pmu_config_body c base (b, 0) = do { s \<leftarrow> ?hd (b, 0); s \<leftarrow> mfold (\<lambda>pn. wr_name pn base) (pc_phasorNames c) s;
      s \<leftarrow> mfold (\<lambda>an. wr_name an base) (pc_analogNames c) s;
     s \<leftarrow> mfold (\<lambda>an. wr_name an base) (pc_digitChannelNames c) s;
     s \<leftarrow> mfold (\<lambda>ii s. do {
            t \<leftarrow> idx (pc_phasorType c) ii;
            v \<leftarrow> idx (pc_phasorConversion c) ii;
            wr_phasor_unit (t, v) base s }) [0..<unat (pc_phasorCount c)] s;
     s \<leftarrow> mfold (\<lambda>ii s. do {
            t \<leftarrow> idx (pc_analogType c) ii;
            v \<leftarrow> idx (pc_analogConversion c) ii;
            wr_analog_unit (t, v) base s }) [0..<unat (pc_analogCount c)] s;
     s \<leftarrow> mfold (\<lambda>ii s. do {
            m \<leftarrow> idx (pc_digitalNominal c) ii;
            a \<leftarrow> idx (pc_digitalActive c) ii;
            wr_digital_unit (m, a) base s }) [0..<unat (pc_digitalWordCount c)] s;
     s \<leftarrow> wr_nominal (nominal_code c) base s;
     wr_u16 (pc_changeCount c) base s }"
    by (simp add: pmu_config_body_def)
  then have "pmu_config_body c base (b, 0) = None"
    by (simp only: hd over Option.bind.bind_lunit Option.bind.bind_lzero)
  moreover have "unat (getPmuConfigSize c activeOnly) = pmu_size c mod 65536"
    by (simp only: getPmuConfigSize_eq) (simp add: unat_of_nat take_bit_eq_mod del: of_nat_add)
  ultimately show ?thesis using assms(5) by (simp add: generatePMUConfig_def)
qed

text \<open>3276 phasors need 65550 bytes; the code computes 14.\<close>

definition wide_pmu :: PmuConfig where
  "wide_pmu = default_PmuConfig\<lparr>pc_phasorCount := 3276, pc_phasorNames := replicate 3276 ''V'',
     pc_phasorType := replicate 3276 PhT_voltage, pc_phasorConversion := replicate 3276 1\<rparr>"

theorem pmu_size_wraps_witness:
  "wf_pmu wide_pmu \<and> generatePMUConfig (replicate 1000 0) 20 980 wide_pmu False = None"
proof -
  have "wf_pmu wide_pmu" by (simp add: wf_pmu_def wide_pmu_def default_PmuConfig_def)
  moreover have "generatePMUConfig (replicate 1000 0) 20 980 wide_pmu False = None"
    by (rule pmu_size_wraps) (simp_all add: wide_pmu_def default_PmuConfig_def pmu_size_def)
  ultimately show ?thesis by blast
qed

end
