(* ===== verification/Data_Frame.thy ===== *)
theory Data_Frame
  imports Common_Frame
begin

text \<open>
  Data frames (\<open>src/pmu/c37118.cpp\<close>): \<open>getExpectedDataPacketLength\<close>, \<open>parsePmuData\<close>,
  \<open>parseDataFrame\<close>, the second \<open>addTime\<close>, \<open>generatePmuDataFrame\<close> and
  \<open>generateDataFrame\<close>.  The layout depends on the configuration: phasors, frequency and analog values
  are sent as integers or as floats, phasors in rectangular or polar coordinates.

  The three functions of the mathematical library whose results are not fixed by IEEE 754,
  \<open>std::polar\<close>, \<open>std::abs\<close> and \<open>std::arg\<close>, are a parameter, the record \<open>Libm\<close>.
\<close>

record Libm =
  lm_polar :: "f64 \<Rightarrow> f64 \<Rightarrow> f64 \<times> f64"
  lm_abs :: "f64 \<times> f64 \<Rightarrow> f64"
  lm_arg :: "f64 \<times> f64 \<Rightarrow> f64"

section \<open>Parsing\<close>

definition getExpectedDataPacketLength :: "Config \<Rightarrow> nat" where
  "getExpectedDataPacketLength config =
     foldl (\<lambda>dataSize pmu.
       let dataSize = dataSize + 2;
           dataSize = dataSize + 2 * (if pc_phasorFormat pmu = integer_format then 2 else 4) * unat (pc_phasorCount pmu);
           dataSize = dataSize + 2 * (if pc_freqFormat pmu = integer_format then 2 else 4);
           dataSize = dataSize + (if pc_analogFormat pmu = integer_format then 2 else 4) * unat (pc_analogCount pmu)
       in dataSize + unat (pc_digitalWordCount pmu) * 2)
     (common_frame_size + 2) (cfg_pmus config)"

text \<open>\<open>for (ii < n) { vec[ii] = read ii at bytes_used; bytes_used += ...; }\<close> with the index
  visible to the body.\<close>

fun rd_indexed :: "(nat \<Rightarrow> buffer \<Rightarrow> nat \<Rightarrow> ('a \<times> nat) option) \<Rightarrow> nat list \<Rightarrow> buffer \<Rightarrow> nat \<Rightarrow>
    ('a list \<times> nat) option" where
  "rd_indexed rd [] b off = Some ([], off)"
| "rd_indexed rd (ii # iis) b off = do {
     (x, off) \<leftarrow> rd ii b off;
     (xs, off) \<leftarrow> rd_indexed rd iis b off;
     Some (x # xs, off)
   }"

text \<open>\<open>memcpy\<close> of a halfword or word followed by \<open>ntohs\<close> or \<open>ntohf\<close>.\<close>

definition rd_ntohs :: "buffer \<Rightarrow> nat \<Rightarrow> u16 option" where
  "rd_ntohs b off = do { v \<leftarrow> load16 b off; Some (ntohs v) }"

definition rd_ntohf :: "buffer \<Rightarrow> nat \<Rightarrow> f32 option" where
  "rd_ntohf b off = do { v \<leftarrow> load32 b off; Some (ntohf v) }"

definition rd_phasor :: "Libm \<Rightarrow> PmuConfig \<Rightarrow> nat \<Rightarrow> buffer \<Rightarrow> nat \<Rightarrow> ((f64 \<times> f64) \<times> nat) option" where
  "rd_phasor L config ii b off =
     (if pc_phasorFormat config = integer_format then do {
        val1 \<leftarrow> rd_ntohs b off;
        val2 \<leftarrow> rd_ntohs b (off + 2);
        conversion \<leftarrow> idx (pc_phasorConversion config) ii;
        let conversion = f64_of_int (uint conversion);
        Some (if pc_phasorCoordinates config = rectangular_phasor
              then (f64_mul (f64_mul (f64_of_int (sint val1)) lit_1e_m5) conversion,
                    f64_mul (f64_mul (f64_of_int (sint val2)) lit_1e_m5) conversion)
              else lm_polar L (f64_mul (f64_mul (f64_of_int (uint val1)) lit_1e_m5) conversion)
                     (f64_div (f64_of_int (sint val2)) lit_1e4),
              off + 4)
      } else do {
        val1f \<leftarrow> rd_ntohf b off;
        val2f \<leftarrow> rd_ntohf b (off + 4);
        Some (if pc_phasorCoordinates config = rectangular_phasor
              then (f64_of_f32 val1f, f64_of_f32 val2f)
              else lm_polar L (f64_of_f32 val1f) (f64_of_f32 val2f),
              off + 8)
      })"

definition rd_freq :: "PmuConfig \<Rightarrow> buffer \<Rightarrow> nat \<Rightarrow> (f64 \<times> nat) option" where
  "rd_freq config b off =
     (if pc_freqFormat config = floating_point_format
      then do { v \<leftarrow> rd_ntohf b off; Some (f64_of_f32 v, off + 4) }
      else do { v \<leftarrow> rd_ntohs b off; Some (f64_div (f64_of_int (sint v)) lit_1000, off + 2) })"

definition rd_analog :: "PmuConfig \<Rightarrow> buffer \<Rightarrow> nat \<Rightarrow> (f64 \<times> nat) option" where
  "rd_analog config b off =
     (if pc_analogFormat config = floating_point_format
      then do { v \<leftarrow> rd_ntohf b off; Some (f64_of_f32 v, off + 4) }
      else do { v \<leftarrow> rd_ntohs b off; Some (f64_of_f32 (f32_of_int (sint v)), off + 2) })"

definition rd_digital :: "buffer \<Rightarrow> nat \<Rightarrow> (u16 \<times> nat) option" where
  "rd_digital b off = do { v \<leftarrow> rd_ntohs b off; Some (v, off + 2) }"

text \<open>Frequency and its rate of change use the same code one after the other.\<close>

definition parsePmuData :: "Libm \<Rightarrow> buffer \<Rightarrow> nat \<Rightarrow> PmuConfig \<Rightarrow> PmuData \<Rightarrow> (PmuData \<times> nat) option" where
  "parsePmuData L b base config pmuData = do {
     stat \<leftarrow> rd_ntohs b base;
     let off = base + 2;
     (phasors, off) \<leftarrow> rd_indexed (rd_phasor L config) [0..<unat (pc_phasorCount config)] b off;
     (freq, off) \<leftarrow> rd_freq config b off;
     (rocof, off) \<leftarrow> rd_freq config b off;
     (analog, off) \<leftarrow> rd_each (rd_analog config) (unat (pc_analogCount config)) b off;
     (digital, off) \<leftarrow> rd_each rd_digital (unat (pc_digitalWordCount config)) b off;
     Some (pmuData\<lparr>pd_stat := stat, pd_phasors := phasors, pd_freq := freq, pd_rocof := rocof,
             pd_analog := analog, pd_digital := digital\<rparr>, off - base)
   }"

fun parse_data_pmus :: "Libm \<Rightarrow> buffer \<Rightarrow> nat \<Rightarrow> PmuConfig list \<Rightarrow> PmuData list option" where
  "parse_data_pmus L b bytes_used [] = Some []"
| "parse_data_pmus L b bytes_used (pmu # pmus) = do {
     (d, n) \<leftarrow> parsePmuData L b bytes_used pmu default_PmuData;
     ds \<leftarrow> parse_data_pmus L b (bytes_used + n) pmus;
     Some (d # ds)
   }"

text \<open>\<open>PmuDataFrame pdf;\<close>: the members without initial value are indeterminate until they are
  set, and are returned so when the function leaves early.\<close>

definition fresh_data_frame :: PmuDataFrame where
  "fresh_data_frame = \<lparr>pdf_idcode = 0, pdf_timeQuality = 0, pdf_parseResult = not_parsed, pdf_soc = 0,
     pdf_fracSec = 0, pdf_pmus = []\<rparr>"

definition parseDataFrame :: "Libm \<Rightarrow> buffer \<Rightarrow> nat \<Rightarrow> Config \<Rightarrow> PmuDataFrame option" where
  "parseDataFrame L b dataSize config = do {
     (pResult, frame) \<leftarrow> parseCommon b dataSize fresh_frame;
     let pdf = fresh_data_frame\<lparr>pdf_parseResult := pResult\<rparr>;
     if pResult \<noteq> parse_complete then Some pdf
     else if cf_type frame \<noteq> Pkt_data then Some (pdf\<lparr>pdf_parseResult := incorrect_type\<rparr>)
     else do {
       let pdf = pdf\<lparr>pdf_idcode := cf_sourceID frame\<rparr>;
       let pdf = (if pdf_idcode pdf \<noteq> cfg_idcode config then pdf\<lparr>pdf_parseResult := id_mismatch\<rparr> else pdf);
       let pdf = pdf\<lparr>pdf_timeQuality := ucast (drop_bit 24 (cf_fracSec frame)),
         pdf_fracSec := f64_div (f64_of_int (uint (cf_fracSec frame AND 0x00FFFFFF)))
           (f64_of_int (uint (cfg_timeBase config))),
         pdf_soc := cf_soc frame,
         pdf_pmus := replicate (length (cfg_pmus config)) default_PmuData\<rparr>;
       if dataSize < getExpectedDataPacketLength config
       then Some (pdf\<lparr>pdf_parseResult := config_mismatch\<rparr>)
       else do {
         pmus \<leftarrow> parse_data_pmus L b common_frame_size (cfg_pmus config);
         Some (pdf\<lparr>pdf_pmus := pmus\<rparr>)
       }
     }
   }"

section \<open>Generation\<close>

text \<open>The overload of \<open>addTime\<close> for data frames.\<close>

definition addTime_frac :: "buffer \<Rightarrow> u32 \<Rightarrow> f64 \<Rightarrow> u8 \<Rightarrow> Config \<Rightarrow> buffer option" where
  "addTime_frac b soc fracsec timeQuality config = do {
     frsec \<leftarrow> f64_to_u32 (f64_mul fracsec (f64_of_int (uint (cfg_timeBase config))));
     let frsec = (frsec AND 0x00FFFFFF) + push_bit 24 (ucast timeQuality);
     b \<leftarrow> store32 b 6 (htonl soc);
     store32 b 10 (htonl frsec)
   }"

definition wr_pair16 :: "u16 \<Rightarrow> u16 \<Rightarrow> nat \<Rightarrow> cursor \<Rightarrow> cursor option" where
  "wr_pair16 v w base = (\<lambda>(b, bytes_used). do {
     b \<leftarrow> store16 b (base + unat bytes_used) (htons v);
     b \<leftarrow> store16 b (base + unat bytes_used + 2) (htons w);
     Some (b, bytes_used + 4)
   })"

definition wr_pair32 :: "u32 \<Rightarrow> u32 \<Rightarrow> nat \<Rightarrow> cursor \<Rightarrow> cursor option" where
  "wr_pair32 v w base = (\<lambda>(b, bytes_used). do {
     b \<leftarrow> store32 b (base + unat bytes_used) (htonf v);
     b \<leftarrow> store32 b (base + unat bytes_used + 4) (htonf w);
     Some (b, bytes_used + 8)
   })"

text \<open>In integer rectangular format the code converts the imaginary part and then copies only the
  real part; \<open>bytes_used\<close> advances over both.\<close>

definition wr_phasor :: "Libm \<Rightarrow> PmuConfig \<Rightarrow> PmuData \<Rightarrow> nat \<Rightarrow> nat \<Rightarrow> cursor \<Rightarrow> cursor option" where
  "wr_phasor L config pmuData base ii = (\<lambda>(b, bytes_used).
     if pc_phasorFormat config = integer_format then do {
       ph \<leftarrow> idx (pd_phasors pmuData) ii;
       conversion \<leftarrow> idx (pc_phasorConversion config) ii;
       let conversion = f64_of_int (uint conversion);
       if pc_phasorCoordinates config = rectangular_phasor then do {
         real \<leftarrow> f64_to_i16 (f64_div (f64_mul (fst ph) lit_1e5) conversion);
         imag \<leftarrow> f64_to_i16 (f64_div (f64_mul (snd ph) lit_1e5) conversion);
         b \<leftarrow> store16 b (base + unat bytes_used) (ntohs real);
         Some (b, bytes_used + 4)
       } else do {
         mag \<leftarrow> f64_to_u16 (f64_div (f64_mul (lm_abs L ph) lit_1e5) conversion);
         angle \<leftarrow> f64_to_i16 (f64_mul (lm_arg L ph) lit_1e4);
         wr_pair16 mag angle base (b, bytes_used)
       }
     } else do {
       ph \<leftarrow> idx (pd_phasors pmuData) ii;
       if pc_phasorCoordinates config = rectangular_phasor
       then wr_pair32 (f32_of_f64 (fst ph)) (f32_of_f64 (snd ph)) base (b, bytes_used)
       else wr_pair32 (f32_of_f64 (lm_abs L ph)) (f32_of_f64 (lm_arg L ph)) base (b, bytes_used)
     })"

definition wr_freq :: "PmuConfig \<Rightarrow> PmuData \<Rightarrow> nat \<Rightarrow> cursor \<Rightarrow> cursor option" where
  "wr_freq config pmuData base s =
     (if pc_freqFormat config = floating_point_format
      then wr_pair32 (f32_of_f64 (pd_freq pmuData)) (f32_of_f64 (pd_rocof pmuData)) base s
      else do {
        freq \<leftarrow> f64_to_i16 (f64_mul (pd_freq pmuData) lit_1000);
        rocof \<leftarrow> f64_to_i16 (f64_mul (pd_rocof pmuData) lit_1000);
        wr_pair16 freq rocof base s
      })"

definition wr_analog :: "PmuConfig \<Rightarrow> PmuData \<Rightarrow> nat \<Rightarrow> nat \<Rightarrow> cursor \<Rightarrow> cursor option" where
  "wr_analog config pmuData base ii = (\<lambda>(b, bytes_used). do {
     analog \<leftarrow> idx (pd_analog pmuData) ii;
     if pc_analogFormat config = floating_point_format then do {
       b \<leftarrow> store32 b (base + unat bytes_used) (htonf (f32_of_f64 analog));
       Some (b, bytes_used + 4)
     } else do {
       analog \<leftarrow> f64_to_i16 analog;
       b \<leftarrow> store16 b (base + unat bytes_used) (htons analog);
       Some (b, bytes_used + 2)
     }
   })"

definition wr_digital :: "PmuData \<Rightarrow> nat \<Rightarrow> nat \<Rightarrow> cursor \<Rightarrow> cursor option" where
  "wr_digital pmuData base ii = (\<lambda>(b, bytes_used). do {
     dword \<leftarrow> idx (pd_digital pmuData) ii;
     b \<leftarrow> store16 b (base + unat bytes_used) (htons dword);
     Some (b, bytes_used + 2)
   })"

definition wr_stat :: "PmuData \<Rightarrow> nat \<Rightarrow> cursor \<Rightarrow> cursor option" where
  "wr_stat pmuData base = (\<lambda>(b, bytes_used). do {
     b \<leftarrow> store16 b base (htons (pd_stat pmuData));
     Some (b, bytes_used + 2)
   })"

definition generatePmuDataFrame :: "Libm \<Rightarrow> buffer \<Rightarrow> nat \<Rightarrow> PmuConfig \<Rightarrow> PmuData \<Rightarrow> cursor option" where
  "generatePmuDataFrame L b base config pmuData = do {
     s \<leftarrow> wr_stat pmuData base (b, 0);
     s \<leftarrow> mfold (wr_phasor L config pmuData base) [0..<unat (pc_phasorCount config)] s;
     s \<leftarrow> wr_freq config pmuData base s;
     s \<leftarrow> mfold (wr_analog config pmuData base) [0..<unat (pc_analogCount config)] s;
     mfold (wr_digital pmuData base) [0..<unat (pc_digitalWordCount config)] s
   }"

definition data_step :: "Libm \<Rightarrow> Config \<Rightarrow> PmuDataFrame \<Rightarrow> nat \<Rightarrow> cursor \<Rightarrow> cursor option" where
  "data_step L config frame ii = (\<lambda>(b, bytes_used). do {
     pmu \<leftarrow> idx (cfg_pmus config) ii;
     d \<leftarrow> idx (pdf_pmus frame) ii;
     (b, n) \<leftarrow> generatePmuDataFrame L b (unat bytes_used) pmu d;
     Some (b, bytes_used + n)
   })"

definition generateDataFrame :: "Libm \<Rightarrow> buffer \<Rightarrow> nat \<Rightarrow> Config \<Rightarrow> PmuDataFrame \<Rightarrow> (buffer \<times> u16) option" where
  "generateDataFrame L b dataSize config frame =
     (if dataSize < getExpectedDataPacketLength config then Some (b, 0)
      else do {
        b \<leftarrow> generateCommonFrame_cfg b (of_nat dataSize) config Pkt_data;
        b \<leftarrow> addTime_frac b (pdf_soc frame) (pdf_fracSec frame) (pdf_timeQuality frame) config;
        (b, bytes_used) \<leftarrow> mfold (data_step L config frame) [0..<length (pdf_pmus frame)] (b, 14);
        let bytes_used = bytes_used + 2;
        b \<leftarrow> addSize b bytes_used;
        b \<leftarrow> addCRC b 0 bytes_used;
        Some (b, bytes_used)
      })"

section \<open>Sizes\<close>

definition phasor_bytes :: "PmuConfig \<Rightarrow> nat" where
  "phasor_bytes c = (if pc_phasorFormat c = integer_format then 4 else 8)"

definition freq_bytes :: "PmuConfig \<Rightarrow> nat" where
  "freq_bytes c = (if pc_freqFormat c = integer_format then 2 else 4)"

definition analog_bytes :: "PmuConfig \<Rightarrow> nat" where
  "analog_bytes c = (if pc_analogFormat c = integer_format then 2 else 4)"

definition data_size :: "PmuConfig \<Rightarrow> nat" where
  "data_size c = 2 + phasor_bytes c * unat (pc_phasorCount c) + 2 * freq_bytes c +
     analog_bytes c * unat (pc_analogCount c) + 2 * unat (pc_digitalWordCount c)"

lemma expected_length: "getExpectedDataPacketLength config = 16 + sum_list (map data_size (cfg_pmus config))"
proof -
  have "foldl (\<lambda>dataSize pmu.
       let dataSize = dataSize + 2;
           dataSize = dataSize + 2 * (if pc_phasorFormat pmu = integer_format then 2 else 4) * unat (pc_phasorCount pmu);
           dataSize = dataSize + 2 * (if pc_freqFormat pmu = integer_format then 2 else 4);
           dataSize = dataSize + (if pc_analogFormat pmu = integer_format then 2 else 4) * unat (pc_analogCount pmu)
       in dataSize + unat (pc_digitalWordCount pmu) * 2) n ps = n + sum_list (map data_size ps)" for n ps
    by (induction ps arbitrary: n)
      (simp_all add: data_size_def phasor_bytes_def freq_bytes_def analog_bytes_def Let_def)
  then show ?thesis by (simp add: getExpectedDataPacketLength_def)
qed

section \<open>Parsing stays inside the packet\<close>

lemma bit1_neq0: "(x :: 1 word) \<noteq> 0 \<longleftrightarrow> x = 1"
  using bit1_cases[of x] by auto

lemma rd_ntohs_defined: "off + 2 \<le> length b \<Longrightarrow> \<exists>v. rd_ntohs b off = Some v"
  by (simp add: rd_ntohs_def load16_def)

lemma rd_ntohf_defined: "off + 4 \<le> length b \<Longrightarrow> \<exists>v. rd_ntohf b off = Some v"
  by (simp add: rd_ntohf_def load32_def)

text \<open>What the reader of integer phasors needs of the configuration.\<close>

definition conversions_given :: "PmuConfig \<Rightarrow> bool" where
  "conversions_given c \<longleftrightarrow>
     (pc_phasorFormat c = integer_format \<longrightarrow> unat (pc_phasorCount c) \<le> length (pc_phasorConversion c))"

lemma rd_phasor_defined:
  assumes "off + phasor_bytes c \<le> length b" "conversions_given c" "ii < unat (pc_phasorCount c)"
  shows "\<exists>x. rd_phasor L c ii b off = Some (x, off + phasor_bytes c)"
proof (cases "pc_phasorFormat c = integer_format")
  case True
  then obtain v w where "rd_ntohs b off = Some v" "rd_ntohs b (off + 2) = Some w"
    using assms(1) rd_ntohs_defined[of off b] rd_ntohs_defined[of "off + 2" b] by (auto simp: phasor_bytes_def)
  then show ?thesis using True assms by (auto simp: rd_phasor_def phasor_bytes_def conversions_given_def Let_def)
next
  case False
  then obtain v w where "rd_ntohf b off = Some v" "rd_ntohf b (off + 4) = Some w"
    using assms(1) rd_ntohf_defined[of off b] rd_ntohf_defined[of "off + 4" b] by (auto simp: phasor_bytes_def)
  then show ?thesis using False by (auto simp: rd_phasor_def phasor_bytes_def)
qed

lemma rd_freq_defined:
  assumes "off + freq_bytes c \<le> length b"
  shows "\<exists>x. rd_freq c b off = Some (x, off + freq_bytes c)"
  using assms rd_ntohs_defined[of off b] rd_ntohf_defined[of off b] bit1_neq0[of "pc_freqFormat c"]
  by (auto simp: rd_freq_def freq_bytes_def split: if_splits)

lemma rd_analog_defined:
  assumes "off + analog_bytes c \<le> length b"
  shows "\<exists>x. rd_analog c b off = Some (x, off + analog_bytes c)"
  using assms rd_ntohs_defined[of off b] rd_ntohf_defined[of off b] bit1_neq0[of "pc_analogFormat c"]
  by (auto simp: rd_analog_def analog_bytes_def split: if_splits)

lemma rd_digital_defined: "off + 2 \<le> length b \<Longrightarrow> \<exists>x. rd_digital b off = Some (x, off + 2)"
  using rd_ntohs_defined[of off b] by (auto simp: rd_digital_def)

lemma rd_indexed_defined:
  assumes "\<And>ii off. ii \<in> set iis \<Longrightarrow> off + k \<le> length b \<Longrightarrow> \<exists>x. rd ii b off = Some (x, off + k)"
    and "off + k * length iis \<le> length b"
  shows "\<exists>xs. rd_indexed rd iis b off = Some (xs, off + k * length iis)"
  using assms
proof (induction iis arbitrary: off)
  case (Cons i iis)
  from Cons.prems(1)[of i off] Cons.prems(2) obtain x where x: "rd i b off = Some (x, off + k)" by auto
  have "\<exists>xs. rd_indexed rd iis b (off + k) = Some (xs, off + k + k * length iis)"
    using Cons.prems by (intro Cons.IH) simp_all
  with x show ?case by (auto simp: add.assoc)
qed simp

lemma rd_each_indexed: "rd_each rd n b off = rd_indexed (\<lambda>_. rd) [0..<n] b off"
proof -
  have "rd_each rd (length iis) b off = rd_indexed (\<lambda>_. rd) iis b off" for iis :: "nat list"
    by (induction iis arbitrary: off) simp_all
  from this[of "[0..<n]"] show ?thesis by simp
qed

lemma parsePmuData_defined:
  assumes "conversions_given c" "base + data_size c \<le> length b"
  shows "\<exists>d. parsePmuData L b base c old = Some (d, data_size c)"
proof -
  let ?o1 = "base + 2 + phasor_bytes c * unat (pc_phasorCount c)"
  let ?o2 = "?o1 + freq_bytes c" and ?o3 = "?o1 + freq_bytes c + freq_bytes c"
  let ?o4 = "?o3 + analog_bytes c * unat (pc_analogCount c)"
  have le: "?o4 + 2 * unat (pc_digitalWordCount c) \<le> length b" "base + 2 \<le> length b"
    "?o1 \<le> length b" "?o2 \<le> length b" "?o3 \<le> length b" "?o4 \<le> length b"
    using assms(2) by (simp_all add: data_size_def)
  obtain st where "rd_ntohs b base = Some st" using rd_ntohs_defined le by blast
  moreover obtain ps where "rd_indexed (rd_phasor L c) [0..<unat (pc_phasorCount c)] b (base + 2) = Some (ps, ?o1)"
    using rd_indexed_defined[of "[0..<unat (pc_phasorCount c)]" "phasor_bytes c" b "rd_phasor L c" "base + 2"]
      rd_phasor_defined[OF _ assms(1)] le by auto
  moreover obtain f where "rd_freq c b ?o1 = Some (f, ?o2)" using rd_freq_defined le by blast
  moreover obtain g where "rd_freq c b ?o2 = Some (g, ?o3)" using rd_freq_defined le by blast
  moreover obtain as where "rd_each (rd_analog c) (unat (pc_analogCount c)) b ?o3 = Some (as, ?o4)"
    using rd_indexed_defined[of "[0..<unat (pc_analogCount c)]" "analog_bytes c" b "\<lambda>_. rd_analog c" ?o3]
      rd_analog_defined le by (auto simp: rd_each_indexed)
  moreover obtain ds where "rd_each rd_digital (unat (pc_digitalWordCount c)) b ?o4 =
      Some (ds, ?o4 + 2 * unat (pc_digitalWordCount c))"
    using rd_indexed_defined[of "[0..<unat (pc_digitalWordCount c)]" 2 b "\<lambda>_. rd_digital" ?o4]
      rd_digital_defined le by (auto simp: rd_each_indexed)
  ultimately show ?thesis
    by (simp add: parsePmuData_def data_size_def)
qed

lemma parse_data_pmus_defined:
  assumes "list_all conversions_given ps" "off + sum_list (map data_size ps) \<le> length b"
  shows "\<exists>ds. parse_data_pmus L b off ps = Some ds \<and> length ds = length ps"
  using assms
proof (induction ps arbitrary: off)
  case (Cons p ps)
  then obtain d where "parsePmuData L b off p default_PmuData = Some (d, data_size p)"
    using parsePmuData_defined[of p off b L default_PmuData] by auto
  with Cons.IH[of "off + data_size p"] Cons.prems show ?case by (auto simp: add.assoc)
qed simp

text \<open>C32: parsing a data frame never reads outside the packet.  For every configuration whose
  integer phasors have conversion factors, and every byte sequence that gets through
  \<open>parseCommon\<close>, the parser returns; and a result with values has one entry per configured PMU.\<close>

theorem parseDataFrame_safe:
  assumes "list_all conversions_given (cfg_pmus config)" "dataSize \<le> length b"
    and "parseCommon b dataSize fresh_frame \<noteq> None"
  shows "\<exists>pdf. parseDataFrame L b dataSize config = Some pdf \<and>
    (pdf_parseResult pdf \<in> {parse_complete, id_mismatch} \<longrightarrow>
       length (pdf_pmus pdf) = length (cfg_pmus config))"
proof -
  obtain r g where "parseCommon b dataSize fresh_frame = Some (r, g)" using assms(3) by auto
  moreover have "\<exists>ds. parse_data_pmus L b 14 (cfg_pmus config) = Some ds \<and> length ds = length (cfg_pmus config)"
    if "\<not> dataSize < getExpectedDataPacketLength config"
    using that assms(1,2) by (intro parse_data_pmus_defined) (simp_all add: expected_length)
  moreover have "r \<noteq> parse_complete \<Longrightarrow> r \<noteq> id_mismatch"
    using calculation(1) assms by (auto simp: parseCommon_def Let_def split: Option.bind_splits if_splits)
  ultimately show ?thesis
    by (cases "dataSize < getExpectedDataPacketLength config") (auto simp: parseDataFrame_def Let_def)
qed

section \<open>What a data frame carries\<close>

text \<open>
  The bytes of the fields, \<open>None\<close> where a conversion to an integer is undefined or a value is
  missing, and the values that come out at the other end.  A PMU is \<open>sendable\<close> when its
  phasors are not integer rectangular, the format whose imaginary parts are never stored.
\<close>

definition enc_phasor_data :: "Libm \<Rightarrow> PmuConfig \<Rightarrow> PmuData \<Rightarrow> nat \<Rightarrow> u8 list option" where
  "enc_phasor_data L c d ii = do {
     ph \<leftarrow> idx (pd_phasors d) ii;
     if pc_phasorFormat c = integer_format then do {
       conversion \<leftarrow> idx (pc_phasorConversion c) ii;
       mag \<leftarrow> f64_to_u16 (f64_div (f64_mul (lm_abs L ph) lit_1e5) (f64_of_int (uint conversion)));
       angle \<leftarrow> f64_to_i16 (f64_mul (lm_arg L ph) lit_1e4);
       Some (be16 mag @ be16 angle)
     } else if pc_phasorCoordinates c = rectangular_phasor
       then Some (be32 (f32_of_f64 (fst ph)) @ be32 (f32_of_f64 (snd ph)))
       else Some (be32 (f32_of_f64 (lm_abs L ph)) @ be32 (f32_of_f64 (lm_arg L ph)))
   }"

definition enc_freq_data :: "PmuConfig \<Rightarrow> PmuData \<Rightarrow> u8 list option" where
  "enc_freq_data c d =
     (if pc_freqFormat c = floating_point_format
      then Some (be32 (f32_of_f64 (pd_freq d)) @ be32 (f32_of_f64 (pd_rocof d)))
      else do {
        freq \<leftarrow> f64_to_i16 (f64_mul (pd_freq d) lit_1000);
        rocof \<leftarrow> f64_to_i16 (f64_mul (pd_rocof d) lit_1000);
        Some (be16 freq @ be16 rocof)
      })"

definition enc_analog_data :: "PmuConfig \<Rightarrow> PmuData \<Rightarrow> nat \<Rightarrow> u8 list option" where
  "enc_analog_data c d ii = do {
     analog \<leftarrow> idx (pd_analog d) ii;
     if pc_analogFormat c = floating_point_format then Some (be32 (f32_of_f64 analog))
     else do { analog \<leftarrow> f64_to_i16 analog; Some (be16 analog) }
   }"

definition enc_digital_data :: "PmuData \<Rightarrow> nat \<Rightarrow> u8 list option" where
  "enc_digital_data d ii = do { w \<leftarrow> idx (pd_digital d) ii; Some (be16 w) }"

definition data_wire :: "Libm \<Rightarrow> PmuConfig \<Rightarrow> PmuData \<Rightarrow> u8 list option" where
  "data_wire L c d = do {
     phasors \<leftarrow> those (map (enc_phasor_data L c d) [0..<unat (pc_phasorCount c)]);
     freq \<leftarrow> enc_freq_data c d;
     analogs \<leftarrow> those (map (enc_analog_data c d) [0..<unat (pc_analogCount c)]);
     digitals \<leftarrow> those (map (enc_digital_data d) [0..<unat (pc_digitalWordCount c)]);
     Some (be16 (pd_stat d) @ concat phasors @ freq @ concat analogs @ concat digitals)
   }"

definition stores_imag :: "PmuConfig \<Rightarrow> bool" where
  "stores_imag c \<longleftrightarrow> \<not> (pc_phasorFormat c = integer_format \<and> pc_phasorCoordinates c = rectangular_phasor)"

text \<open>The value a double has after passing through the wire, for each format.\<close>

definition via_f32 :: "f64 \<Rightarrow> f64" where
  "via_f32 x = f64_of_f32 (f32_of_f64 x)"

definition via_i16 :: "f64 \<Rightarrow> int" where
  "via_i16 x = (case f64_to_i16 x of None \<Rightarrow> 0 | Some w \<Rightarrow> sint w)"

definition via_u16 :: "f64 \<Rightarrow> int" where
  "via_u16 x = (case f64_to_u16 x of None \<Rightarrow> 0 | Some w \<Rightarrow> uint w)"

definition received_phasor :: "Libm \<Rightarrow> PmuConfig \<Rightarrow> f64 \<times> f64 \<Rightarrow> u32 \<Rightarrow> f64 \<times> f64" where
  "received_phasor L c ph conversion =
     (if pc_phasorFormat c = integer_format
      then lm_polar L
        (f64_mul (f64_mul (f64_of_int (via_u16 (f64_div (f64_mul (lm_abs L ph) lit_1e5)
          (f64_of_int (uint conversion))))) lit_1e_m5) (f64_of_int (uint conversion)))
        (f64_div (f64_of_int (via_i16 (f64_mul (lm_arg L ph) lit_1e4))) lit_1e4)
      else if pc_phasorCoordinates c = rectangular_phasor then (via_f32 (fst ph), via_f32 (snd ph))
      else lm_polar L (via_f32 (lm_abs L ph)) (via_f32 (lm_arg L ph)))"

definition received_freq :: "PmuConfig \<Rightarrow> f64 \<Rightarrow> f64" where
  "received_freq c x = (if pc_freqFormat c = floating_point_format then via_f32 x
     else f64_div (f64_of_int (via_i16 (f64_mul x lit_1000))) lit_1000)"

definition received_analog :: "PmuConfig \<Rightarrow> f64 \<Rightarrow> f64" where
  "received_analog c x = (if pc_analogFormat c = floating_point_format then via_f32 x
     else f64_of_f32 (f32_of_int (via_i16 x)))"

definition received :: "Libm \<Rightarrow> PmuConfig \<Rightarrow> PmuData \<Rightarrow> PmuData" where
  "received L c d = d\<lparr>
     pd_freq := received_freq c (pd_freq d), pd_rocof := received_freq c (pd_rocof d),
     pd_phasors := map (\<lambda>ii. received_phasor L c (pd_phasors d ! ii) (pc_phasorConversion c ! ii))
       [0..<unat (pc_phasorCount c)],
     pd_analog := map (received_analog c) (take (unat (pc_analogCount c)) (pd_analog d)),
     pd_digital := take (unat (pc_digitalWordCount c)) (pd_digital d)\<rparr>"

section \<open>The generator writes the wire format\<close>

lemma emits_those:
  assumes "those (map enc xs) = Some bss"
    and "\<And>x bs. x \<in> set xs \<Longrightarrow> enc x = Some bs \<Longrightarrow> emits base (f x) bs"
  shows "emits base (mfold f xs) (concat bss)"
  using assms
proof (induction xs arbitrary: bss)
  case Nil
  then show ?case by (simp add: emits_def)
next
  case (Cons x xs)
  then obtain bs bss' where b: "enc x = Some bs" "those (map enc xs) = Some bss'" "bss = bs # bss'"
    by (auto split: option.splits)
  have "emits base (\<lambda>s. do { s' \<leftarrow> f x s; mfold f xs s' }) (bs @ concat bss')"
    using Cons b by (intro emits_seq) simp_all
  with b(3) show ?case by (simp add: emits_def)
qed

lemma emits_pair16: "emits base (wr_pair16 v w base) (be16 v @ be16 w)"
proof (rule emitsI)
  fix b :: buffer and used :: u16
  assume "base + unat used + length (be16 v @ be16 w) \<le> length b"
  then show "wr_pair16 v w base (b, used) =
      Some (overlay (base + unat used) (be16 v @ be16 w) b, used + of_nat (length (be16 v @ be16 w)))"
    using overlay_append[of "base + unat used" "be16 v" "be16 w" b] by (simp add: wr_pair16_def)
qed

lemma emits_pair32: "emits base (wr_pair32 v w base) (be32 v @ be32 w)"
proof (rule emitsI)
  fix b :: buffer and used :: u16
  assume "base + unat used + length (be32 v @ be32 w) \<le> length b"
  then show "wr_pair32 v w base (b, used) =
      Some (overlay (base + unat used) (be32 v @ be32 w) b, used + of_nat (length (be32 v @ be32 w)))"
    using overlay_append[of "base + unat used" "be32 v" "be32 w" b] by (simp add: wr_pair32_def)
qed

lemma emits_phasor_data:
  assumes "stores_imag c" "enc_phasor_data L c d ii = Some bs"
  shows "emits base (wr_phasor L c d base ii) bs"
proof (rule emitsI)
  fix b :: buffer and used :: u16
  assume len: "base + unat used + length bs \<le> length b" "unat used + length bs < 65536"
  obtain ph where ph: "idx (pd_phasors d) ii = Some ph"
    using assms(2) by (auto simp: enc_phasor_data_def split: Option.bind_splits)
  show "wr_phasor L c d base ii (b, used) =
      Some (overlay (base + unat used) bs b, used + of_nat (length bs))"
  proof (cases "pc_phasorFormat c = integer_format")
    case True
    then have polar: "pc_phasorCoordinates c \<noteq> rectangular_phasor" using assms(1) by (simp add: stores_imag_def)
    obtain cv m a where "idx (pc_phasorConversion c) ii = Some cv"
        "f64_to_u16 (f64_div (f64_mul (lm_abs L ph) lit_1e5) (f64_of_int (uint cv))) = Some m"
        "f64_to_i16 (f64_mul (lm_arg L ph) lit_1e4) = Some a" "bs = be16 m @ be16 a"
      using assms(2) True ph by (auto simp: enc_phasor_data_def split: Option.bind_splits)
    then show ?thesis
      using True polar ph emitsD[OF emits_pair16, of base used m a b] len
      by (simp add: wr_phasor_def)
  next
    case False
    then show ?thesis
      using assms(2) ph len emitsD[OF emits_pair32, of base used _ _ b]
      by (auto simp: wr_phasor_def enc_phasor_data_def split: if_splits)
  qed
qed

lemma emits_freq_data: "enc_freq_data c d = Some bs \<Longrightarrow> emits base (wr_freq c d base) bs"
  using emits_pair16[of base] emits_pair32[of base]
  by (auto simp: wr_freq_def[abs_def] enc_freq_data_def split: if_splits Option.bind_splits)

lemma emits_analog_data: "enc_analog_data c d ii = Some bs \<Longrightarrow> emits base (wr_analog c d base ii) bs"
  by (auto simp: emits_def wr_analog_def enc_analog_data_def split: if_splits Option.bind_splits)

lemma emits_digital_data: "enc_digital_data d ii = Some bs \<Longrightarrow> emits base (wr_digital d base ii) bs"
  by (auto simp: emits_def wr_digital_def enc_digital_data_def split: Option.bind_splits)

lemma length_those_concat:
  assumes "those (map enc xs) = Some bss" "\<And>x bs. enc x = Some bs \<Longrightarrow> length bs = k"
  shows "length (concat bss) = k * length xs"
  using assms(1)
proof (induction xs arbitrary: bss)
  case (Cons x xs)
  then show ?case by (auto dest: assms(2) split: option.splits)
qed simp

lemma length_enc_data:
  "enc_phasor_data L c d ii = Some bs \<Longrightarrow> length bs = phasor_bytes c"
  "enc_freq_data c d = Some bs \<Longrightarrow> length bs = 2 * freq_bytes c"
  "enc_analog_data c d ii = Some bs \<Longrightarrow> length bs = analog_bytes c"
  "enc_digital_data d ii = Some bs \<Longrightarrow> length bs = 2"
  using bit1_cases[of "pc_freqFormat c"] bit1_cases[of "pc_analogFormat c"]
  by (auto simp: enc_phasor_data_def enc_freq_data_def enc_analog_data_def enc_digital_data_def
      phasor_bytes_def freq_bytes_def analog_bytes_def split: Option.bind_splits if_splits)

lemma data_wireE:
  assumes "data_wire L c d = Some bs"
  obtains ps f as ds where
    "those (map (enc_phasor_data L c d) [0..<unat (pc_phasorCount c)]) = Some ps"
    "enc_freq_data c d = Some f"
    "those (map (enc_analog_data c d) [0..<unat (pc_analogCount c)]) = Some as"
    "those (map (enc_digital_data d) [0..<unat (pc_digitalWordCount c)]) = Some ds"
    "bs = be16 (pd_stat d) @ concat ps @ f @ concat as @ concat ds"
    "length (concat ps) = phasor_bytes c * unat (pc_phasorCount c)" "length f = 2 * freq_bytes c"
    "length (concat as) = analog_bytes c * unat (pc_analogCount c)"
    "length (concat ds) = 2 * unat (pc_digitalWordCount c)"
proof -
  obtain ps f as ds where w:
    "those (map (enc_phasor_data L c d) [0..<unat (pc_phasorCount c)]) = Some ps"
    "enc_freq_data c d = Some f"
    "those (map (enc_analog_data c d) [0..<unat (pc_analogCount c)]) = Some as"
    "those (map (enc_digital_data d) [0..<unat (pc_digitalWordCount c)]) = Some ds"
    "bs = be16 (pd_stat d) @ concat ps @ f @ concat as @ concat ds"
    using assms by (auto simp: data_wire_def split: Option.bind_splits)
  show thesis
    using that[OF w] length_those_concat[OF w(1) length_enc_data(1)] length_enc_data(2)[OF w(2)]
      length_those_concat[OF w(3) length_enc_data(3)] length_those_concat[OF w(4) length_enc_data(4)]
    by simp
qed

lemma length_data_wire: "data_wire L c d = Some bs \<Longrightarrow> length bs = data_size c"
  by (elim data_wireE) (simp add: data_size_def)

lemma generatePmuDataFrame_wire:
  assumes wire: "data_wire L c d = Some bs" and ok: "stores_imag c"
    and len: "base + length bs \<le> length b" "length bs < 65536"
  shows "generatePmuDataFrame L b base c d = Some (overlay base bs b, of_nat (length bs))"
proof -
  from wire obtain ps f as ds where w:
    "those (map (enc_phasor_data L c d) [0..<unat (pc_phasorCount c)]) = Some ps"
    "enc_freq_data c d = Some f"
    "those (map (enc_analog_data c d) [0..<unat (pc_analogCount c)]) = Some as"
    "those (map (enc_digital_data d) [0..<unat (pc_digitalWordCount c)]) = Some ds"
    "bs = be16 (pd_stat d) @ concat ps @ f @ concat as @ concat ds"
    by (rule data_wireE)
  let ?rest = "\<lambda>s. do {
     s \<leftarrow> mfold (wr_phasor L c d base) [0..<unat (pc_phasorCount c)] s;
     s \<leftarrow> wr_freq c d base s;
     s \<leftarrow> mfold (wr_analog c d base) [0..<unat (pc_analogCount c)] s;
     mfold (wr_digital d base) [0..<unat (pc_digitalWordCount c)] s }"
  let ?r = "concat ps @ f @ concat as @ concat ds"
  have rest: "emits base ?rest ?r"
    by (intro emits_seq emits_those[OF w(1)] emits_those[OF w(3)] emits_those[OF w(4)]
        emits_freq_data[OF w(2)] emits_phasor_data[OF ok] emits_analog_data emits_digital_data)
  have stat: "wr_stat d base (b, 0) = Some (overlay base (be16 (pd_stat d)) b, 2)"
    using len by (simp add: wr_stat_def w(5))
  have "generatePmuDataFrame L b base c d = ?rest (overlay base (be16 (pd_stat d)) b, 2)"
    by (simp add: generatePmuDataFrame_def stat)
  also have "\<dots> = Some (overlay (base + 2) ?r (overlay base (be16 (pd_stat d)) b), 2 + of_nat (length ?r))"
    using emitsD[OF rest, of 2 "overlay base (be16 (pd_stat d)) b"] len by (simp add: w(5))
  also have "overlay (base + 2) ?r (overlay base (be16 (pd_stat d)) b) = overlay base bs b"
    using overlay_append[of base "be16 (pd_stat d)" ?r b] len by (simp add: w(5))
  finally show ?thesis by (simp add: w(5))
qed

section \<open>The parser reads the wire format\<close>

lemma rd_ntohs_be16 [parse_rules]: "holds_at b off (be16 v) \<Longrightarrow> rd_ntohs b off = Some v"
  by (simp add: rd_ntohs_def load16_holds)

lemma rd_ntohf_be32 [parse_rules]: "holds_at b off (be32 v) \<Longrightarrow> rd_ntohf b off = Some v"
  by (simp add: rd_ntohf_def load32_holds)

lemma idx_eq: "idx xs i = Some x \<longleftrightarrow> i < length xs \<and> x = xs ! i"
  by (auto simp: idx_def)

lemma rd_phasor_wire:
  assumes "stores_imag c" "enc_phasor_data L c d ii = Some bs" "holds_at b off bs"
  shows "rd_phasor L c ii b off =
    Some (received_phasor L c (pd_phasors d ! ii) (pc_phasorConversion c ! ii), off + length bs)"
  using assms
  by (auto simp: rd_phasor_def enc_phasor_data_def received_phasor_def stores_imag_def holds_at_append
      rd_ntohs_be16 rd_ntohf_be32 via_u16_def via_i16_def via_f32_def idx_eq Let_def
      split: if_splits Option.bind_splits)

lemma rd_freq_wire:
  assumes "enc_freq_data c d = Some bs" "holds_at b off bs"
  shows "rd_freq c b off = Some (received_freq c (pd_freq d), off + freq_bytes c)"
    "rd_freq c b (off + freq_bytes c) = Some (received_freq c (pd_rocof d), off + 2 * freq_bytes c)"
  using assms bit1_cases[of "pc_freqFormat c"]
  by (auto simp: rd_freq_def enc_freq_data_def received_freq_def freq_bytes_def holds_at_append
      rd_ntohs_be16 rd_ntohf_be32 via_i16_def via_f32_def split: if_splits Option.bind_splits)

lemma rd_analog_wire:
  assumes "enc_analog_data c d ii = Some bs" "holds_at b off bs"
  shows "rd_analog c b off = Some (received_analog c (pd_analog d ! ii), off + length bs)"
  using assms
  by (auto simp: rd_analog_def enc_analog_data_def received_analog_def idx_eq
      rd_ntohs_be16 rd_ntohf_be32 via_i16_def via_f32_def split: if_splits Option.bind_splits)

lemma rd_digital_wire:
  assumes "enc_digital_data d ii = Some bs" "holds_at b off bs"
  shows "rd_digital b off = Some (pd_digital d ! ii, off + length bs)"
  using assms by (auto simp: rd_digital_def enc_digital_data_def idx_eq rd_ntohs_be16 split: Option.bind_splits)

lemma rd_indexed_those:
  assumes "those (map enc iis) = Some bss" "holds_at b off (concat bss)"
    and "\<And>ii bs off. ii \<in> set iis \<Longrightarrow> enc ii = Some bs \<Longrightarrow> holds_at b off bs \<Longrightarrow> rd ii b off = Some (g ii, off + length bs)"
  shows "rd_indexed rd iis b off = Some (map g iis, off + length (concat bss))"
  using assms
proof (induction iis arbitrary: bss off)
  case (Cons i iis)
  then obtain bs bss' where b: "enc i = Some bs" "those (map enc iis) = Some bss'" "bss = bs # bss'"
    by (auto split: option.splits)
  have "rd_indexed rd iis b (off + length bs) = Some (map g iis, off + length bs + length (concat bss'))"
    using Cons b by (intro Cons.IH) (simp_all add: holds_at_append)
  with Cons.prems(3)[of i bs off] Cons.prems(2) b show ?case
    by (simp add: holds_at_append add.assoc)
qed simp

lemma those_length:
  assumes "those (map enc [0..<n]) = Some bss" "\<And>ii bs. enc ii = Some bs \<Longrightarrow> ii < m"
  shows "n \<le> m"
proof (cases n)
  case (Suc k)
  have "enc k \<noteq> None"
  proof
    assume "enc k = None"
    moreover have "those (map enc xs) = None" if "k \<in> set xs" "enc k = None" for xs
      using that by (induction xs) (auto split: option.splits)
    ultimately show False using assms(1) Suc by (metis atLeastLessThan_iff atLeastLessThan_upt lessI option.distinct(1) zero_le)
  qed
  then show ?thesis using assms(2) Suc by fastforce
qed simp

lemma enc_in_range:
  "enc_analog_data c d ii = Some bs \<Longrightarrow> ii < length (pd_analog d)"
  "enc_digital_data d ii = Some bs \<Longrightarrow> ii < length (pd_digital d)"
  by (auto simp: enc_analog_data_def enc_digital_data_def idx_eq split: Option.bind_splits)

lemma parsePmuData_wire:
  assumes wire: "data_wire L c d = Some bs" and ok: "stores_imag c" and h: "holds_at b base bs"
  shows "parsePmuData L b base c old = Some (received L c d, length bs)"
proof -
  let ?n = "unat (pc_phasorCount c)" and ?a = "unat (pc_analogCount c)" and ?w = "unat (pc_digitalWordCount c)"
  from wire obtain ps f as ds where w:
    "those (map (enc_phasor_data L c d) [0..<?n]) = Some ps"
    "enc_freq_data c d = Some f"
    "those (map (enc_analog_data c d) [0..<?a]) = Some as"
    "those (map (enc_digital_data d) [0..<?w]) = Some ds"
    "bs = be16 (pd_stat d) @ concat ps @ f @ concat as @ concat ds" and lf: "length f = 2 * freq_bytes c"
    by (rule data_wireE)
  let ?o1 = "base + 2" and ?o2 = "base + 2 + length (concat ps)"
  let ?o3 = "?o2 + 2 * freq_bytes c"
  let ?o4 = "?o3 + length (concat as)"
  have parts: "holds_at b base (be16 (pd_stat d))" "holds_at b ?o1 (concat ps)" "holds_at b ?o2 f"
    "holds_at b ?o3 (concat as)" "holds_at b ?o4 (concat ds)"
    using h lf by (simp_all add: w(5) holds_at_append add.assoc)
  have le: "?a \<le> length (pd_analog d)" "?w \<le> length (pd_digital d)"
    using those_length[OF w(3) enc_in_range(1)] those_length[OF w(4) enc_in_range(2)] by simp_all
  have phasors: "rd_indexed (rd_phasor L c) [0..<?n] b ?o1 = Some (map (\<lambda>ii.
      received_phasor L c (pd_phasors d ! ii) (pc_phasorConversion c ! ii)) [0..<?n], ?o2)"
    by (rule rd_indexed_those[OF w(1) parts(2)]) (rule rd_phasor_wire[OF ok])
  have "rd_each (rd_analog c) ?a b ?o3 = Some (map (\<lambda>ii. received_analog c (pd_analog d ! ii)) [0..<?a], ?o4)"
    unfolding rd_each_indexed by (rule rd_indexed_those[OF w(3) parts(4)]) (rule rd_analog_wire)
  moreover have "map (\<lambda>ii. received_analog c (pd_analog d ! ii)) [0..<?a] = map (received_analog c) (take ?a (pd_analog d))"
    using le by (intro nth_equalityI) simp_all
  moreover have "rd_each rd_digital ?w b ?o4 = Some (map (\<lambda>ii. pd_digital d ! ii) [0..<?w], ?o4 + length (concat ds))"
    unfolding rd_each_indexed by (rule rd_indexed_those[OF w(4) parts(5)]) (rule rd_digital_wire)
  moreover have "map (\<lambda>ii. pd_digital d ! ii) [0..<?w] = take ?w (pd_digital d)"
    using le by (intro nth_equalityI) simp_all
  moreover have "?o2 + freq_bytes c + freq_bytes c = ?o3" by simp
  ultimately show ?thesis
    using phasors rd_freq_wire[OF w(2) parts(3)] rd_ntohs_be16[OF parts(1)] lf
    by (simp add: parsePmuData_def received_def w(5))
qed

section \<open>Whole frames\<close>

text \<open>Data that fit a configuration: one entry per PMU, every conversion defined, and no phasors in integer rectangular
  format, of which the generator writes the real parts only.\<close>

definition sendable :: "Libm \<Rightarrow> PmuConfig list \<Rightarrow> PmuData list \<Rightarrow> bool" where
  "sendable L cs ds \<longleftrightarrow> list_all2 (\<lambda>c d. stores_imag c \<and> data_wire L c d \<noteq> None) cs ds"

definition pmus_wire :: "Libm \<Rightarrow> PmuConfig list \<Rightarrow> PmuData list \<Rightarrow> u8 list" where
  "pmus_wire L cs ds = concat (map (\<lambda>(c, d). the (data_wire L c d)) (zip cs ds))"

lemma length_pmus_wire:
  "sendable L cs ds \<Longrightarrow> length (pmus_wire L cs ds) = sum_list (map data_size cs)"
  unfolding sendable_def
  by (induction rule: list_all2_induct) (auto simp: pmus_wire_def length_data_wire)

lemma parse_data_pmus_wire:
  assumes "sendable L cs ds" "holds_at b off (pmus_wire L cs ds)"
  shows "parse_data_pmus L b off cs = Some (map2 (received L) cs ds)"
  using assms unfolding sendable_def
proof (induction arbitrary: off rule: list_all2_induct)
  case (Cons c cs d ds)
  then obtain bs where bs: "data_wire L c d = Some bs" by auto
  with Cons have "holds_at b off bs" "holds_at b (off + length bs) (pmus_wire L cs ds)"
    by (simp_all add: pmus_wire_def holds_at_append)
  with Cons parsePmuData_wire[OF bs] show ?case by simp
qed simp

lemma emits_data_pmu:
  assumes "data_wire L c d = Some bs" "stores_imag c"
  shows "emits 0 (\<lambda>(b, used). do { (b, n) \<leftarrow> generatePmuDataFrame L b (unat used) c d; Some (b, used + n) }) bs"
  using generatePmuDataFrame_wire[OF assms] by (simp add: emits_def)

lemma emits_data_steps:
  assumes "sendable L (cfg_pmus config) (pdf_pmus frame)"
  shows "emits 0 (mfold (data_step L config frame) [0..<length (pdf_pmus frame)])
    (pmus_wire L (cfg_pmus config) (pdf_pmus frame))"
proof -
  let ?cs = "cfg_pmus config" and ?ds = "pdf_pmus frame"
  let ?step = "\<lambda>(c, d) (b, used). do { (b, n) \<leftarrow> generatePmuDataFrame L b (unat used) c d; Some (b, used + n) }"
  have len: "length ?cs = length ?ds" using assms by (simp add: sendable_def list_all2_lengthD)
  have zip: "zip ?cs ?ds = map (\<lambda>i. (?cs ! i, ?ds ! i)) [0..<length ?ds]"
    using len by (intro nth_equalityI) simp_all
  have "mfold (data_step L config frame) [0..<length ?ds] = mfold ?step (zip ?cs ?ds)"
    unfolding zip mfold_map by (intro ext mfold_cong_set) (auto simp: data_step_def len)
  moreover have "emits 0 (mfold ?step (zip ?cs ?ds)) (pmus_wire L ?cs ?ds)"
    unfolding pmus_wire_def
  proof (rule emits_mfold)
    fix x assume "x \<in> set (zip ?cs ?ds)"
    then obtain i where i: "i < length ?ds" "x = (?cs ! i, ?ds ! i)" using len by (auto simp: set_zip)
    then obtain bs where "stores_imag (?cs ! i)" "data_wire L (?cs ! i) (?ds ! i) = Some bs"
      using assms len by (auto simp: sendable_def list_all2_conv_all_nth)
    then show "emits 0 (?step x) (case x of (c, d) \<Rightarrow> the (data_wire L c d))"
      using emits_data_pmu i(2) by simp
  qed
  ultimately show ?thesis by simp
qed

lemma time_word:
  "drop_bit 24 (((v :: u32) AND 0x00FFFFFF) + push_bit 24 (ucast (q :: u8))) = ucast q"
  "((v AND 0x00FFFFFF) + push_bit 24 (ucast q)) AND 0x00FFFFFF = v AND 0x00FFFFFF"
proof -
  have m: "v AND 0x00FFFFFF = take_bit 24 v" for v :: u32
    by (simp add: take_bit_eq_mask mask_eq_exp_minus_1)
  have "take_bit 24 v AND push_bit 24 (ucast q) = 0"
    by (rule bit_word_eqI) (auto simp: bit_simps)
  then have "take_bit 24 v + push_bit 24 (ucast q) = take_bit 24 v OR push_bit 24 (ucast q)"
    by (rule disjunctive_add_eq_or)
  moreover have "drop_bit 24 (take_bit 24 v OR push_bit 24 (ucast q)) = (ucast q :: u32)"
    by (rule bit_word_eqI) (auto simp: bit_simps dest: bit_imp_le_length)
  moreover have "take_bit 24 (take_bit 24 v OR push_bit 24 (ucast q)) = take_bit 24 v"
    by (rule bit_word_eqI) (auto simp: bit_simps)
  ultimately show "drop_bit 24 ((v AND 0x00FFFFFF) + push_bit 24 (ucast q)) = ucast q"
    "((v AND 0x00FFFFFF) + push_bit 24 (ucast q)) AND 0x00FFFFFF = v AND 0x00FFFFFF"
    by (simp_all only: m)
qed

lemma ucast_ucast_u8 [simp]: "ucast (ucast (q :: u8) :: u32) = q"
  by (rule bit_word_eqI) (simp add: bit_simps)

text \<open>What a receiver makes of a frame, and when it can be sent: enough room, not more
  than sixteen bits can announce, a fraction of second that converts to 32 bits.\<close>

definition frame_ticks :: "Config \<Rightarrow> PmuDataFrame \<Rightarrow> u32 option" where
  "frame_ticks config frame = f64_to_u32 (f64_mul (pdf_fracSec frame) (f64_of_int (uint (cfg_timeBase config))))"

definition frame_fits :: "Libm \<Rightarrow> Config \<Rightarrow> PmuDataFrame \<Rightarrow> nat \<Rightarrow> buffer \<Rightarrow> bool" where
  "frame_fits L config frame dataSize b \<longleftrightarrow>
     sendable L (cfg_pmus config) (pdf_pmus frame) \<and> frame_ticks config frame \<noteq> None \<and>
     getExpectedDataPacketLength config < 65536 \<and> getExpectedDataPacketLength config \<le> dataSize \<and>
     dataSize \<le> length b \<and> 18 \<le> unat (of_nat dataSize :: u16)"

definition received_frame :: "Libm \<Rightarrow> Config \<Rightarrow> PmuDataFrame \<Rightarrow> PmuDataFrame" where
  "received_frame L config frame = frame\<lparr>
     pdf_idcode := cfg_idcode config, pdf_parseResult := parse_complete,
     pdf_fracSec := f64_div (f64_of_int (uint (the (frame_ticks config frame) AND 0x00FFFFFF)))
       (f64_of_int (uint (cfg_timeBase config))),
     pdf_pmus := map2 (received L) (cfg_pmus config) (pdf_pmus frame)\<rparr>"

lemma addTime_frac_ok:
  assumes "14 \<le> length b" "frame_ticks config frame = Some v"
  shows "addTime_frac b (pdf_soc frame) (pdf_fracSec frame) q config =
    Some (overlay 6 (be32 (pdf_soc frame) @ be32 ((v AND 0x00FFFFFF) + push_bit 24 (ucast q))) b)"
  using assms overlay_append[of 6 "be32 (pdf_soc frame)" "be32 ((v AND 0x00FFFFFF) + push_bit 24 (ucast q))" b]
  by (simp add: addTime_frac_def frame_ticks_def Let_def)

lemma generateDataFrame_wire:
  assumes fits: "frame_fits L config frame dataSize b" and v: "frame_ticks config frame = Some v"
    and n: "n = getExpectedDataPacketLength config"
  shows "\<exists>b'. generateDataFrame L b dataSize config frame = Some (b', of_nat n) \<and> length b' = length b \<and>
    holds_at b' 14 (pmus_wire L (cfg_pmus config) (pdf_pmus frame)) \<and>
    (\<forall>ds f. n \<le> ds \<longrightarrow> ds \<le> length b \<longrightarrow> parseCommon b' ds f = Some (parse_complete,
       common_result Pkt_data (of_nat n) (cfg_idcode config) (pdf_soc frame)
         ((v AND 0x00FFFFFF) + push_bit 24 (ucast (pdf_timeQuality frame))) f))"
proof -
  note f = fits[unfolded frame_fits_def]
  let ?wire = "pmus_wire L (cfg_pmus config) (pdf_pmus frame)"
  let ?fr = "(v AND 0x00FFFFFF) + push_bit 24 (ucast (pdf_timeQuality frame)) :: u32"
  let ?c1 = "overlay 6 (be32 (pdf_soc frame) @ be32 ?fr)
    (overlay 4 (be16 (cfg_idcode config)) (overlay 0 (frame_bytes Pkt_data) b))"
  define s where "s = sum_list (map data_size (cfg_pmus config))"
  have ns: "n = 16 + s" by (simp add: n expected_length s_def)
  have lw: "length ?wire = s" using f by (simp add: length_pmus_wire s_def)
  have len: "16 + s \<le> length b" "16 + s < 65536" using f ns n by auto
  let ?c2 = "overlay 14 ?wire ?c1"
  let ?c = "overlay 2 (be16 (16 + of_nat s)) ?c2"
  have steps: "mfold (data_step L config frame) [0..<length (pdf_pmus frame)] (?c1, 14) = Some (?c2, 14 + of_nat s)"
    using emitsD[OF emits_data_steps, of L config frame 14 ?c1] f lw len by simp
  have u: "unat (16 + of_nat s :: u16) = 16 + s"
    using len unat16[of "16 + s"] by simp
  have gen: "generateDataFrame L b dataSize config frame =
      do { b \<leftarrow> addCRC ?c 0 (16 + of_nat s); Some (b, 16 + of_nat s) }"
    using f len lw steps addTime_frac_ok[OF _ v] n
    by (simp add: generateDataFrame_def generateCommonFrame_cfg_eq generateCommonFrame_ok addSize_ok Let_def)
  have head: "holds_at ?c 0 (frame_bytes Pkt_data)" "holds_at ?c 2 (be16 (16 + of_nat s))"
    "holds_at ?c 4 (be16 (cfg_idcode config))" "holds_at ?c 6 (be32 (pdf_soc frame))"
    "holds_at ?c 10 (be32 ?fr)" "holds_at ?c 14 ?wire"
    using len lw holds_at_overlay[of 6 "be32 (pdf_soc frame) @ be32 ?fr"
        "overlay 4 (be16 (cfg_idcode config)) (overlay 0 (frame_bytes Pkt_data) b)"]
    by (simp_all add: holds_at_overlay_before holds_at_overlay_after holds_at_overlay holds_at_append)
  have lc: "length ?c = length b" using len lw by simp
  have le: "16 \<le> unat (16 + of_nat s :: u16)" "unat (16 + of_nat s :: u16) \<le> length ?c"
    using len lc u by simp_all
  obtain b' where b': "addCRC ?c 0 (16 + of_nat s) = Some b'" "length b' = length ?c"
      "take (unat (16 + of_nat s :: u16) - 2) b' = take (unat (16 + of_nat s :: u16) - 2) ?c"
      "drop (unat (16 + of_nat s :: u16)) b' = drop (unat (16 + of_nat s :: u16)) ?c"
      "\<And>ds f. unat (16 + of_nat s :: u16) \<le> ds \<Longrightarrow> ds \<le> length ?c \<Longrightarrow> parseCommon b' ds f =
         Some (parse_complete, common_result Pkt_data (16 + of_nat s) (cfg_idcode config) (be32_at ?c 6) (be32_at ?c 10) f)"
    using finish_frame[OF le head(1-3)] by auto
  have "holds_at b' 14 ?wire"
    using holds_at_take_cong[OF b'(3) _ b'(2)] head(6) u lw by simp
  moreover have "be32_at ?c 6 = pdf_soc frame" "be32_at ?c 10 = ?fr"
    using be32_at_holds[OF head(4)] be32_at_holds[OF head(5)] by simp_all
  ultimately show ?thesis
    using gen b' u lc ns by simp
qed

lemma dataFrame_roundtrip_ex:
  assumes "frame_fits L config frame dataSize b"
  shows "\<exists>b'. generateDataFrame L b dataSize config frame =
      Some (b', of_nat (getExpectedDataPacketLength config)) \<and>
    parseDataFrame L b' dataSize config = Some (received_frame L config frame)"
proof -
  note f = assms[unfolded frame_fits_def]
  obtain v where v: "frame_ticks config frame = Some v" using f by auto
  let ?n = "getExpectedDataPacketLength config"
  obtain b' where b': "generateDataFrame L b dataSize config frame = Some (b', of_nat ?n)" "length b' = length b"
      "holds_at b' 14 (pmus_wire L (cfg_pmus config) (pdf_pmus frame))"
      "parseCommon b' dataSize fresh_frame = Some (parse_complete,
         common_result Pkt_data (of_nat ?n) (cfg_idcode config) (pdf_soc frame)
           ((v AND 0x00FFFFFF) + push_bit 24 (ucast (pdf_timeQuality frame))) fresh_frame)"
    using generateDataFrame_wire[OF assms v refl] f by blast
  have "parse_data_pmus L b' 14 (cfg_pmus config) = Some (map2 (received L) (cfg_pmus config) (pdf_pmus frame))"
    using parse_data_pmus_wire b'(3) f by blast
  then have "parseDataFrame L b' dataSize config = Some (received_frame L config frame)"
    using b'(4) f v
    by (cases frame) (simp add: parseDataFrame_def received_frame_def Let_def time_word fresh_data_frame_def)
  with b'(1) show ?thesis by blast
qed


text \<open>A PMU with one float phasor, float frequency and one integer analog value, and data for
  it: 1.5 - 2i, 60 Hz, 5.  The library functions are instantiated with projections.\<close>

definition sample_libm :: Libm where
  "sample_libm = \<lparr>lm_polar = \<lambda>m a. (m, a), lm_abs = fst, lm_arg = snd\<rparr>"

definition sample_data_pmu :: PmuConfig where
  "sample_data_pmu = default_PmuConfig\<lparr>pc_sourceID := 7, pc_phasorFormat := 1, pc_freqFormat := 1,
     pc_phasorCount := 1, pc_analogCount := 1\<rparr>"

definition sample_data_config :: Config where
  "sample_data_config = default_Config\<lparr>cfg_idcode := 7, cfg_pmus := [sample_data_pmu]\<rparr>"

definition sample_data :: PmuData where
  "sample_data = \<lparr>pd_stat = 0, pd_freq = 0x404E000000000000, pd_rocof = 0,
     pd_phasors = [(0x3FF8000000000000, 0xC000000000000000)], pd_analog = [0x4014000000000000],
     pd_digital = []\<rparr>"

definition sample_data_frame :: PmuDataFrame where
  "sample_data_frame = fresh_data_frame\<lparr>pdf_soc := 1600000000, pdf_fracSec := 0x3FE0000000000000,
     pdf_timeQuality := 3, pdf_pmus := [sample_data]\<rparr>"

lemma sample_data_fits: "frame_fits sample_libm sample_data_config sample_data_frame 40 (replicate 40 0)"
proof -
  have one: "[0..<Suc 0] = [0]" by simp
  have "f64_to_i16 0x4014000000000000 = Some 5" by (simp add: fp_eval)
  then have "data_wire sample_libm sample_data_pmu sample_data \<noteq> None"
    by (simp add: data_wire_def sample_data_pmu_def default_PmuConfig_def sample_data_def one
        enc_phasor_data_def enc_freq_data_def enc_analog_data_def enc_digital_data_def idx_def)
  moreover have "frame_ticks sample_data_config sample_data_frame = Some 500000"
    by (simp add: frame_ticks_def sample_data_config_def sample_data_frame_def default_Config_def fp_eval)
  ultimately show ?thesis
    by (simp add: frame_fits_def sendable_def sample_data_config_def sample_data_frame_def
        stores_imag_def expected_length)
      (simp add: sample_data_pmu_def default_PmuConfig_def data_size_def
        phasor_bytes_def freq_bytes_def analog_bytes_def)
qed

lemma sample_expected: "getExpectedDataPacketLength sample_data_config = 36"
  by (simp add: expected_length sample_data_config_def sample_data_pmu_def default_PmuConfig_def
      data_size_def phasor_bytes_def freq_bytes_def analog_bytes_def)


definition sample_data_packet :: buffer where
  "sample_data_packet = [170, 1, 0, 36, 0, 7, 95, 94, 16, 0, 0, 4, 0, 0, 0, 0, 63, 192, 0, 0, 192, 0, 0, 0,
     66, 112, 0, 0, 0, 0, 0, 0, 0, 5, 86, 85]"

lemma sample_data_packet_parses:
  "parseCommon sample_data_packet 36 fresh_frame =
     Some (parse_complete, parsed_frame sample_data_packet fresh_frame)"
proof (rule parseCommon_complete)
  have size: "frame_size sample_data_packet = 36"
    by (simp add: frame_size_def sample_data_packet_def of_be16_def)
  then show "frame_size sample_data_packet \<le> 36" "2 \<le> frame_size sample_data_packet" by simp_all
  show "frame_crc_ok sample_data_packet"
    by (simp add: frame_crc_ok_def size) (simp add: sample_data_packet_def crc_ccitt_step crc_step_def of_be16_def)
qed (simp_all add: sample_data_packet_def)

theorem parseDataFrame_safe_witness:
  "\<exists>pdf. parseDataFrame sample_libm sample_data_packet 36 sample_data_config = Some pdf \<and>
     (pdf_parseResult pdf \<in> {parse_complete, id_mismatch} \<longrightarrow> length (pdf_pmus pdf) = 1)"
  using parseDataFrame_safe[of sample_data_config 36 sample_data_packet sample_libm] sample_data_packet_parses
  by (simp add: sample_data_config_def sample_data_pmu_def default_PmuConfig_def conversions_given_def
      sample_data_packet_def)

section \<open>What is lost on the way\<close>

lemma mfold_agree:
  assumes "mfold f xs s = Some t" "mfold g xs s = Some t'"
    and "\<And>x s t t'. x \<in> set xs \<Longrightarrow> f x s = Some t \<Longrightarrow> g x s = Some t' \<Longrightarrow> t = t'"
  shows "t = t'"
  using assms
proof (induction xs arbitrary: s)
  case (Cons x xs)
  then obtain s1 s2 where s: "f x s = Some s1" "mfold f xs s1 = Some t" "g x s = Some s2" "mfold g xs s2 = Some t'"
    by (auto split: Option.bind_splits)
  moreover have "s1 = s2" using Cons.prems(3)[OF _ s(1,3)] by simp
  ultimately show ?case using Cons.IH[of s1] Cons.prems(3) by (metis list.set_intros(2))
qed simp

text \<open>C34: in integer rectangular format the imaginary parts of the phasors are not sent: two
  measurements that differ in nothing else give the same packet, on every buffer on which both are
  defined.\<close>

theorem imaginary_part_never_sent:
  assumes "pc_phasorFormat c = integer_format" "pc_phasorCoordinates c = rectangular_phasor"
    and "map fst ps' = map fst (pd_phasors d)"
    and "generatePmuDataFrame L b base c d = Some r"
    and "generatePmuDataFrame L b base c (d\<lparr>pd_phasors := ps'\<rparr>) = Some r'"
  shows "r = r'"
proof -
  let ?d' = "d\<lparr>pd_phasors := ps'\<rparr>"
  have same: "wr_stat ?d' = wr_stat d" "wr_freq c ?d' = wr_freq c d" "wr_analog c ?d' = wr_analog c d"
    "wr_digital ?d' = wr_digital d"
    by (auto simp: wr_stat_def wr_freq_def wr_analog_def wr_digital_def fun_eq_iff)
  have ph: "t = t'" if "wr_phasor L c d base ii s = Some t" "wr_phasor L c ?d' base ii s = Some t'" for ii s t t'
  proof -
    have "ii < length ps' \<Longrightarrow> ii < length (pd_phasors d) \<Longrightarrow> fst (ps' ! ii) = fst (pd_phasors d ! ii)"
      using assms(3) by (metis nth_map)
    with that assms(1,2) show ?thesis
      by (cases s) (auto simp: wr_phasor_def idx_eq Let_def split: Option.bind_splits)
  qed
  obtain s1 where s1: "wr_stat d base (b, 0) = Some s1"
    using assms(4) by (auto simp: generatePmuDataFrame_def split: Option.bind_splits)
  obtain s2 s3 where "mfold (wr_phasor L c d base) [0..<unat (pc_phasorCount c)] s1 = Some s2"
      "mfold (wr_phasor L c ?d' base) [0..<unat (pc_phasorCount c)] s1 = Some s3"
    using assms(4,5) s1 by (auto simp: generatePmuDataFrame_def same split: Option.bind_splits)
  moreover from this have "s2 = s3" by (rule mfold_agree) (rule ph)
  ultimately show ?thesis
    using assms(4,5) s1 by (simp add: generatePmuDataFrame_def same)
qed

definition rect_pmu :: PmuConfig where
  "rect_pmu = default_PmuConfig\<lparr>pc_freqFormat := 1, pc_phasorCount := 1, pc_phasorConversion := [100000]\<rparr>"

definition rect_data :: "f64 \<Rightarrow> PmuData" where
  "rect_data imag = default_PmuData\<lparr>pd_phasors := [(0x3FF8000000000000, imag)]\<rparr>"

lemma rect_generates:
  assumes "f64_to_i16 (f64_div (f64_mul imag lit_1e5) (f64_of_int 100000)) = Some i"
  shows "\<exists>r. generatePmuDataFrame L (replicate 14 0) 0 rect_pmu (rect_data imag) = Some r"
proof -
  have one: "[0..<Suc 0] = [0]" by simp
  have "f64_to_i16 (f64_div (f64_mul 0x3FF8000000000000 lit_1e5) (f64_of_int 100000)) = Some 1"
    by (simp add: fp_eval)
  with assms show ?thesis
    by (simp add: generatePmuDataFrame_def wr_stat_def wr_phasor_def wr_freq_def wr_pair32_def one
        rect_pmu_def default_PmuConfig_def rect_data_def default_PmuData_def idx_def)
qed

lemma rect_values:
  "f64_to_i16 (f64_div (f64_mul 0x3FF8000000000000 lit_1e5) (f64_of_int 100000)) = Some 1"
  "f64_to_i16 (f64_div (f64_mul 0xC08F400000000000 lit_1e5) (f64_of_int 100000)) = Some (- 1000)"
  by (simp_all add: fp_eval)

theorem imaginary_part_never_sent_witness:
  "\<exists>r. generatePmuDataFrame sample_libm (replicate 14 0) 0 rect_pmu (rect_data 0x3FF8000000000000) = Some r \<and>
     generatePmuDataFrame sample_libm (replicate 14 0) 0 rect_pmu (rect_data 0xC08F400000000000) = Some r"
proof -
  obtain r r' where r: "generatePmuDataFrame sample_libm (replicate 14 0) 0 rect_pmu (rect_data 0x3FF8000000000000) = Some r"
      "generatePmuDataFrame sample_libm (replicate 14 0) 0 rect_pmu (rect_data 0xC08F400000000000) = Some r'"
    using rect_generates[OF rect_values(1)] rect_generates[OF rect_values(2)] by blast
  have eq: "rect_data 0xC08F400000000000 =
      rect_data 0x3FF8000000000000\<lparr>pd_phasors := [(0x3FF8000000000000, 0xC08F400000000000)]\<rparr>"
    by (simp add: rect_data_def)
  have "r = r'"
    by (rule imaginary_part_never_sent[OF _ _ _ r(1) r(2)[unfolded eq]])
      (simp_all add: rect_pmu_def default_PmuConfig_def rect_data_def)
  with r show ?thesis by blast
qed

lemma trunc_special:
  "f64_trunc f64_nan = None" "f64_trunc (f64_mk s top64) = None"
  by (cases s; simp add: fp_eval)+

lemma div_by_zero: "f64_trunc (f64_div x (f64_of_int 0)) = None"
proof -
  have "f64_val (f64_of_int 0) = Fin_val False 0 (- 1074)" by (simp add: fp_eval)
  then show ?thesis
    by (cases "f64_val x") (simp_all add: f64_div_def trunc_special)
qed

lemma mfold_None:
  assumes "x \<in> set xs" "\<And>s. f x s = None"
  shows "mfold f xs s = None"
  using assms by (induction xs arbitrary: s) (auto split: Option.bind_splits)

text \<open>A conversion factor of zero, which a configuration frame can carry, makes the generator of
  integer phasors divide by zero and convert the infinity or NaN to an integer, which is undefined,
  whatever the measurement.\<close>

theorem zero_conversion_undefined:
  assumes "pc_phasorFormat c = integer_format" "ii < unat (pc_phasorCount c)"
    and "idx (pc_phasorConversion c) ii = Some 0"
  shows "generatePmuDataFrame L b base c d = None"
proof -
  have "wr_phasor L c d base ii s = None" for s
    using assms(1,3) div_by_zero
    by (cases s) (auto simp: wr_phasor_def f64_to_i16_def f64_to_u16_def Let_def split: Option.bind_splits)
  then have "mfold (wr_phasor L c d base) [0..<unat (pc_phasorCount c)] s = None" for s
    using assms(2) by (intro mfold_None[of ii]) simp_all
  then show ?thesis by (simp add: generatePmuDataFrame_def split: Option.bind_splits)
qed

theorem zero_conversion_undefined_witness:
  "generatePmuDataFrame sample_libm (replicate 50 0) 0 (rect_pmu\<lparr>pc_phasorConversion := [0]\<rparr>) sample_data = None"
  by (rule zero_conversion_undefined[of _ 0]) (simp_all add: rect_pmu_def default_PmuConfig_def)

text \<open>The generator indexes the configuration's PMUs with the count of the measurement
  frame and does not compare the two: a frame with more PMUs than the configuration makes it read behind
  the configuration's vector.\<close>

theorem surplus_pmu_undefined:
  assumes "length (cfg_pmus config) < length (pdf_pmus frame)"
    and "getExpectedDataPacketLength config \<le> dataSize"
  shows "generateDataFrame L b dataSize config frame = None"
proof -
  have "data_step L config frame (length (cfg_pmus config)) s = None" for s
    by (cases s) (simp add: data_step_def idx_def)
  then have "mfold (data_step L config frame) [0..<length (pdf_pmus frame)] s = None" for s
    using assms(1) by (intro mfold_None[of "length (cfg_pmus config)"]) simp_all
  then show ?thesis using assms(2) by (simp add: generateDataFrame_def split: Option.bind_splits)
qed

theorem surplus_pmu_undefined_witness:
  "generateDataFrame sample_libm (replicate 40 0) 40 default_Config sample_data_frame = None"
  by (rule surplus_pmu_undefined)
    (simp_all add: default_Config_def sample_data_frame_def fresh_data_frame_def expected_length)

text \<open>Integer frequencies are truncated when they are written, and the quotient by 1000 that the
  reader makes is rounded: a relay that re-sends a frequency deviation of 1001 mHz sends
  1000 mHz.\<close>

theorem integer_frequency_drifts:
  "\<exists>x. rd_freq default_PmuConfig [0x03, 0xE9] 0 = Some (x, 2) \<and>
     wr_freq default_PmuConfig (default_PmuData\<lparr>pd_freq := x\<rparr>) 0 ([0xFF, 0xFF, 0xFF, 0xFF], 0) =
       Some ([0x03, 0xE8, 0, 0], 4)"
proof -
  let ?x = "f64_div (f64_of_int 1001) lit_1000"
  have "rd_ntohs [0x03, 0xE9] 0 = Some 1001"
  proof (rule rd_ntohs_be16)
    show "holds_at [0x03, 0xE9] 0 (be16 1001)" by (simp add: holds_at_def be16_def)
  qed
  then have "rd_freq default_PmuConfig [0x03, 0xE9] 0 = Some (?x, 2)"
    by (simp add: rd_freq_def default_PmuConfig_def)
  moreover have "f64_to_i16 (f64_mul ?x lit_1000) = Some 1000" by (simp add: fp_eval)
  moreover have "f64_to_i16 (f64_mul 0 lit_1000) = Some 0" by (simp add: fp_eval)
  ultimately show ?thesis
    by (intro exI[of _ ?x])
      (simp add: wr_freq_def wr_pair16_def default_PmuConfig_def default_PmuData_def overlay_def be16_def)
qed

end
