(* ===== verification/Float_Facts.thy ===== *)
theory Float_Facts
  imports Complex_Main IEEE_Float
begin

text \<open>
  Exactness of the floating-point model: a value that a format can represent is not changed by
  rounding to it.  Patterns are related to real numbers through \<open>M * 2 powi E\<close>; the main results are
  that doubles hold all integers below \<open>2 ^ 53\<close> and their products, that conversion to an integer
  recovers them, and that a \<open>float\<close> survives being widened to \<open>double\<close> and narrowed back.
\<close>

section \<open>Powers of two\<close>

lemma powi_nonneg: "0 \<le> k \<Longrightarrow> (2 :: real) powi k = 2 ^ nat k"
  by (simp add: power_int_def)

lemma powi_neg: "k < 0 \<Longrightarrow> (2 :: real) powi k = 1 / 2 ^ nat (- k)"
  by (simp add: power_int_def inverse_eq_divide power_divide)

lemma powi_add2: "(2 :: real) powi (a + b) = 2 powi a * 2 powi b"
  by (rule power_int_add) simp

lemma powi_less_iff: "(2 :: real) powi a < 2 powi b \<longleftrightarrow> a < b"
proof
  assume "a < b"
  then show "(2 :: real) powi a < 2 powi b" by (intro power_int_strict_increasing) simp_all
next
  assume *: "(2 :: real) powi a < 2 powi b"
  show "a < b"
  proof (rule ccontr)
    assume "\<not> a < b"
    then have "(2 :: real) powi b \<le> 2 powi a" by (intro power_int_increasing) simp_all
    with * show False by simp
  qed
qed

lemma powi_nat: "(2 :: real) powi (int n) = 2 ^ n"
  by simp

lemma bit_length_bounds:
  assumes "0 < n"
  shows "2 ^ (bit_length n - 1) \<le> n \<and> n < 2 ^ bit_length n \<and> 0 < bit_length n"
  using assms
proof (induction n rule: bit_length.induct)
  case (1 n)
  have eq: "bit_length n = Suc (bit_length (n div 2))"
    using 1(2) by (subst bit_length.simps) simp
  show ?case
  proof (cases "n div 2 = 0")
    case True
    then have "n = 1" using 1(2) by linarith
    then show ?thesis by simp
  next
    case False
    with 1 have ih: "2 ^ (bit_length (n div 2) - 1) \<le> n div 2" "n div 2 < 2 ^ bit_length (n div 2)"
      "0 < bit_length (n div 2)" by auto
    obtain k where k: "bit_length (n div 2) = Suc k" using ih(3) by (cases "bit_length (n div 2)") simp_all
    have "2 * 2 ^ k \<le> n" using ih(1) k by simp
    moreover have "n < 2 * (2 * 2 ^ k)" using ih(2) k by simp
    ultimately show ?thesis by (simp add: eq k)
  qed
qed

lemma ge_pow2_real:
  assumes "0 < d"
  shows "ge_pow2 n d k \<longleftrightarrow> 2 powi k \<le> real n / real d"
proof (cases "0 \<le> k")
  case True
  have "d * 2 ^ nat k \<le> n \<longleftrightarrow> real d * 2 ^ nat k \<le> real n"
    by (metis of_nat_le_iff of_nat_mult of_nat_numeral of_nat_power)
  then show ?thesis using True assms by (simp add: ge_pow2_def powi_nonneg field_simps)
next
  case False
  have "d \<le> n * 2 ^ nat (- k) \<longleftrightarrow> real d \<le> real n * 2 ^ nat (- k)"
    by (metis of_nat_le_iff of_nat_mult of_nat_numeral of_nat_power)
  then show ?thesis using False assms by (simp add: ge_pow2_def powi_neg field_simps)
qed

lemma lead_exp_spec:
  assumes "0 < n" "0 < d"
  shows "2 powi (lead_exp n d) \<le> real n / real d \<and> real n / real d < 2 powi (lead_exp n d + 1)"
proof -
  define a where "a = bit_length n"
  define b where "b = bit_length d"
  define k where "k = int a - int b"
  have ab: "0 < a" "0 < b" "2 ^ (a - 1) \<le> n" "n < 2 ^ a" "2 ^ (b - 1) \<le> d" "d < 2 ^ b"
    using bit_length_bounds[OF assms(1)] bit_length_bounds[OF assms(2)] by (simp_all add: a_def b_def)
  have r: "(2 :: real) powi (int a - 1) \<le> n" "n < (2 :: real) powi int a"
    "(2 :: real) powi (int b - 1) \<le> d" "d < (2 :: real) powi int b"
  proof -
    have "int a - 1 = int (a - 1)" "int b - 1 = int (b - 1)" using ab by simp_all
    then show "(2 :: real) powi (int a - 1) \<le> n" "(2 :: real) powi (int b - 1) \<le> d"
      using ab(3,5) by (metis of_nat_le_iff of_nat_numeral of_nat_power powi_nat)+
    show "n < (2 :: real) powi int a" "d < (2 :: real) powi int b"
      using ab(4,6) by (metis of_nat_less_iff of_nat_numeral of_nat_power powi_nat)+
  qed
  have dpos: "0 < real d" using assms(2) by simp
  have hi: "real n / real d < 2 powi (k + 1)"
  proof -
    have "(2 :: real) powi (k + 1) * 2 powi (int b - 1) = 2 powi int a"
      by (simp add: k_def flip: powi_add2)
    then have "real n < 2 powi (k + 1) * real d"
      using r(2,3) by (smt (verit) mult_left_mono zero_less_power_int)
    then show ?thesis using dpos by (simp add: divide_less_eq)
  qed
  have lo: "2 powi (k - 1) \<le> real n / real d"
  proof -
    have "(2 :: real) powi (k - 1) * 2 powi int b = 2 powi (int a - 1)"
      unfolding powi_add2[symmetric] by (simp add: k_def)
    then have "2 powi (k - 1) * real d \<le> real n"
      using r(1,4) by (smt (verit) mult_left_mono zero_less_power_int)
    then show ?thesis using dpos by (simp add: le_divide_eq)
  qed
  have "lead_exp n d = adjust_exp n d k"
    by (simp add: lead_exp_def k_def a_def b_def)
  then show ?thesis
    using hi lo ge_pow2_real[OF assms(2), of n k] by (auto simp: adjust_exp_def)
qed

lemma lead_exp_unique:
  assumes "0 < n" "0 < d" "2 powi k \<le> real n / real d" "real n / real d < 2 powi (k + 1)"
  shows "lead_exp n d = k"
proof -
  have "2 powi k < (2 :: real) powi (lead_exp n d + 1)" "2 powi lead_exp n d < (2 :: real) powi (k + 1)"
    using lead_exp_spec[OF assms(1,2)] assms(3,4) by linarith+
  then show ?thesis by (simp add: powi_less_iff)
qed

section \<open>Rounding a representable value\<close>

text \<open>\<open>M * 2 powi E\<close> is a number of the format with \<open>t\<close> fraction bits.\<close>

definition normal_form :: "nat \<Rightarrow> int \<Rightarrow> nat \<Rightarrow> int \<Rightarrow> bool" where
  "normal_form t emin M E \<longleftrightarrow> M < 2 ^ (t + 1) \<and> emin \<le> E \<and> (E = emin \<or> 2 ^ t \<le> M)"

definition pattern_of :: "nat \<Rightarrow> int \<Rightarrow> nat \<Rightarrow> int \<Rightarrow> nat" where
  "pattern_of t emin M E = nat (E - emin) * 2 ^ t + M"

lemma div_mod_pow:
  "r < 2 ^ t \<Longrightarrow> (c * 2 ^ t + r) div 2 ^ t = c \<and> (c * 2 ^ t + r) mod 2 ^ t = (r :: nat)"
  by simp

lemma decode_pattern:
  assumes "normal_form t emin M E"
  shows "fp_mant t (pattern_of t emin M E) = M \<and> fp_exp t emin (pattern_of t emin M E) = E"
proof (cases "2 ^ t \<le> M")
  case True
  define r where "r = M - 2 ^ t"
  have "M < 2 * 2 ^ t" using assms by (simp add: normal_form_def)
  with True have M: "M = 2 ^ t + r" "r < 2 ^ t"
    unfolding r_def by linarith+
  have p: "pattern_of t emin M E = (nat (E - emin) + 1) * 2 ^ t + r"
    by (simp add: pattern_of_def M(1))
  have "pattern_of t emin M E div 2 ^ t = nat (E - emin) + 1" "pattern_of t emin M E mod 2 ^ t = r"
    unfolding p using M(2) div_mod_pow[of r t "nat (E - emin) + 1"] by blast+
  then show ?thesis
    using assms M(1) by (simp add: fp_mant_def fp_exp_def normal_form_def)
next
  case False
  then have "E = emin" using assms by (auto simp: normal_form_def)
  with False show ?thesis by (simp add: pattern_of_def fp_mant_def fp_exp_def)
qed

lemma round_half_even_exact: "0 < d \<Longrightarrow> round_half_even (m * d) d = m"
  by (simp add: round_half_even_def round_up_def)

lemma round_at_exact:
  assumes "0 < d" "real n / real d = real M * 2 powi E"
  shows "round_at n d E = M"
proof (cases "0 \<le> E")
  case True
  have "real n = real M * (real d * 2 ^ nat E)"
    using assms True by (simp add: powi_nonneg field_simps)
  then have "real n = real (M * (d * 2 ^ nat E))" by simp
  then have "n = M * (d * 2 ^ nat E)" by (simp only: of_nat_eq_iff)
  then show ?thesis using True assms(1) by (simp add: round_at_def round_half_even_exact)
next
  case False
  have "real n * 2 ^ nat (- E) = real M * real d"
    using assms False by (simp add: powi_neg field_simps)
  then have "real (n * 2 ^ nat (- E)) = real (M * d)" by simp
  then have "n * 2 ^ nat (- E) = M * d" by (simp only: of_nat_eq_iff)
  then show ?thesis using False assms(1) by (simp add: round_at_def round_half_even_exact)
qed

lemma fp_round_exact:
  assumes "0 < n" "0 < d" and v: "real n / real d = real M * 2 powi E" and nf: "normal_form t emin M E"
  shows "fp_round t emin infp n d = min infp (pattern_of t emin M E)"
proof -
  have Mpos: "0 < M" using assms by (cases M) simp_all
  have Mhi: "real M < 2 powi (int t + 1)"
  proof -
    have "real M < 2 ^ (t + 1)" using nf by (metis normal_form_def of_nat_less_iff of_nat_numeral of_nat_power)
    moreover have "int t + 1 = int (t + 1)" by simp
    ultimately show ?thesis by (simp only: powi_nat)
  qed
  have up: "real n / real d < 2 powi (E + int t + 1)"
  proof -
    have "real M * 2 powi E < 2 powi (int t + 1) * 2 powi E"
      using Mhi by (intro mult_strict_right_mono) simp_all
    then show ?thesis by (simp only: v flip: powi_add2) (simp add: ac_simps)
  qed
  have "max emin (lead_exp n d - int t) = E"
  proof (cases "2 ^ t \<le> M")
    case True
    then have "2 powi int t \<le> real M"
      by (metis of_nat_le_iff of_nat_numeral of_nat_power powi_nat)
    then have "2 powi int t * 2 powi E \<le> real M * 2 powi E" by (intro mult_right_mono) simp_all
    then have "2 powi (E + int t) \<le> real n / real d"
      by (simp only: v flip: powi_add2) (simp add: ac_simps)
    then have "lead_exp n d = E + int t" using lead_exp_unique[OF assms(1,2)] up by simp
    then show ?thesis using nf by (simp add: normal_form_def)
  next
    case False
    then have E: "E = emin" using nf by (auto simp: normal_form_def)
    have "real M < 2 powi int t" using False by (metis not_less of_nat_less_iff of_nat_numeral of_nat_power powi_nat)
    then have "real M * 2 powi E < 2 powi int t * 2 powi E" by (intro mult_strict_right_mono) simp_all
    then have "real n / real d < 2 powi (int t + E)" by (simp only: v powi_add2)
    then have "2 powi lead_exp n d < (2 :: real) powi (int t + E)"
      using lead_exp_spec[OF assms(1,2)] by linarith
    then show ?thesis using E by (simp add: powi_less_iff)
  qed
  then show ?thesis
    using assms(1) round_at_exact[OF assms(2) v]
    by (simp add: fp_round_def fp_pattern_def pattern_of_def)
qed

text \<open>Every product of a power of two with a number of at most \<open>t + 1\<close> bits has a normal form,
  down to the smallest exponent.\<close>

lemma normal_form_exists:
  assumes "0 < N" "N < 2 ^ (t + 1)" "emin \<le> e"
  obtains M E where "normal_form t emin M E" "real M * 2 powi E = real N * 2 powi e" "E \<le> e" "M = N * 2 ^ nat (e - E)"
proof -
  define k where "k = bit_length N"
  have k: "2 ^ (k - 1) \<le> N" "N < 2 ^ k" "0 < k"
    using bit_length_bounds[OF assms(1)] by (simp_all add: k_def)
  have kt: "k \<le> t + 1"
  proof (rule ccontr)
    assume "\<not> k \<le> t + 1"
    then have "(2 :: nat) ^ (t + 1) \<le> 2 ^ (k - 1)" by (intro power_increasing) simp_all
    with k(1) assms(2) show False by linarith
  qed
  define i where "i = min (t + 1 - k) (nat (e - emin))"
  define M where "M = N * 2 ^ i"
  define E where "E = e - int i"
  have "N * 2 ^ i < 2 ^ k * 2 ^ i" using k(2) by simp
  also have "\<dots> \<le> 2 ^ (t + 1)"
    using kt by (simp only: i_def flip: power_add) (rule power_increasing, simp_all)
  finally have "M < 2 ^ (t + 1)" by (simp add: M_def)
  moreover have "emin \<le> E" using assms(3) by (simp add: E_def i_def)
  moreover have "2 ^ t \<le> M" if "E \<noteq> emin"
  proof -
    have "i = t + 1 - k" using that assms(3) by (auto simp: E_def i_def min_def split: if_splits)
    then have "2 ^ t = (2 :: nat) ^ (k - 1) * 2 ^ i" using kt k(3) by (simp flip: power_add)
    then show ?thesis using k(1) by (simp add: M_def)
  qed
  ultimately have "normal_form t emin M E" by (auto simp: normal_form_def)
  moreover have "real M * 2 powi E = real N * 2 powi e"
  proof -
    have "2 powi e = (2 :: real) powi E * 2 ^ i" using powi_add2[of E "int i"] by (simp add: E_def)
    then show ?thesis by (simp add: M_def)
  qed
  ultimately show thesis
    by (rule that) (simp_all add: E_def M_def)
qed

section \<open>Exact doubles\<close>

lemma normal_pattern_bound:
  assumes "normal_form 52 (-1074) M E" "E < 971"
  shows "pattern_of 52 (-1074) M E < top64"
proof -
  have "nat (E + 1074) \<le> 2044" using assms by (simp add: normal_form_def)
  then have "nat (E + 1074) * 2 ^ 52 \<le> 2044 * 2 ^ 52" by simp
  moreover have "M < 2 ^ 53" using assms(1) by (simp add: normal_form_def)
  ultimately show ?thesis by (simp add: pattern_of_def)
qed

lemma bit_top64: "\<exists>m :: u64. m = 0x8000000000000000 \<and> (\<forall>n. bit m n \<longleftrightarrow> n = 63)"
proof -
  have "(0x8000000000000000 :: u64) = push_bit 63 1" by simp
  moreover have "bit (push_bit 63 1 :: u64) n \<longleftrightarrow> n = 63" for n
    by (simp only: bit_push_bit_iff bit_1_iff) auto
  ultimately show ?thesis by metis
qed

lemma bit_top32: "\<exists>m :: u32. m = 0x80000000 \<and> (\<forall>n. bit m n \<longleftrightarrow> n = 31)"
proof -
  have "(0x80000000 :: u32) = push_bit 31 1" by simp
  moreover have "bit (push_bit 31 1 :: u32) n \<longleftrightarrow> n = 31" for n
    by (simp only: bit_push_bit_iff bit_1_iff) auto
  ultimately show ?thesis by metis
qed

lemma f64_mk_fields:
  assumes "p < 2 ^ 63"
  shows "f64_mag (f64_mk s p) = p" "f64_sign (f64_mk s p) = s"
proof -
  have un: "unat (of_nat p :: u64) = p"
    using assms by (simp add: unat_of_nat take_bit_eq_mod)
  have low: "take_bit 63 (of_nat p :: u64) = of_nat p"
    by (intro unsigned_word_eqI[where 'a = nat])
      (simp add: unsigned_take_bit_eq un take_bit_nat_eq_self[OF assms])
  obtain m :: u64 where m: "m = 0x8000000000000000" "\<And>n. bit m n \<longleftrightarrow> n = 63"
    using bit_top64 by blast
  have nobit: "\<not> bit (of_nat p :: u64) 63"
    using low by (metis bit_take_bit_iff less_irrefl)
  have dj: "m AND (of_nat p :: u64) = 0"
    using nobit by (intro bit_word_eqI) (auto simp: bit_and_iff m(2) simp del: bit_of_nat_iff)
  have mk: "f64_mk s p = (if s then m OR of_nat p else of_nat p)"
    using disjunctive_add_eq_or[OF dj] by (simp add: f64_mk_def m(1))
  have "take_bit 63 m = 0" by (rule bit_word_eqI) (simp add: bit_take_bit_iff m(2))
  then have "take_bit 63 (f64_mk s p) = of_nat p"
    using low by (simp add: mk take_bit_or)
  then show "f64_mag (f64_mk s p) = p" by (simp add: f64_mag_def un)
  show "f64_sign (f64_mk s p) = s"
    using nobit by (simp add: f64_sign_def mk bit_or_iff m(2) del: bit_of_nat_iff)
qed

lemma f64_val_mk:
  assumes "normal_form 52 (-1074) M E" "E < 971"
  shows "f64_val (f64_mk s (pattern_of 52 (-1074) M E)) = Fin_val s M E"
proof -
  have p: "pattern_of 52 (-1074) M E < top64" using normal_pattern_bound[OF assms] .
  then have "pattern_of 52 (-1074) M E < 2 ^ 63" by simp
  note f64_mk_fields[OF this]
  then show ?thesis
    using p decode_pattern[OF assms(1)] by (simp add: f64_val_def fp_classify_def)
qed

lemma f64_of_scaled_exact:
  assumes "0 < n" "0 < d" "real n / real d * 2 powi e = real M * 2 powi E"
    and "normal_form 52 (-1074) M E" "E < 971"
  shows "f64_of_scaled s n d e = f64_mk s (pattern_of 52 (-1074) M E)"
proof -
  have p: "pattern_of 52 (-1074) M E < top64" using normal_pattern_bound[OF assms(4,5)] .
  show ?thesis
  proof (cases "0 \<le> e")
    case True
    then have "real (n * 2 ^ nat e) / real d = real M * 2 powi E"
      using assms(3) by (simp add: powi_nonneg)
    from fp_round_exact[OF _ assms(2) this assms(4)] True p assms(1) show ?thesis
      by (simp add: f64_of_scaled_def)
  next
    case False
    then have "real n / real (d * 2 ^ nat (- e)) = real M * 2 powi E"
      using assms(3) by (simp add: powi_neg)
    from fp_round_exact[OF assms(1) _ this assms(4)] False p assms(2) show ?thesis
      by (simp add: f64_of_scaled_def)
  qed
qed

text \<open>A double that holds the value \<open>(-1)^s * N * 2^e\<close> exactly, \<open>N\<close> of at most 53 bits.\<close>

definition exact64 :: "bool \<Rightarrow> nat \<Rightarrow> int \<Rightarrow> f64" where
  "exact64 s N e = f64_of_scaled s N 1 e"

lemma exact64_val:
  assumes "N < 2 ^ 53" "- 1074 \<le> e" "e < 971"
  shows "\<exists>M E. f64_val (exact64 s N e) = Fin_val s M E \<and> E \<le> e \<and> M = N * 2 ^ nat (e - E)"
proof (cases "N = 0")
  case True
  have "f64_val (f64_mk s 0) = Fin_val s 0 (- 1074)"
    by (cases s) (simp_all add: f64_val_def f64_mk_def f64_mag_def f64_sign_def fp_classify_def fp_mant_def fp_exp_def)
  moreover have "exact64 s N e = f64_mk s 0"
    using True by (simp add: exact64_def f64_of_scaled_def fp_round_def)
  ultimately show ?thesis using True assms(2) by simp
next
  case False
  then obtain M E where nf: "normal_form 52 (-1074) M E" "real M * 2 powi E = real N * 2 powi e" "E \<le> e" "M = N * 2 ^ nat (e - E)"
    using normal_form_exists[of N 52 "- 1074" e] assms by auto
  have "exact64 s N e = f64_mk s (pattern_of 52 (-1074) M E)"
    unfolding exact64_def using False nf(1-3) assms(3) by (intro f64_of_scaled_exact) simp_all
  then show ?thesis using f64_val_mk[OF nf(1)] nf(3,4) assms(3) by auto
qed

lemma exact64_unique:
  assumes "N < 2 ^ 53" "- 1074 \<le> e" "e < 971" "real n / real d * 2 powi e' = real N * 2 powi e" "0 < d"
  shows "f64_of_scaled s n d e' = exact64 s N e"
proof (cases "N = 0")
  case True
  then have "n = 0" using assms(4,5) by simp
  then show ?thesis using True by (simp add: exact64_def f64_of_scaled_def fp_round_def)
next
  case False
  then obtain M E where nf: "normal_form 52 (-1074) M E" "real M * 2 powi E = real N * 2 powi e" "E \<le> e" "M = N * 2 ^ nat (e - E)"
    using normal_form_exists[of N 52 "- 1074" e] assms(1-3) by auto
  have "0 < n" using False assms(4) by (cases n) simp_all
  then have "f64_of_scaled s n d e' = f64_mk s (pattern_of 52 (-1074) M E)"
    using nf(1-3) assms by (intro f64_of_scaled_exact) simp_all
  moreover have "exact64 s N e = f64_mk s (pattern_of 52 (-1074) M E)"
    unfolding exact64_def using False nf(1-3) assms(3) by (intro f64_of_scaled_exact) simp_all
  ultimately show ?thesis by simp
qed

section \<open>Integers in doubles\<close>

lemma f64_of_int_exact: "f64_of_int z = exact64 (z < 0) (nat \<bar>z\<bar>) 0"
  by (simp add: f64_of_int_def exact64_def)

lemma f64_trunc_of_int:
  assumes "\<bar>z\<bar> < 2 ^ 53"
  shows "f64_trunc (f64_of_int z) = Some z"
proof -
  have "nat \<bar>z\<bar> < 2 ^ 53" using assms by simp
  then obtain M E where v: "f64_val (f64_of_int z) = Fin_val (z < 0) M E" "E \<le> 0" "M = nat \<bar>z\<bar> * 2 ^ nat (0 - E)"
    using exact64_val[of "nat \<bar>z\<bar>" 0 "z < 0"] by (auto simp: f64_of_int_exact)
  then have "scaled_floor M E = nat \<bar>z\<bar>" by (auto simp: scaled_floor_def)
  with v(1) show ?thesis by (simp add: f64_trunc_def)
qed

lemma exact64_mul:
  assumes "a < 2 ^ 53" "b < 2 ^ 53" "a * b < 2 ^ 53"
  shows "f64_mul (exact64 s a 0) (exact64 s' b 0) = exact64 (s \<noteq> s') (a * b) 0"
proof -
  obtain M E where v: "f64_val (exact64 s a 0) = Fin_val s M E" "E \<le> 0" "M = a * 2 ^ nat (0 - E)"
    using exact64_val[OF assms(1), of 0 s] by auto
  obtain M' E' where v': "f64_val (exact64 s' b 0) = Fin_val s' M' E'" "E' \<le> 0" "M' = b * 2 ^ nat (0 - E')"
    using exact64_val[OF assms(2), of 0 s'] by auto
  have scale_back: "real (n * 2 ^ nat (0 - e)) * 2 powi e = real n" if "e \<le> 0" for n :: nat and e :: int
    using that by (cases "e = 0") (simp_all add: powi_neg)
  have "real (M * M') / real 1 * 2 powi (E + E') = (real M * 2 powi E) * (real M' * 2 powi E')"
    by (simp add: powi_add2)
  also have "\<dots> = real (a * b) * 2 powi 0"
    using scale_back[OF v(2), of a] scale_back[OF v'(2), of b] unfolding v(3) v'(3) by (simp only:) simp
  finally have "f64_of_scaled (s \<noteq> s') (M * M') 1 (E + E') = exact64 (s \<noteq> s') (a * b) 0"
    using assms(3) by (intro exact64_unique) simp_all
  then show ?thesis by (simp add: f64_mul_def v v')
qed

lemma f64_mul_of_int:
  assumes "0 \<le> x" "0 \<le> y" "x < 2 ^ 53" "y < 2 ^ 53" "x * y < 2 ^ 53"
  shows "f64_mul (f64_of_int x) (f64_of_int y) = f64_of_int (x * y)"
proof -
  have "nat x * nat y < 2 ^ 53"
    using assms by (metis nat_less_iff nat_mult_distrib nat_numeral nat_power_eq mult_nonneg_nonneg of_nat_numeral of_nat_power zero_le_numeral)
  then show ?thesis
    using assms exact64_mul[of "nat x" "nat y" False False]
    by (simp add: f64_of_int_exact nat_mult_distrib not_less mult_nonneg_nonneg[THEN leD])
qed

section \<open>Floats in doubles\<close>

lemma decode_normal:
  shows "normal_form t emin (fp_mant t p) (fp_exp t emin p)"
    and "pattern_of t emin (fp_mant t p) (fp_exp t emin p) = p"
proof -
  define r where "r = p mod 2 ^ t"
  have "r < 2 ^ t" by (simp add: r_def)
  then have "r < 2 * 2 ^ t" "2 ^ t + r < 2 * 2 ^ t" by linarith+
  then show "normal_form t emin (fp_mant t p) (fp_exp t emin p)"
    by (auto simp: normal_form_def fp_mant_def fp_exp_def simp flip: r_def)
  show "pattern_of t emin (fp_mant t p) (fp_exp t emin p) = p"
  proof (cases "p div 2 ^ t")
    case 0
    then have "p mod 2 ^ t = p" by (metis div_mult_mod_eq add_0 mult_0)
    with 0 show ?thesis by (simp add: pattern_of_def fp_mant_def fp_exp_def)
  next
    case (Suc k)
    then have "Suc k * 2 ^ t + p mod 2 ^ t = p" by (metis div_mult_mod_eq)
    with Suc show ?thesis by (simp add: pattern_of_def fp_mant_def fp_exp_def)
  qed
qed

lemma f32_mk_id: "f32_mk (f32_sign w) (f32_mag w) = w"
proof -
  obtain m :: u32 where m: "m = 0x80000000" "\<And>n. bit m n \<longleftrightarrow> n = 31"
    using bit_top32 by blast
  have mag: "(of_nat (f32_mag w) :: u32) = take_bit 31 w" by (simp add: f32_mag_def)
  have "m AND take_bit 31 w = 0"
    by (rule bit_word_eqI) (auto simp: bit_and_iff bit_take_bit_iff m(2))
  then have "m + take_bit 31 w = m OR take_bit 31 w"
    by (rule disjunctive_add_eq_or)
  then have "f32_mk (f32_sign w) (f32_mag w) = (if bit w 31 then m OR take_bit 31 w else take_bit 31 w)"
    by (simp add: f32_mk_def mag m(1) f32_sign_def)
  also have "\<dots> = w"
  proof (rule bit_word_eqI)
    fix n :: nat assume "n < LENGTH(32)"
    then have "n < 31 \<or> n = 31" by auto
    then show "bit (if bit w 31 then m OR take_bit 31 w else take_bit 31 w) n = bit w n"
      by (auto simp: bit_or_iff bit_take_bit_iff m(2))
  qed
  finally show ?thesis .
qed

lemma f32_finite_bounds:
  assumes "p < top32"
  shows "fp_mant 23 p < 2 ^ 53" "- 1074 \<le> fp_exp 23 (- 149) p" "fp_exp 23 (- 149) p < 971"
proof -
  have "p div 2 ^ 23 \<le> 255" using assms div_le_mono[of p top32 "2 ^ 23"] by simp
  then have e: "int (p div 2 ^ 23) \<le> 255" by linarith
  define r where "r = p mod 2 ^ 23"
  have "r < 2 ^ 23" by (simp add: r_def)
  then have "r < 2 ^ 53" "2 ^ 23 + r < 2 ^ 53" by simp_all
  then show "fp_mant 23 p < 2 ^ 53" using assms unfolding fp_mant_def r_def by simp
  show "- 1074 \<le> fp_exp 23 (- 149) p" "fp_exp 23 (- 149) p < 971"
    using e by (auto simp: fp_exp_def)
qed

lemma f32_of_scaled_exact:
  assumes "0 < n" "real n * 2 powi e = real m * 2 powi k" "normal_form 23 (-149) m k"
    and "pattern_of 23 (-149) m k < top32"
  shows "f32_of_scaled s n e = f32_mk s (pattern_of 23 (-149) m k)"
proof (cases "0 \<le> e")
  case True
  then have "real (n * 2 ^ nat e) / real 1 = real m * 2 powi k"
    using assms(2) by (simp add: powi_nonneg)
  from fp_round_exact[OF _ _ this assms(3)] True assms(1,4) show ?thesis
    by (simp add: f32_of_scaled_def)
next
  case False
  then have "real n / real (2 ^ nat (- e)) = real m * 2 powi k"
    using assms(2) by (simp add: powi_neg)
  from fp_round_exact[OF assms(1) _ this assms(3)] False assms(4) show ?thesis
    by (simp add: f32_of_scaled_def)
qed

text \<open>Widening a finite \<open>float\<close> and narrowing the result gives it back.\<close>

lemma f32_widen_narrow_finite:
  assumes "f32_mag w < top32"
  shows "f32_of_f64 (f64_of_f32 w) = w"
proof -
  let ?p = "f32_mag w" and ?s = "f32_sign w"
  let ?m = "fp_mant 23 ?p" and ?e = "fp_exp 23 (- 149) ?p"
  note b = f32_finite_bounds[OF assms]
  have val: "f32_val w = Fin_val ?s ?m ?e"
    using assms by (simp add: f32_val_def fp_classify_def)
  then have wide: "f64_of_f32 w = exact64 ?s ?m ?e"
    by (simp add: f64_of_f32_def exact64_def)
  obtain M E where v: "f64_val (f64_of_f32 w) = Fin_val ?s M E" "E \<le> ?e" "M = ?m * 2 ^ nat (?e - E)"
    using exact64_val[OF b, of ?s] wide by auto
  have narrow: "f32_of_f64 (f64_of_f32 w) = f32_of_scaled ?s M E"
    by (simp add: f32_of_f64_def v(1))
  have pat: "pattern_of 23 (- 149) ?m ?e = ?p" by (rule decode_normal(2))
  show ?thesis
  proof (cases "?m = 0")
    case True
    then have "normal_form 23 (- 149) 0 ?e" using decode_normal(1)[of 23 "- 149" ?p] by simp
    then have "?e = - 149" by (simp add: normal_form_def)
    then have "?p = 0" using pat True by (simp add: pattern_of_def)
    moreover have "f32_of_scaled ?s M E = f32_mk ?s 0"
      using True v(3) by (simp add: f32_of_scaled_def fp_round_def)
    ultimately show ?thesis using narrow f32_mk_id[of w] by simp
  next
    case False
    have "2 powi ?e = (2 :: real) powi E * 2 ^ nat (?e - E)"
      using powi_add2[of E "?e - E"] v(2) by (simp add: powi_nonneg)
    then have "real M * 2 powi E = real ?m * 2 powi ?e" by (simp add: v(3))
    then have "f32_of_scaled ?s M E = f32_mk ?s (pattern_of 23 (- 149) ?m ?e)"
      using False v(3) assms pat by (intro f32_of_scaled_exact decode_normal(1)) simp_all
    then show ?thesis using narrow pat f32_mk_id[of w] by simp
  qed
qed

section \<open>Infinities and NaNs\<close>

lemma f32_mk_fields:
  assumes "p < 2 ^ 31"
  shows "f32_mag (f32_mk s p) = p" "f32_sign (f32_mk s p) = s"
proof -
  have un: "unat (of_nat p :: u32) = p"
    using assms by (simp add: unat_of_nat take_bit_eq_mod)
  have low: "take_bit 31 (of_nat p :: u32) = of_nat p"
    by (intro unsigned_word_eqI[where 'a = nat])
      (simp add: unsigned_take_bit_eq un take_bit_nat_eq_self[OF assms])
  obtain m :: u32 where m: "m = 0x80000000" "\<And>n. bit m n \<longleftrightarrow> n = 31"
    using bit_top32 by blast
  have nobit: "\<not> bit (of_nat p :: u32) 31"
    using low by (metis bit_take_bit_iff less_irrefl)
  have dj: "m AND (of_nat p :: u32) = 0"
    using nobit by (intro bit_word_eqI) (auto simp: bit_and_iff m(2) simp del: bit_of_nat_iff)
  have mk: "f32_mk s p = (if s then m OR of_nat p else of_nat p)"
    using disjunctive_add_eq_or[OF dj] by (simp add: f32_mk_def m(1))
  have "take_bit 31 m = 0" by (rule bit_word_eqI) (simp add: bit_take_bit_iff m(2))
  then have "take_bit 31 (f32_mk s p) = of_nat p"
    using low by (simp add: mk take_bit_or)
  then show "f32_mag (f32_mk s p) = p" by (simp add: f32_mag_def un)
  show "f32_sign (f32_mk s p) = s"
    using nobit by (simp add: f32_sign_def mk bit_or_iff m(2) del: bit_of_nat_iff)
qed

lemma bit_of_mag64:
  assumes "n < 63"
  shows "bit w n \<longleftrightarrow> bit (f64_mag w) n"
proof -
  have "bit (f64_mag w) n \<longleftrightarrow> bit (take_bit 63 w) n"
    by (simp add: f64_mag_def bit_unsigned_iff)
  then show ?thesis using assms by (simp add: bit_take_bit_iff)
qed

lemma bit_of_mag32:
  assumes "n < 31"
  shows "bit w n \<longleftrightarrow> bit (f32_mag w) n"
proof -
  have "bit (f32_mag w) n \<longleftrightarrow> bit (take_bit 31 w) n"
    by (simp add: f32_mag_def bit_unsigned_iff)
  then show ?thesis using assms by (simp add: bit_take_bit_iff)
qed

lemma or_bit_absorb:
  fixes w :: "'a::len word"
  assumes "bit w k" "\<And>n. bit m n \<longleftrightarrow> n = k"
  shows "w OR m = w"
  by (rule bit_word_eqI) (use assms in \<open>auto simp: bit_or_iff\<close>)

lemma and_bit_clear:
  fixes w :: "'a::len word"
  assumes "\<not> bit w k" "\<And>n. bit m n \<longleftrightarrow> n = k"
  shows "w AND m = 0"
  by (rule bit_word_eqI) (use assms in \<open>auto simp: bit_and_iff\<close>)

lemma quiet_bits:
  "bit (0x8000000000000 :: u64) n \<longleftrightarrow> n = 51" "bit (0x400000 :: u32) n \<longleftrightarrow> n = 22"
proof -
  have "(0x8000000000000 :: u64) = push_bit 51 1" "(0x400000 :: u32) = push_bit 22 1" by simp_all
  moreover have "bit (push_bit 51 1 :: u64) n \<longleftrightarrow> n = 51" "bit (push_bit 22 1 :: u32) n \<longleftrightarrow> n = 22"
    by (simp_all only: bit_push_bit_iff bit_1_iff) auto
  ultimately show "bit (0x8000000000000 :: u64) n \<longleftrightarrow> n = 51" "bit (0x400000 :: u32) n \<longleftrightarrow> n = 22"
    by metis+
qed

lemma f32_mag_bound: "f32_mag w < 2 ^ 31"
  unfolding f32_mag_def by (simp only: unsigned_take_bit_eq) (rule take_bit_nat_less_exp)

text \<open>All patterns but the signalling NaNs.\<close>

definition f32_quiet :: "f32 \<Rightarrow> bool" where
  "f32_quiet w \<longleftrightarrow> f32_mag w \<le> top32 \<or> bit w 22"

lemma f32_widen_narrow_nan:
  assumes "top32 < f32_mag w" "bit w 22"
  shows "f32_of_f64 (f64_of_f32 w) = w"
proof -
  define r where "r = f32_mag w - top32"
  have mag: "f32_mag w = top32 + r" "0 < r" using assms(1) by (simp_all add: r_def)
  have rb: "r < 2 ^ 23" using f32_mag_bound[of w] by (simp add: r_def)
  define P where "P = top64 + r * 2 ^ 29"
  have Pb: "P < 2 ^ 63" using rb by (simp add: P_def)
  have "odd (f32_mag w div 2 ^ 22)"
    using assms(2) bit_of_mag32[of 22 w] by (simp add: bit_iff_odd)
  moreover have "f32_mag w = 510 * 2 ^ 22 + r" by (simp add: mag(1))
  moreover have "(510 * 2 ^ 22 + r) div 2 ^ 22 = 510 + r div 2 ^ 22"
    by (rule div_mult_self3) simp
  ultimately have "odd (r div 2 ^ 22)" by simp
  moreover have "P div 2 ^ 51 = 4094 + r div 2 ^ 22"
  proof -
    have "P = 2 ^ 29 * (2 ^ 22 * 4094 + r)" by (simp add: P_def)
    then have "P div 2 ^ 51 = (2 ^ 29 * (2 ^ 22 * 4094 + r)) div (2 ^ 29 * 2 ^ 22)" by simp
    also have "\<dots> = (2 ^ 22 * 4094 + r) div 2 ^ 22" by (rule div_mult_mult1) simp
    finally show ?thesis by simp
  qed
  ultimately have "bit (f64_mk (f32_sign w) P) 51"
    using bit_of_mag64[of 51 "f64_mk (f32_sign w) P"] f64_mk_fields(1)[OF Pb] by (simp add: bit_iff_odd)
  then have "f64_mk (f32_sign w) P OR 0x8000000000000 = f64_mk (f32_sign w) P"
    by (rule or_bit_absorb) (rule quiet_bits(1))
  moreover have "f32_val w = NaN_val" using assms(1) by (simp add: f32_val_def fp_classify_def)
  ultimately have wide: "f64_of_f32 w = f64_mk (f32_sign w) P"
    by (simp add: f64_of_f32_def P_def r_def)
  have "f64_val (f64_mk (f32_sign w) P) = NaN_val"
    using mag(2) by (simp add: f64_val_def fp_classify_def f64_mk_fields[OF Pb]) (simp add: P_def)
  then have "f32_of_f64 (f64_of_f32 w) = f32_mk (f32_sign w) (top32 + (P - top64) div 2 ^ 29) OR 0x400000"
    by (simp add: wide f32_of_f64_def f64_mk_fields[OF Pb])
  also have "(P - top64) div 2 ^ 29 = r" by (simp add: P_def)
  also have "f32_mk (f32_sign w) (top32 + r) = w" using f32_mk_id[of w] mag(1) by simp
  also have "w OR 0x400000 = w" using assms(2) by (rule or_bit_absorb) (rule quiet_bits(2))
  finally show ?thesis .
qed

theorem f32_widen_narrow:
  assumes "f32_quiet w"
  shows "f32_of_f64 (f64_of_f32 w) = w"
proof -
  consider "f32_mag w < top32" | "f32_mag w = top32" | "top32 < f32_mag w" "bit w 22"
    using assms unfolding f32_quiet_def by linarith
  then show ?thesis
  proof cases
    case 2
    then have "f32_val w = Inf_val (f32_sign w)" by (simp add: f32_val_def fp_classify_def)
    moreover have "f64_val (f64_mk s top64) = Inf_val s" for s
      using f64_mk_fields[of top64 s] by (simp add: f64_val_def fp_classify_def)
    ultimately show ?thesis
      using f32_mk_id[of w] 2 by (simp add: f64_of_f32_def f32_of_f64_def)
  qed (rule f32_widen_narrow_finite f32_widen_narrow_nan; assumption)+
qed

lemma f32_of_f64_quiet: "f32_quiet (f32_of_f64 x)"
proof (cases "f64_val x")
  case NaN_val
  then show ?thesis by (simp add: f32_quiet_def f32_of_f64_def bit_or_iff quiet_bits)
next
  case (Inf_val s)
  then show ?thesis using f32_mk_fields[of top32 s] by (simp add: f32_quiet_def f32_of_f64_def)
next
  case (Fin_val s m e)
  have small: "fp_round 23 (- 149) top32 n d \<le> top32" for n d
    by (simp add: fp_round_def fp_pattern_def)
  then have "f32_mag (f32_mk s (fp_round 23 (- 149) top32 n d)) \<le> top32" for n d
    using f32_mk_fields(1)[of "fp_round 23 (- 149) top32 n d" s] le_less_trans[OF small[of n d], of "2 ^ 31"] by simp
  with Fin_val show ?thesis by (simp add: f32_quiet_def f32_of_f64_def f32_of_scaled_def)
qed

section \<open>Rounding is monotone\<close>

lemma round_half_even_mono:
  assumes "0 < d" "0 < d'" "n * d' \<le> n' * d"
  shows "round_half_even n d \<le> round_half_even n' d'"
proof -
  define q r q' r' where "q = n div d" and "r = n mod d" and "q' = n' div d'" and "r' = n' mod d'"
  have n: "n = q * d + r" "r < d" and n': "n' = q' * d' + r'" "r' < d'"
    using assms by (simp_all add: q_def r_def q'_def r'_def)
  have "q * (d * d') \<le> n * d'" by (simp add: n(1) algebra_simps)
  also have "\<dots> \<le> n' * d" by (rule assms(3))
  also have "n' * d < (q' + 1) * (d * d')"
  proof -
    have "n' < (q' + 1) * d'" using n' by (simp add: algebra_simps)
    then have "n' * d < (q' + 1) * d' * d" using assms(1) by simp
    then show ?thesis by (simp add: ac_simps)
  qed
  finally have "q < q' + 1" using assms(1,2) by (metis mult_less_cancel2)
  then consider "q < q'" | "q = q'" by linarith
  then show ?thesis
  proof cases
    case 1
    have "round_half_even n d \<le> q + 1" "q' \<le> round_half_even n' d'"
      by (simp_all add: round_half_even_def round_up_def q_def q'_def)
    with 1 show ?thesis by linarith
  next
    case 2
    have rr: "r * d' \<le> r' * d"
      using assms(3) 2 by (simp add: n(1) n'(1) algebra_simps)
    have lt: "d' < 2 * r'" if "d < 2 * r"
    proof -
      have "d * d' < 2 * r * d'" using that assms(2) by simp
      also have "\<dots> \<le> 2 * r' * d" using rr by simp
      finally show ?thesis by (metis mult.commute mult_less_cancel2)
    qed
    have le: "d' \<le> 2 * r'" if "d = 2 * r"
    proof -
      have "d' * d \<le> 2 * r' * d" using rr that by (simp add: ac_simps)
      then show ?thesis using assms(1) by simp
    qed
    have "round_half_even n d = round_up q r d" "round_half_even n' d' = round_up q r' d'"
      using 2 by (simp_all add: round_half_even_def q_def r_def q'_def r'_def)
    then show ?thesis
      using lt le by (auto simp: round_up_def)
  qed
qed

lemma cross_le:
  assumes "0 < d" "0 < d'"
  shows "n * d' \<le> n' * d \<longleftrightarrow> real n / real d \<le> real n' / real d'"
proof -
  have "n * d' \<le> n' * d \<longleftrightarrow> real n * real d' \<le> real n' * real d"
    by (metis of_nat_le_iff of_nat_mult)
  then show ?thesis using assms by (simp add: field_simps)
qed

lemma round_at_mono:
  assumes "0 < d" "0 < d'" "real n / real d \<le> real n' / real d'"
  shows "round_at n d e \<le> round_at n' d' e"
proof -
  have c: "n * d' \<le> n' * d" using assms cross_le by blast
  then have "n * (d' * 2 ^ nat e) \<le> n' * (d * 2 ^ nat e)" "n * 2 ^ nat (- e) * d' \<le> n' * 2 ^ nat (- e) * d"
    by (simp_all add: ac_simps)
  then show ?thesis using assms by (simp add: round_at_def round_half_even_mono)
qed

text \<open>A ratio with the value \<open>M * 2 powi E\<close>.\<close>

lemma ratio_exists:
  obtains n d where "0 < d" "real n / real d = real M * 2 powi E" "M = 0 \<longleftrightarrow> n = 0"
proof (cases "0 \<le> E")
  case True
  then show thesis by (intro that[of 1 "M * 2 ^ nat E"]) (simp_all add: powi_nonneg)
next
  case False
  then show thesis by (intro that[of "2 ^ nat (- E)" M]) (simp_all add: powi_neg)
qed

lemma round_at_le: "0 < d \<Longrightarrow> real n / real d \<le> real M * 2 powi e \<Longrightarrow> round_at n d e \<le> M"
  using ratio_exists[of M e] round_at_mono[of d _ n _ e] round_at_exact by metis

lemma round_at_ge: "0 < d \<Longrightarrow> real M * 2 powi e \<le> real n / real d \<Longrightarrow> M \<le> round_at n d e"
  using ratio_exists[of M e] round_at_mono[of _ d _ n e] round_at_exact by metis

lemma fp_round_mono:
  assumes "0 < n" "0 < d" "0 < n'" "0 < d'" and v: "real n / real d \<le> real n' / real d'"
  shows "fp_round t emin infp n d \<le> fp_round t emin infp n' d'"
proof -
  define k where "k = lead_exp n d"
  define k' where "k' = lead_exp n' d'"
  define e where "e = max emin (k - int t)"
  define e' where "e' = max emin (k' - int t)"
  have k: "2 powi k \<le> real n / real d" "real n / real d < 2 powi (k + 1)"
    and k': "2 powi k' \<le> real n' / real d'" "real n' / real d' < 2 powi (k' + 1)"
    using lead_exp_spec[OF assms(1,2)] lead_exp_spec[OF assms(3,4)] by (simp_all add: k_def k'_def)
  have "2 powi k < (2 :: real) powi (k' + 1)" using k k' v by linarith
  then have "k \<le> k'" by (simp add: powi_less_iff)
  then have "e \<le> e'" by (simp add: e_def e'_def)
  have "nat (e - emin) * 2 ^ t + round_at n d e \<le> nat (e' - emin) * 2 ^ t + round_at n' d' e'"
  proof (cases "e = e'")
    case True
    then show ?thesis using round_at_mono[OF assms(2,4) v] by simp
  next
    case False
    with \<open>e \<le> e'\<close> have lt: "e < e'" by simp
    then have e': "e' = k' - int t" "emin < e'" by (auto simp: e_def e'_def)
    have "round_at n d e \<le> 2 ^ (t + 1)"
    proof (rule round_at_le[OF assms(2)])
      have "real (2 ^ (t + 1)) * 2 powi e = 2 powi (int t + 1 + e)"
        using powi_nat[of "t + 1"] by (simp add: powi_add2)
      moreover have "(2 :: real) powi (k + 1) \<le> 2 powi (int t + 1 + e)"
        by (rule power_int_increasing) (simp_all add: e_def)
      ultimately show "real n / real d \<le> real (2 ^ (t + 1)) * 2 powi e" using k(2) by linarith
    qed
    moreover have "2 ^ t \<le> round_at n' d' e'"
    proof (rule round_at_ge[OF assms(4)])
      have "real (2 ^ t) * 2 powi e' = 2 powi k'"
        using powi_add2[of "int t" e'] by (simp add: e'(1))
      then show "real (2 ^ t) * 2 powi e' \<le> real n' / real d'" using k'(1) by simp
    qed
    moreover have "nat (e - emin) * 2 ^ t + 2 ^ (t + 1) \<le> nat (e' - emin) * 2 ^ t + 2 ^ t"
    proof -
      have "emin \<le> e" by (simp add: e_def)
      then have "nat (e - emin) + 1 \<le> nat (e' - emin)" using lt by simp
      then have "(nat (e - emin) + 1) * 2 ^ t \<le> nat (e' - emin) * 2 ^ t" by (rule mult_le_mono1)
      then show ?thesis by simp
    qed
    ultimately show ?thesis by linarith
  qed
  then show ?thesis
    using assms by (simp add: fp_round_def fp_pattern_def min_def flip: k_def k'_def) (simp add: e_def e'_def)
qed

lemma fp_round_le:
  assumes "0 < d" "real n / real d \<le> real M * 2 powi E" "normal_form t emin M E"
  shows "fp_round t emin infp n d \<le> pattern_of t emin M E"
proof (cases "n = 0")
  case False
  then have "0 < real n / real d" using assms(1) by simp
  then have "M \<noteq> 0" using assms(2) by (cases "M = 0") simp_all
  then obtain n' d' where r: "0 < d'" "real n' / real d' = real M * 2 powi E" "0 < n'"
    using ratio_exists[of M E] by (metis not_gr_zero)
  have "fp_round t emin infp n d \<le> fp_round t emin infp n' d'"
    using False assms r by (intro fp_round_mono) simp_all
  also have "\<dots> \<le> pattern_of t emin M E" using fp_round_exact[OF r(3,1,2) assms(3)] by simp
  finally show ?thesis .
qed (simp add: fp_round_def)

text \<open>Larger patterns stand for larger values.\<close>

definition pattern_value :: "nat \<Rightarrow> int \<Rightarrow> nat \<Rightarrow> real" where
  "pattern_value t emin p = real (fp_mant t p) * 2 powi fp_exp t emin p"

lemma pattern_value_mono:
  assumes "p \<le> p'"
  shows "pattern_value t emin p \<le> pattern_value t emin p'"
proof -
  define c r c' r' where "c = p div 2 ^ t" and "r = p mod 2 ^ t" and "c' = p' div 2 ^ t" and "r' = p' mod 2 ^ t"
  have p: "p = c * 2 ^ t + r" "r < 2 ^ t" and p': "p' = c' * 2 ^ t + r'" "r' < 2 ^ t"
    unfolding c_def r_def c'_def r'_def by (simp_all only: div_mult_mod_eq) simp_all
  have v: "pattern_value t emin p = (if c = 0 then real r * 2 powi emin else (2 ^ t + real r) * 2 powi (emin + int c - 1))"
    and v': "pattern_value t emin p' = (if c' = 0 then real r' * 2 powi emin else (2 ^ t + real r') * 2 powi (emin + int c' - 1))"
    by (simp_all add: pattern_value_def fp_mant_def fp_exp_def c_def r_def c'_def r'_def)
  have "c \<le> c'" unfolding c_def c'_def using assms by (rule div_le_mono)
  then consider "c = c'" | "c < c'" by linarith
  then show ?thesis
  proof cases
    case 1
    then have "r \<le> r'" using assms p(1) p'(1) by simp
    with 1 show ?thesis by (simp add: v v')
  next
    case 2
    have rr: "real r < 2 ^ t" using p(2) by (metis of_nat_less_iff of_nat_numeral of_nat_power)
    have top: "pattern_value t emin p \<le> 2 ^ t * 2 powi (emin + int c)"
    proof (cases "c = 0")
      case True
      with rr show ?thesis by (simp add: v)
    next
      case False
      have "(2 ^ t + real r) * 2 powi (emin + int c - 1) \<le> (2 * 2 ^ t) * 2 powi (emin + int c - 1)"
        using rr by (intro mult_right_mono) simp_all
      also have "\<dots> = 2 ^ t * 2 powi (emin + int c)"
        using powi_add2[of 1 "emin + int c - 1"] by simp
      finally show ?thesis using False by (simp add: v)
    qed
    have "(2 :: real) powi (emin + int c) \<le> 2 powi (emin + int c' - 1)"
      using 2 by (intro power_int_increasing) simp_all
    then have "2 ^ t * 2 powi (emin + int c) \<le> 2 ^ t * (2 :: real) powi (emin + int c' - 1)"
      by simp
    also have "\<dots> \<le> pattern_value t emin p'"
      using 2 by (simp add: v' mult_right_mono)
    finally show ?thesis using top by linarith
  qed
qed

text \<open>Rounding a double up or down to a representable bound does not cross it.\<close>

lemma scaled_ratio:
  assumes "0 < d"
  obtains n' d' where "0 < d'" "real n' / real d' = real n / real d * 2 powi e" "n = 0 \<longleftrightarrow> n' = 0"
    "f64_of_scaled False n d e = f64_mk False (fp_round 52 (-1074) top64 n' d')"
proof (cases "0 \<le> e")
  case True
  then show thesis using assms
    by (intro that[of d "n * 2 ^ nat e"]) (simp_all add: f64_of_scaled_def powi_nonneg)
next
  case False
  then show thesis using assms
    by (intro that[of "d * 2 ^ nat (- e)" n]) (simp_all add: f64_of_scaled_def powi_neg)
qed

lemma f64_of_scaled_le:
  assumes "0 < d" "real n / real d * 2 powi e \<le> real N * 2 powi k" "0 < N" "N < 2 ^ 53" "- 1074 \<le> k" "k < 971"
  shows "\<exists>M E. f64_val (f64_of_scaled False n d e) = Fin_val False M E \<and> real M * 2 powi E \<le> real N * 2 powi k"
proof -
  obtain M E where nf: "normal_form 52 (-1074) M E" "real M * 2 powi E = real N * 2 powi k" "E \<le> k" "M = N * 2 ^ nat (k - E)"
    using normal_form_exists[of N 52 "- 1074" k] assms by auto
  let ?P = "pattern_of 52 (-1074) M E"
  have P: "?P < top64" using normal_pattern_bound[OF nf(1)] nf(3) assms(6) by simp
  have val: "pattern_value 52 (-1074) ?P = real N * 2 powi k"
    using decode_pattern[OF nf(1)] nf(2) by (simp add: pattern_value_def)
  obtain n' d' where nd: "0 < d'" "real n' / real d' = real n / real d * 2 powi e"
      "f64_of_scaled False n d e = f64_mk False (fp_round 52 (-1074) top64 n' d')"
    using scaled_ratio[OF assms(1), of n e] by metis
  let ?p = "fp_round 52 (-1074) top64 n' d'"
  have le: "?p \<le> ?P" using nd nf(1,2) assms(2) by (intro fp_round_le) simp_all
  then have "?p < 2 ^ 63" "?p < top64" using P by simp_all
  then have "f64_val (f64_mk False ?p) = Fin_val False (fp_mant 52 ?p) (fp_exp 52 (-1074) ?p)"
    using f64_mk_fields[of ?p False] by (simp add: f64_val_def fp_classify_def)
  moreover have "real (fp_mant 52 ?p) * 2 powi fp_exp 52 (-1074) ?p \<le> real N * 2 powi k"
    using pattern_value_mono[OF le, of 52 "- 1074"] val by (simp add: pattern_value_def)
  ultimately show ?thesis using nd(3) by auto
qed

lemma fp_round_ge:
  assumes "0 < d" "real M * 2 powi E \<le> real n / real d" "0 < M" "normal_form t emin M E"
  shows "min infp (pattern_of t emin M E) \<le> fp_round t emin infp n d"
proof -
  obtain n' d' where r: "0 < d'" "real n' / real d' = real M * 2 powi E" "0 < n'"
    using ratio_exists[of M E] assms(3) by (metis not_gr_zero)
  have "0 < real M * 2 powi E" using assms(3) by simp
  then have "n \<noteq> 0" using assms(2) by (cases "n = 0") simp_all
  have "min infp (pattern_of t emin M E) = fp_round t emin infp n' d'"
    using fp_round_exact[OF r(3,1,2) assms(4)] by simp
  also have "\<dots> \<le> fp_round t emin infp n d"
    using \<open>n \<noteq> 0\<close> assms r by (intro fp_round_mono) simp_all
  finally show ?thesis .
qed

lemma f64_of_scaled_ge:
  assumes "0 < d" "real N * 2 powi k \<le> real n / real d * 2 powi e" "0 < N" "N < 2 ^ 53" "- 1074 \<le> k" "k < 971"
    and fin: "f64_val (f64_of_scaled False n d e) = Fin_val False M' E'"
  shows "real N * 2 powi k \<le> real M' * 2 powi E'"
proof -
  obtain M E where nf: "normal_form 52 (-1074) M E" "real M * 2 powi E = real N * 2 powi k" "E \<le> k" "M = N * 2 ^ nat (k - E)"
    using normal_form_exists[of N 52 "- 1074" k] assms by auto
  let ?P = "pattern_of 52 (-1074) M E"
  have P: "?P < top64" using normal_pattern_bound[OF nf(1)] nf(3) assms(6) by simp
  have val: "pattern_value 52 (-1074) ?P = real N * 2 powi k"
    using decode_pattern[OF nf(1)] nf(2) by (simp add: pattern_value_def)
  obtain n' d' where nd: "0 < d'" "real n' / real d' = real n / real d * 2 powi e"
      "f64_of_scaled False n d e = f64_mk False (fp_round 52 (-1074) top64 n' d')"
    using scaled_ratio[OF assms(1), of n e] by metis
  let ?p = "fp_round 52 (-1074) top64 n' d'"
  have "real M * 2 powi E \<le> real n' / real d'" using nf(2) nd(2) assms(2) by (simp only:)
  moreover have "0 < M" using nf(4) assms(3) by simp
  ultimately have "min top64 ?P \<le> ?p" using nd(1) nf(1) by (intro fp_round_ge)
  then have ge: "?P \<le> ?p" using P by simp
  have "?p \<le> top64" by (simp add: fp_round_def fp_pattern_def)
  then have "f64_mag (f64_mk False ?p) = ?p" "f64_sign (f64_mk False ?p) = False"
    using f64_mk_fields[of ?p False] by simp_all
  then have "M' = fp_mant 52 ?p" "E' = fp_exp 52 (-1074) ?p"
    using fin nd(3) by (auto simp: f64_val_def fp_classify_def split: if_splits)
  then show ?thesis
    using pattern_value_mono[OF ge, of 52 "- 1074"] val by (simp add: pattern_value_def)
qed

lemma scaled_floor_le: "real (scaled_floor M E) \<le> real M * 2 powi E"
proof (cases "0 \<le> E")
  case True
  then show ?thesis by (simp add: scaled_floor_def powi_nonneg)
next
  case False
  have "M div 2 ^ nat (- E) * 2 ^ nat (- E) \<le> M" by simp
  then have "real (M div 2 ^ nat (- E)) * 2 ^ nat (- E) \<le> real M"
    by (metis of_nat_le_iff of_nat_mult of_nat_numeral of_nat_power)
  then have "real (M div 2 ^ nat (- E)) \<le> real M / 2 ^ nat (- E)" by (simp add: field_simps)
  then show ?thesis using False by (simp add: scaled_floor_def powi_neg)
qed

lemma scaled_floor_gt: "real M * 2 powi E < real (scaled_floor M E) + 1"
proof (cases "0 \<le> E")
  case True
  then show ?thesis by (simp add: scaled_floor_def powi_nonneg)
next
  case False
  have "M < (M div 2 ^ nat (- E) + 1) * 2 ^ nat (- E)"
    using dividend_less_div_times[of "2 ^ nat (- E)" M] by (simp add: algebra_simps)
  then have "real M < real ((M div 2 ^ nat (- E) + 1) * 2 ^ nat (- E))"
    by (simp only: of_nat_less_iff)
  then have "real M < (real (M div 2 ^ nat (- E)) + 1) * 2 ^ nat (- E)"
    by (simp add: distrib_right)
  then show ?thesis using False by (simp add: scaled_floor_def powi_neg pos_divide_less_eq)
qed

text \<open>Widening, narrowing and widening again is widening, signalling NaNs included.\<close>

lemma f64_of_f32_quieted:
  assumes "top32 < f32_mag w" "\<not> bit w 22"
  shows "f64_of_f32 (w OR 0x400000) = f64_of_f32 w"
proof -
  define r where "r = f32_mag w - top32"
  have mag: "f32_mag w = top32 + r" "0 < r" using assms(1) by (simp_all add: r_def)
  have rb: "r < 2 ^ 23" using f32_mag_bound[of w] by (simp add: r_def)
  have "even (f32_mag w div 2 ^ 22)"
    using assms(2) bit_of_mag32[of 22 w] by (simp add: bit_iff_odd)
  moreover have "f32_mag w = 510 * 2 ^ 22 + r" by (simp add: mag(1))
  moreover have "(510 * 2 ^ 22 + r) div 2 ^ 22 = 510 + r div 2 ^ 22" by (rule div_mult_self3) simp
  ultimately have q: "even (r div 2 ^ 22)" by simp
  have dj: "w AND 0x400000 = 0"
    using assms(2) by (rule and_bit_clear) (rule quiet_bits(2))
  have "f32_mk (f32_sign w) (top32 + (r + 2 ^ 22)) = f32_mk (f32_sign w) (top32 + r) + 0x400000"
    by (simp add: f32_mk_def)
  also have "f32_mk (f32_sign w) (top32 + r) = w" using f32_mk_id[of w] mag(1) by simp
  also have "w + 0x400000 = w OR 0x400000" by (rule disjunctive_add_eq_or[OF dj])
  finally have "w OR 0x400000 = f32_mk (f32_sign w) (top32 + (r + 2 ^ 22))" by (rule sym)
  moreover have r2: "r + 2 ^ 22 < 2 ^ 23"
  proof -
    have "r div 2 ^ 22 < 2" using rb by simp
    with q have "r div 2 ^ 22 = 0" by (cases "r div 2 ^ 22 = 1") (simp_all del: div_eq_0_iff)
    then show ?thesis by simp
  qed
  ultimately have quiet: "f32_mag (w OR 0x400000) = top32 + (r + 2 ^ 22)" "f32_sign (w OR 0x400000) = f32_sign w"
    using f32_mk_fields[of "top32 + (r + 2 ^ 22)" "f32_sign w"] by simp_all
  define P where "P = top64 + r * 2 ^ 29"
  have Pb: "P < 2 ^ 63" using rb by (simp add: P_def)
  have "P div 2 ^ 51 = 4094 + r div 2 ^ 22"
  proof -
    have "P = 2 ^ 29 * (2 ^ 22 * 4094 + r)" by (simp add: P_def)
    then have "P div 2 ^ 51 = (2 ^ 29 * (2 ^ 22 * 4094 + r)) div (2 ^ 29 * 2 ^ 22)" by simp
    also have "\<dots> = (2 ^ 22 * 4094 + r) div 2 ^ 22" by (rule div_mult_mult1) simp
    finally show ?thesis by simp
  qed
  with q have "\<not> bit (f64_mk (f32_sign w) P) 51"
    using bit_of_mag64[of 51 "f64_mk (f32_sign w) P"] f64_mk_fields(1)[OF Pb] by (simp add: bit_iff_odd)
  then have dj64: "f64_mk (f32_sign w) P AND 0x8000000000000 = 0"
    by (rule and_bit_clear) (rule quiet_bits(1))
  have "f64_mk (f32_sign w) (P + 2 ^ 51) = f64_mk (f32_sign w) P + 0x8000000000000"
    by (simp add: f64_mk_def)
  then have wide: "f64_mk (f32_sign w) (P + 2 ^ 51) = f64_mk (f32_sign w) P OR 0x8000000000000"
    by (simp only: disjunctive_add_eq_or[OF dj64])
  have P2: "top64 + (r + 2 ^ 22) * 2 ^ 29 = P + 2 ^ 51" by (simp add: P_def)
  have "f32_val w = NaN_val" "f32_val (w OR 0x400000) = NaN_val"
    using mag quiet(1) by (simp_all add: f32_val_def fp_classify_def)
  then show ?thesis
    by (simp only: f64_of_f32_def fpval.case quiet mag(1) diff_add_inverse P2 wide or.assoc or.idem P_def[symmetric])
qed

theorem f64_widen_narrow_widen: "f64_of_f32 (f32_of_f64 (f64_of_f32 w)) = f64_of_f32 w"
proof (cases "f32_quiet w")
  case True
  then show ?thesis by (simp add: f32_widen_narrow)
next
  case False
  then have w: "top32 < f32_mag w" "\<not> bit w 22" by (simp_all add: f32_quiet_def not_le)
  have "f32_quiet (w OR 0x400000)" by (simp add: f32_quiet_def bit_or_iff quiet_bits)
  then show ?thesis
    using f32_widen_narrow[of "w OR 0x400000"] f64_of_f32_quieted[OF w] by metis
qed

end
