(* ===== verification/Time_Codes.thy ===== *)
theory Time_Codes
  imports Data_Frame Float_Facts "HOL-Library.Signed_Division"
begin

text \<open>
  Time stamps (\<open>src/pmu/c37118.cpp\<close>): the quality byte (\<open>parseTimeQuality\<close>,
  \<open>getTimeQualityCode\<close>) and the conversion of a point in time to the second and fraction fields
  of a frame (\<open>generateTimeCodes\<close>).
\<close>

section \<open>The code\<close>

definition tqArray :: "f32 list" where
  "tqArray = [0x2B8CBCCC, 0x3089705F, 0x322BCC77, 0x33D6BF95, 0x358637BD, 0x3727C5AC, 0x38D1B717,
     0x3A83126F, 0x3C23D70A, 0x3DCCCCCD, 0x3F800000, 0x41200000, 0x42C80000, 0x447A0000, 0x461C4000,
     0x7F7FFFFF]"

definition parseTimeQuality :: "u8 \<Rightarrow> TimeQuality option" where
  "parseTimeQuality tq = do {
     let timeQualityCode = (ucast (tq AND 0x0F) :: 4 word);
     timeQuality \<leftarrow> idx tqArray (unat timeQualityCode);
     Some \<lparr>tq_reserved = (if tq AND 0x80 \<noteq> 0 then 1 else 0),
       tq_leapSecondDirection = (if tq AND 0x40 \<noteq> 0 then 1 else 0),
       tq_leapSecondOccurred = (if tq AND 0x20 \<noteq> 0 then 1 else 0),
       tq_leapSecondPending = (if tq AND 0x10 \<noteq> 0 then 1 else 0),
       tq_timeQualityCode = timeQualityCode, tq_timeQuality = timeQuality\<rparr>
   }"

text \<open>The loop has no bound of its own: it runs to the end of the array and reads behind it when no
  entry reaches the tolerance.\<close>

function tq_search :: "f32 \<Rightarrow> nat \<Rightarrow> nat option" where
  "tq_search tolerance code = (case idx tqArray code of None \<Rightarrow> None
     | Some t \<Rightarrow> if f32_lt t tolerance then tq_search tolerance (code + 1) else Some code)"
  by pat_completeness auto
termination
  by (relation "measure (\<lambda>(_, code). length tqArray - code)") (auto simp: idx_def split: if_splits)

declare tq_search.simps [simp del]

definition getTimeQualityCode :: "f32 \<Rightarrow> u8 option" where
  "getTimeQualityCode tolerance = map_option of_nat (tq_search tolerance 0)"

text \<open>\<open>tp\<close> is the count of a \<open>std::chrono::nanoseconds\<close>; \<open>duration_cast\<close> truncates
  toward zero.\<close>

definition generateTimeCodes :: "int \<Rightarrow> u32 \<Rightarrow> f32 \<Rightarrow> (u32 \<times> u32) option" where
  "generateTimeCodes tp timeBase tolerance = do {
     let secondsUTC = tp sdiv 1000000000;
     let frac = tp - secondsUTC * 1000000000;
     let frsec = f64_div (f64_of_int frac) lit_1e9;
     ticks \<leftarrow> f64_to_u32 (f64_mul frsec (f64_of_int (uint timeBase)));
     tqcode \<leftarrow> getTimeQualityCode tolerance;
     Some (word_of_int secondsUTC, (ticks AND 0x00FFFFFF) + push_bit 24 (ucast tqcode))
   }"

text \<open>The overload of the header takes the tolerance as a double, by default 0, which the call narrows.\<close>

definition generateTimeCodes_cfg :: "int \<Rightarrow> Config \<Rightarrow> f64 \<Rightarrow> (u32 \<times> u32) option" where
  "generateTimeCodes_cfg tp config tolerance = generateTimeCodes tp (cfg_timeBase config) (f32_of_f64 tolerance)"

lemma tolerance_0 [simp]: "f32_of_f64 0 = 0"
  by (simp add: fp_eval)

section \<open>The quality code\<close>

lemma length_tqArray [simp]: "length tqArray = 16"
  by (simp add: tqArray_def)

lemma tq_search_least:
  assumes "tq_search tolerance code = Some c"
  shows "code \<le> c \<and> c < 16 \<and> \<not> f32_lt (tqArray ! c) tolerance \<and>
    (\<forall>i. code \<le> i \<longrightarrow> i < c \<longrightarrow> f32_lt (tqArray ! i) tolerance)"
  using assms
proof (induction tolerance code rule: tq_search.induct)
  case (1 tolerance code)
  show ?case
  proof (cases "code < 16")
    case False
    then show ?thesis using 1(2) by (subst (asm) tq_search.simps) (simp add: idx_def)
  next
    case True
    show ?thesis
    proof (cases "f32_lt (tqArray ! code) tolerance")
      case lt: True
      then have "tq_search tolerance (code + 1) = Some c"
        using 1(2) True by (subst (asm) tq_search.simps) simp
      then have ih: "code + 1 \<le> c \<and> c < 16 \<and> \<not> f32_lt (tqArray ! c) tolerance \<and>
          (\<forall>i. code + 1 \<le> i \<longrightarrow> i < c \<longrightarrow> f32_lt (tqArray ! i) tolerance)"
        using 1(1)[of "tqArray ! code"] True lt by simp
      have "f32_lt (tqArray ! i) tolerance" if "code \<le> i" "i < c" for i
        using ih lt that by (cases "i = code") simp_all
      with ih show ?thesis by simp
    next
      case False
      then have "c = code" using 1(2) True by (subst (asm) tq_search.simps) simp
      with False True show ?thesis by simp
    qed
  qed
qed

lemma tq_search_None:
  assumes "tq_search tolerance code = None" "code \<le> i" "i < 16"
  shows "f32_lt (tqArray ! i) tolerance"
  using assms
proof (induction tolerance code rule: tq_search.induct)
  case (1 tolerance code)
  then have c: "code < 16" by simp
  then have lt: "f32_lt (tqArray ! code) tolerance" and rest: "tq_search tolerance (code + 1) = None"
    using 1(2) by (subst (asm) tq_search.simps, simp split: if_splits)+
  show ?case
  proof (cases "i = code")
    case False
    then show ?thesis using 1(1)[of "tqArray ! code"] c lt rest 1(3,4) by simp
  qed (use lt in simp)
qed

lemma beyond_max: "f32_lt 0x7F7FFFFF w \<longleftrightarrow> w = 0x7F800000"
proof
  assume lt: "f32_lt 0x7F7FFFFF w"
  have k: "f32_key 0x7F7FFFFF = 2139095039" by (simp add: fp_eval)
  have "f32_mag w = top32" "\<not> f32_sign w"
    using lt k by (auto simp: f32_lt_def f32_key_def[of w] split: if_splits)
  then have "f32_mk False top32 = w" using f32_mk_id[of w] by simp
  then show "w = 0x7F800000" by (simp add: f32_mk_def)
qed (simp add: fp_eval)

text \<open>C36: the quality code is the best one that covers the tolerance: what a receiver reads
  out of it is not below the tolerance, and the next better code would be.  The one tolerance without an
  answer is infinity, for which the code reads behind its table.\<close>

theorem time_quality_covers:
  shows "if tolerance = 0x7F800000 then getTimeQualityCode tolerance = None
    else \<exists>code q. getTimeQualityCode tolerance = Some code \<and> parseTimeQuality code = Some q \<and>
      \<not> f32_lt (tq_timeQuality q) tolerance \<and>
      (\<forall>i < unat code. f32_lt (tqArray ! i) tolerance)"
proof (cases "tq_search tolerance 0")
  case None
  then have "f32_lt (tqArray ! 15) tolerance" by (rule tq_search_None) simp_all
  then have "tolerance = 0x7F800000" by (simp add: tqArray_def beyond_max)
  with None show ?thesis by (simp add: getTimeQualityCode_def)
next
  case (Some c)
  note least = tq_search_least[OF Some]
  have ne: "tolerance \<noteq> 0x7F800000"
  proof
    assume "tolerance = 0x7F800000"
    moreover have "\<forall>t \<in> set tqArray. f32_lt t 0x7F800000" by (simp add: tqArray_def fp_eval)
    ultimately show False using least by (metis length_tqArray nth_mem)
  qed
  have c: "unat (of_nat c :: u8) = c"
    using least by (simp add: unat_of_nat take_bit_eq_mod)
  have low: "of_nat c AND 0x0F = (of_nat c :: u8)"
  proof -
    have "of_nat c AND 0x0F = take_bit 4 (of_nat c :: u8)" by (simp add: take_bit_eq_mask mask_eq_exp_minus_1)
    also have "\<dots> = of_nat c"
      using least by (intro unsigned_word_eqI[where 'a = nat]) (simp add: unsigned_take_bit_eq c take_bit_nat_eq_self)
    finally show ?thesis .
  qed
  have "unat (ucast (of_nat c :: u8) :: 4 word) = c"
    using least by (simp add: unsigned_ucast_eq c take_bit_nat_eq_self)
  then have "\<exists>q. parseTimeQuality (of_nat c) = Some q \<and> tq_timeQuality q = tqArray ! c"
    using least by (simp add: parseTimeQuality_def low Let_def)
  with Some least ne c show ?thesis by (auto simp: getTimeQualityCode_def)
qed

theorem time_quality_covers_witness:
  "\<exists>code q. getTimeQualityCode 0x35000000 = Some code \<and> parseTimeQuality code = Some q \<and>
     \<not> f32_lt (tq_timeQuality q) 0x35000000 \<and> (\<forall>i < unat code. f32_lt (tqArray ! i) 0x35000000)"
  using time_quality_covers[of "0x35000000"] by simp

lemma quality_code_defined:
  assumes "tolerance \<noteq> 0x7F800000"
  shows "\<exists>code. getTimeQualityCode tolerance = Some code"
proof (cases "tq_search tolerance 0")
  case None
  then have "f32_lt (tqArray ! 15) tolerance" by (rule tq_search_None) simp_all
  with assms show ?thesis by (simp add: tqArray_def beyond_max)
qed (simp add: getTimeQualityCode_def)

section \<open>The fraction of a second\<close>

lemma nonneg_int_val:
  assumes "0 \<le> z" "z < 2 ^ 53"
  shows "\<exists>M E. f64_val (f64_of_int z) = Fin_val False M E \<and> real M * 2 powi E = real_of_int z"
proof -
  have "nat z < 2 ^ 53" using assms by simp
  then obtain M E where v: "f64_val (f64_of_int z) = Fin_val False M E" "E \<le> 0" "M = nat z * 2 ^ nat (0 - E)"
    using exact64_val[of "nat z" 0 False] assms(1) by (auto simp: f64_of_int_exact not_less)
  have "real M * 2 powi E = real (nat z)"
    unfolding v(3) using v(2) by (cases "E = 0") (simp_all add: powi_neg)
  with v(1) assms(1) show ?thesis by auto
qed

lemma fraction_below_one:
  assumes "0 \<le> F" "F < 1000000000"
  shows "\<exists>M E. f64_val (f64_div (f64_of_int F) lit_1e9) = Fin_val False M E \<and>
    real M * 2 powi E \<le> real (2 ^ 30 - 1) * 2 powi (- 30)"
proof -
  obtain M1 E1 where a: "f64_val (f64_of_int F) = Fin_val False M1 E1" "real M1 * 2 powi E1 = real_of_int F"
    using nonneg_int_val[of F] assms by auto
  have "lit_1e9 = f64_of_int 1000000000" by (simp add: fp_eval)
  then obtain M2 E2 where b: "f64_val lit_1e9 = Fin_val False M2 E2" "real M2 * 2 powi E2 = 1000000000"
    using nonneg_int_val[of 1000000000] by auto
  have "0 < M2" using b(2) by (cases M2) simp_all
  have "real M1 / real M2 * 2 powi (E1 - E2) = (real M1 * 2 powi E1) / (real M2 * 2 powi E2)"
    by (simp add: power_int_diff)
  also have "\<dots> = real_of_int F / 1000000000" by (simp add: a(2) b(2))
  also have "\<dots> \<le> 999999999 / 1000000000" using assms(2) by simp
  also have "\<dots> \<le> real (2 ^ 30 - 1) * 2 powi (- 30)" by (simp add: powi_neg)
  finally have "real M1 / real M2 * 2 powi (E1 - E2) \<le> real (2 ^ 30 - 1) * 2 powi (- 30)" .
  with \<open>0 < M2\<close> show ?thesis
    using f64_of_scaled_le[of M2 M1 "E1 - E2" "2 ^ 30 - 1" "- 30"]
    by (simp add: f64_div_def a(1) b(1))
qed

lemma ticks_below:
  assumes "0 \<le> F" "F < 1000000000" "0 < tb" "tb < 2 ^ 24"
  shows "\<exists>z. f64_to_u32 (f64_mul (f64_div (f64_of_int F) lit_1e9) (f64_of_int tb)) = Some (word_of_int z) \<and>
    0 \<le> z \<and> z < tb"
proof -
  obtain M E where a: "f64_val (f64_div (f64_of_int F) lit_1e9) = Fin_val False M E"
      "real M * 2 powi E \<le> real (2 ^ 30 - 1) * 2 powi (- 30)"
    using fraction_below_one[OF assms(1,2)] by blast
  obtain M' E' where b: "f64_val (f64_of_int tb) = Fin_val False M' E'" "real M' * 2 powi E' = real_of_int tb"
    using nonneg_int_val[of tb] assms by auto
  have "real (M * M') / real 1 * 2 powi (E + E') = (real M * 2 powi E) * (real M' * 2 powi E')"
    by (simp add: powi_add2)
  also have "\<dots> \<le> (real (2 ^ 30 - 1) * 2 powi (- 30)) * real_of_int tb"
    unfolding b(2) using a(2) assms(3) by (intro mult_right_mono) simp_all
  finally have v: "real (M * M') / real 1 * 2 powi (E + E') \<le> real_of_int tb - real_of_int tb / 2 ^ 30"
    by (simp add: powi_neg field_simps)
  obtain N k where N: "real (M * M') / real 1 * 2 powi (E + E') \<le> real N * 2 powi k" "0 < N" "N < 2 ^ 53"
      "- 1074 \<le> k" "k < 971" "real N * 2 powi k < real_of_int tb"
  proof (cases "tb = 1")
    case True
    with v show thesis by (intro that[of "2 ^ 30 - 1" "- 30"]) (simp_all add: powi_neg)
  next
    case False
    let ?N = "nat tb * 2 ^ 29 - 1"
    have n: "nat tb < 2 ^ 24" "2 \<le> nat tb" using False assms by simp_all
    have rN: "real ?N * 2 powi (- 29) = real_of_int tb - 1 / 2 ^ 29"
      using n assms(3) by (simp add: of_nat_diff powi_neg field_simps)
    have "2 \<le> real_of_int tb" using False assms(3) by simp
    then have "real_of_int tb - real_of_int tb / 2 ^ 30 \<le> real_of_int tb - 1 / 2 ^ 29" by simp
    with v rN have "real (M * M') / real 1 * 2 powi (E + E') \<le> real ?N * 2 powi (- 29)" by linarith
    with n rN show thesis by (intro that[of ?N "- 29"]) simp_all
  qed
  obtain M5 E5 where c: "f64_val (f64_of_scaled False (M * M') 1 (E + E')) = Fin_val False M5 E5"
      "real M5 * 2 powi E5 \<le> real N * 2 powi k"
    using f64_of_scaled_le[OF _ N(1-5)] by auto
  have "real (scaled_floor M5 E5) < real_of_int tb"
    using scaled_floor_le[of M5 E5] c(2) N(6) by linarith
  then have "int (scaled_floor M5 E5) < tb" by linarith
  moreover have "f64_trunc (f64_mul (f64_div (f64_of_int F) lit_1e9) (f64_of_int tb)) = Some (int (scaled_floor M5 E5))"
    by (simp add: f64_mul_def a(1) b(1) f64_trunc_def c(1)[unfolded One_nat_def])
  ultimately show ?thesis
    using assms(4) by (intro exI[of _ "int (scaled_floor M5 E5)"]) (simp add: f64_to_u32_def)
qed

lemma mask24_id:
  assumes "0 \<le> z" "z < 2 ^ 24"
  shows "(word_of_int z :: u32) AND 0x00FFFFFF = word_of_int z"
proof -
  have "(word_of_int z :: u32) AND 0x00FFFFFF = take_bit 24 (word_of_int z)"
    by (simp add: take_bit_eq_mask mask_eq_exp_minus_1)
  moreover have "take_bit 24 (word_of_int z :: u32) = word_of_int z"
    using assms by (intro unsigned_word_eqI[where 'a = int])
      (simp add: unsigned_take_bit_eq unsigned_of_int take_bit_int_eq_self)
  ultimately show ?thesis by simp
qed

text \<open>C35: for every point in time after the epoch and every time base that a frame can carry,
  \<open>generateTimeCodes\<close> returns, the first field is the second, and the fraction is below the time
  base, although it is computed with rounding in floating point: no frame is stamped with the
  next second.\<close>

theorem time_codes_in_range:
  assumes "0 \<le> tp" "0 < timeBase" "timeBase < 2 ^ 24" "tolerance \<noteq> 0x7F800000"
  shows "\<exists>ticks code. generateTimeCodes tp timeBase tolerance =
      Some (word_of_int (tp div 1000000000), ticks + push_bit 24 (ucast code)) \<and>
    ticks < timeBase \<and> getTimeQualityCode tolerance = Some code"
proof -
  have div: "tp sdiv 1000000000 = tp div 1000000000"
    using assms(1) by (cases "tp = 0") (simp_all add: signed_divide_int_def)
  have frac: "tp - tp div 1000000000 * 1000000000 = tp mod 1000000000"
    by (simp add: minus_div_mult_eq_mod)
  have u: "0 < uint timeBase" "uint timeBase < 2 ^ 24"
    using assms(2,3) by (simp_all add: word_less_def)
  obtain z where z: "f64_to_u32 (f64_mul (f64_div (f64_of_int (tp mod 1000000000)) lit_1e9)
      (f64_of_int (uint timeBase))) = Some (word_of_int z)" "0 \<le> z" "z < uint timeBase"
    using ticks_below[of "tp mod 1000000000" "uint timeBase"] u by auto
  obtain code where "getTimeQualityCode tolerance = Some code"
    using quality_code_defined[OF assms(4)] by blast
  moreover have "(word_of_int z :: u32) < timeBase"
    using z(2,3) u(2) by (simp add: word_less_def unsigned_of_int take_bit_int_eq_self)
  moreover have "(word_of_int z :: u32) AND 0x00FFFFFF = word_of_int z"
    using z(2,3) u(2) by (intro mask24_id) simp_all
  ultimately show ?thesis
    using z(1) by (simp add: generateTimeCodes_def div frac)
qed

theorem time_codes_in_range_witness:
  "\<exists>ticks code. generateTimeCodes 1600000000999999999 1000000 0 =
      Some (1600000000, ticks + push_bit 24 (ucast code)) \<and>
    ticks < 1000000 \<and> getTimeQualityCode 0 = Some code"
  using time_codes_in_range[of 1600000000999999999 1000000 0] by simp

text \<open>Before the epoch there is no such guarantee: half a second before it the fraction is negative
  and its conversion to an unsigned integer is undefined.\<close>

theorem time_codes_before_epoch: "generateTimeCodes (- 500000000) 1000000 0 = None"
proof -
  have "(- 500000000 :: int) sdiv 1000000000 = 0" by (simp add: signed_divide_int_def)
  moreover have "f64_to_u32 (f64_mul (f64_div (f64_of_int (- 500000000)) lit_1e9) (f64_of_int 1000000)) = None"
    by (simp add: fp_eval)
  ultimately show ?thesis by (simp add: generateTimeCodes_def)
qed

text \<open>The fraction is truncated, not rounded, after two roundings: the instant 249
  microseconds into a second is stamped 248.\<close>

theorem time_codes_lose_a_tick: "generateTimeCodes 249000 1000000 0 = Some (0, 248)"
proof -
  have "(249000 :: int) sdiv 1000000000 = 0" by (simp add: signed_divide_int_def)
  moreover have "f64_to_u32 (f64_mul (f64_div (f64_of_int 249000) lit_1e9) (f64_of_int 1000000)) = Some 248"
    by (simp add: fp_eval)
  moreover have "getTimeQualityCode 0 = Some 0"
  proof -
    have "\<not> f32_lt 0x2B8CBCCC 0" by (simp add: fp_eval)
    then show ?thesis
      by (simp add: getTimeQualityCode_def tq_search.simps[of 0 0]) (simp add: tqArray_def)
  qed
  ultimately show ?thesis by (simp add: generateTimeCodes_def)
qed

end
