(* ===== verification/Exceptions.thy ===== *)
theory Exceptions
  imports PMU_Prelude
begin

text \<open>
  Exceptions as values, for the components that throw and catch: the networking code and the JSON
  configuration.  \<open>undefined_behaviour\<close> stands for an operation the language leaves undefined, where it has to be
  told from an exception.
\<close>

text \<open>The error codes the code names.\<close>

datatype asio_error = operation_aborted | eof | connection_reset | not_connected | other_error int

datatype exn = runtime_error string | invalid_argument string | out_of_range string | bad_function_call
  | logic_error string | json_error string | system_error asio_error | undefined_behaviour

text \<open>A member function returns a value or throws; in both cases the objects it changed stay changed.\<close>

datatype ('a, 'c) outcome = Returns 'a 'c | Throws exn 'c

fun bind_outcome :: "('a, 'c) outcome \<Rightarrow> ('a \<Rightarrow> 'c \<Rightarrow> ('b, 'c) outcome) \<Rightarrow> ('b, 'c) outcome" where
  "bind_outcome (Returns x c) f = f x c"
| "bind_outcome (Throws e c) f = Throws e c"

fun result_state :: "('a, 'c) outcome \<Rightarrow> 'c" where
  "result_state (Returns x s) = s"
| "result_state (Throws e s) = s"

text \<open>Functions without state that may throw return a sum; \<open>attempt\<close> is the sequence of two of them.\<close>

definition attempt :: "exn + 'a \<Rightarrow> ('a \<Rightarrow> exn + 'b) \<Rightarrow> exn + 'b" where
  "attempt m f = (case m of Inl e \<Rightarrow> Inl e | Inr x \<Rightarrow> f x)"

lemma attempt_simps [simp]: "attempt (Inl e) f = Inl e" "attempt (Inr x) f = f x"
  by (simp_all add: attempt_def)

definition defined :: "'a option \<Rightarrow> exn + 'a" where
  "defined m = (case m of None \<Rightarrow> Inl undefined_behaviour | Some x \<Rightarrow> Inr x)"

lemma defined_simps [simp]: "defined None = Inl undefined_behaviour" "defined (Some x) = Inr x"
  by (simp_all add: defined_def)

text \<open>A loop whose body may throw.\<close>

fun attempt_fold :: "('a \<Rightarrow> 's \<Rightarrow> exn + 's) \<Rightarrow> 'a list \<Rightarrow> 's \<Rightarrow> exn + 's" where
  "attempt_fold f [] s = Inr s"
| "attempt_fold f (x # xs) s = attempt (f x s) (\<lambda>s. attempt_fold f xs s)"

lemma attempt_fold_ok:
  assumes "\<And>x s. x \<in> set xs \<Longrightarrow> f x s = Inr (g x s)"
  shows "attempt_fold f xs s = Inr (fold g xs s)"
  using assms by (induction xs arbitrary: s) simp_all

lemma attempt_fold_cong:
  assumes "\<And>x s. x \<in> set xs \<Longrightarrow> f x s = g x s"
  shows "attempt_fold f xs s = attempt_fold g xs s"
  using assms
proof (induction xs arbitrary: s)
  case (Cons x xs)
  then have "attempt_fold f xs = attempt_fold g xs" by (intro ext) simp
  with Cons.prems show ?case by simp
qed simp

lemma attempt_eq_Inr: "attempt m f = Inr y \<longleftrightarrow> (\<exists>x. m = Inr x \<and> f x = Inr y)"
  by (cases m) simp_all

lemma attempt_fold_inv:
  assumes "attempt_fold f xs s = Inr s'" "P s" "\<And>x s s'. x \<in> set xs \<Longrightarrow> f x s = Inr s' \<Longrightarrow> P s \<Longrightarrow> P s'"
  shows "P s'"
  using assms
proof (induction xs arbitrary: s)
  case (Cons x xs)
  then obtain s1 where "f x s = Inr s1" "attempt_fold f xs s1 = Inr s'" by (auto simp: attempt_eq_Inr)
  with Cons show ?case by (metis list.set_intros)
qed simp

text \<open>A computation that, wherever another returns a value, returns the same.\<close>

definition kept :: "exn + 'a \<Rightarrow> exn + 'a \<Rightarrow> bool" where
  "kept m m' \<longleftrightarrow> (\<forall>x. m = Inr x \<longrightarrow> m' = Inr x)"

named_theorems kept_intros

lemma kept_refl [kept_intros]: "kept m m"
  by (simp add: kept_def)

lemma kept_attempt [kept_intros]: "kept m m' \<Longrightarrow> (\<And>x. kept (f x) (f' x)) \<Longrightarrow> kept (attempt m f) (attempt m' f')"
  by (auto simp: kept_def attempt_eq_Inr)

lemma kept_if [kept_intros]: "(c \<Longrightarrow> kept m m') \<Longrightarrow> (\<not> c \<Longrightarrow> kept n n') \<Longrightarrow> kept (if c then m else n) (if c then m' else n')"
  by simp

lemma kept_fold:
  assumes "list_all2 R xs xs'" "\<And>x x' s. R x x' \<Longrightarrow> kept (f x s) (f' x' s)"
  shows "kept (attempt_fold f xs s) (attempt_fold f' xs' s)"
  using assms(1)
proof (induction arbitrary: s rule: list_all2_induct)
  case (Cons x xs x' xs')
  then show ?case using assms(2)[of x x' s] by (auto simp: kept_def attempt_eq_Inr)
qed (simp add: kept_refl)

end
