(* ===== verification/Asio_Platform.thy ===== *)
theory Asio_Platform
  imports Exceptions
begin

text \<open>
  What the networking code (\<open>src/pmu/TcpHelperClasses.cpp\<close>) uses of the two libraries it is built on and that
  are not part of the repository: sockets of asio and \<open>gmlc::concurrency::TriggerVariable\<close>.  Their
  operations are a parameter of every definition, the record \<open>Platform\<close> over a type \<open>'s\<close> of sockets
  and a type \<open>'t\<close> of trigger variables.  What the code relies on is stated as the two predicates
  \<open>trigger_laws\<close> and \<open>socket_laws\<close>; \<open>sample_platform\<close> is an instance that fulfils them.

  The last section is the interface of the invariant proofs: a relation of steps, its initial states and a
  predicate every step keeps.
\<close>

section \<open>Operations of the libraries\<close>

record ('s, 't) Platform =
  pf_is_open :: "'s \<Rightarrow> bool"
  pf_shutdown :: "'s \<Rightarrow> asio_error option \<times> 's"
  pf_close :: "'s \<Rightarrow> asio_error option \<times> 's"
  pf_cancel :: "'s \<Rightarrow> 's"
  pf_no_delay :: "'s \<Rightarrow> asio_error option \<times> 's" \<comment> \<open>\<open>set_option(no_delay(true))\<close>\<close>
  pf_linger :: "'s \<Rightarrow> asio_error option \<times> 's" \<comment> \<open>\<open>set_option(linger(true, 0))\<close>\<close>
  pf_send :: "u8 list \<Rightarrow> 's \<Rightarrow> (asio_error + nat) \<times> 's"
  pf_receive :: "nat \<Rightarrow> 's \<Rightarrow> (asio_error + u8 list) \<times> 's"
  pf_fresh :: 't \<comment> \<open>a default-constructed trigger variable\<close>
  pf_activate :: "'t \<Rightarrow> bool \<times> 't"
  pf_trigger :: "'t \<Rightarrow> 't"
  pf_reset :: "'t \<Rightarrow> 't"
  pf_isActive :: "'t \<Rightarrow> bool"
  pf_isTriggered :: "'t \<Rightarrow> bool"
  pf_wait_for :: "'t \<Rightarrow> bool" \<comment> \<open>the answer of a wait in which nobody else acts\<close>

text \<open>The documented behaviour of a trigger variable: it is activated once, can be triggered while it is
  active, and a wait ends at once when it is triggered or was never activated.\<close>

definition trigger_laws :: "('s, 't) Platform \<Rightarrow> bool" where
  "trigger_laws P \<longleftrightarrow>
     \<not> pf_isActive P (pf_fresh P) \<and>
     (\<forall>t. pf_isActive P (snd (pf_activate P t)) \<and> (fst (pf_activate P t) \<longleftrightarrow> \<not> pf_isActive P t) \<and>
        (\<not> pf_isActive P t \<longrightarrow> \<not> pf_isTriggered P (snd (pf_activate P t))) \<and>
        (pf_isActive P t \<longrightarrow> snd (pf_activate P t) = t)) \<and>
     (\<forall>t. pf_isActive P (pf_trigger P t) = pf_isActive P t \<and>
        (pf_isActive P t \<longrightarrow> pf_isTriggered P (pf_trigger P t)) \<and>
        (\<not> pf_isActive P t \<longrightarrow> pf_trigger P t = t)) \<and>
     (\<forall>t. \<not> pf_isActive P (pf_reset P t)) \<and>
     (\<forall>t. pf_wait_for P t \<longleftrightarrow> \<not> pf_isActive P t \<or> pf_isTriggered P t)"

text \<open>\<open>out s\<close> is what the peer of the socket has been sent.\<close>

definition socket_laws :: "('s, 't) Platform \<Rightarrow> ('s \<Rightarrow> u8 list) \<Rightarrow> bool" where
  "socket_laws P out \<longleftrightarrow>
     (\<forall>bs s n s'. pf_send P bs s = (Inr n, s') \<longrightarrow> n \<le> length bs \<and> out s' = out s @ take n bs) \<and>
     (\<forall>bs s e s'. pf_send P bs s = (Inl e, s') \<longrightarrow> out s' = out s)"

lemma trigger_lawsD:
  assumes "trigger_laws P"
  shows trigger_fresh: "\<not> pf_isActive P (pf_fresh P)"
    and trigger_activated: "pf_isActive P (snd (pf_activate P t))"
    and trigger_activate: "fst (pf_activate P t) \<longleftrightarrow> \<not> pf_isActive P t"
    and trigger_activate_fresh: "\<not> pf_isActive P t \<Longrightarrow> \<not> pf_isTriggered P (snd (pf_activate P t))"
    and trigger_activate_id: "pf_isActive P t \<Longrightarrow> snd (pf_activate P t) = t"
    and trigger_stays: "pf_isActive P (pf_trigger P t) = pf_isActive P t"
    and trigger_triggered: "pf_isActive P t \<Longrightarrow> pf_isTriggered P (pf_trigger P t)"
    and trigger_idle: "\<not> pf_isActive P t \<Longrightarrow> pf_trigger P t = t"
    and trigger_reset: "\<not> pf_isActive P (pf_reset P t)"
    and trigger_wait: "pf_wait_for P t \<longleftrightarrow> \<not> pf_isActive P t \<or> pf_isTriggered P t"
  using assms by (simp_all add: trigger_laws_def)

text \<open>After \<open>trigger\<close> nobody waits.\<close>

lemma trigger_releases: "trigger_laws P \<Longrightarrow> pf_wait_for P (pf_trigger P t)"
  by (cases "pf_isActive P t") (simp_all add: trigger_lawsD)

section \<open>An instance\<close>

record sample_socket =
  ss_open :: bool
  ss_out :: "u8 list"
  ss_chunk :: nat \<comment> \<open>the most bytes one send takes\<close>
  ss_in :: "u8 list list"

definition sample_platform :: "(sample_socket, bool \<times> bool) Platform" where
  "sample_platform = \<lparr>pf_is_open = ss_open, pf_shutdown = (\<lambda>s. (None, s)),
     pf_close = (\<lambda>s. (None, s\<lparr>ss_open := False\<rparr>)), pf_cancel = (\<lambda>s. s), pf_no_delay = (\<lambda>s. (None, s)),
     pf_linger = (\<lambda>s. (None, s)),
     pf_send = (\<lambda>bs s. (Inr (min (ss_chunk s) (length bs)), s\<lparr>ss_out := ss_out s @ take (ss_chunk s) bs\<rparr>)),
     pf_receive = (\<lambda>n s. case ss_in s of [] \<Rightarrow> (Inl eof, s) | bs # rest \<Rightarrow> (Inr (take n bs), s\<lparr>ss_in := rest\<rparr>)),
     pf_fresh = (False, False), pf_activate = (\<lambda>(a, t). (\<not> a, (True, a \<and> t))),
     pf_trigger = (\<lambda>(a, t). (a, t \<or> a)), pf_reset = (\<lambda>_. (False, False)), pf_isActive = fst,
     pf_isTriggered = snd, pf_wait_for = (\<lambda>(a, t). \<not> a \<or> t)\<rparr>"

lemma sample_trigger_laws: "trigger_laws sample_platform"
  by (auto simp: trigger_laws_def sample_platform_def)

lemma sample_socket_laws: "socket_laws sample_platform ss_out"
  by (auto simp: socket_laws_def sample_platform_def min_def)

section \<open>Invariants of step relations\<close>

locale transition_system =
  fixes step :: "'a \<Rightarrow> 'a \<Rightarrow> bool" and init :: "'a \<Rightarrow> bool" and inv :: "'a \<Rightarrow> bool"
  assumes inv_init: "init s \<Longrightarrow> inv s"
    and inv_step: "inv s \<Longrightarrow> step s t \<Longrightarrow> inv t"
begin

lemma inv_steps: "step\<^sup>*\<^sup>* s t \<Longrightarrow> inv s \<Longrightarrow> inv t"
  by (induction rule: rtranclp_induct) (simp_all add: inv_step)

lemma inv_reachable: "init s \<Longrightarrow> step\<^sup>*\<^sup>* s t \<Longrightarrow> inv t"
  by (simp add: inv_steps inv_init)

end

end
