(* ===== verification/Tcp_Connection.thy ===== *)
theory Tcp_Connection
  imports Asio_Platform
begin

text \<open>
  \<open>TcpConnection\<close> (\<open>src/pmu/TcpHelperClasses.h\<close>, \<open>src/pmu/TcpHelperClasses.cpp\<close>): one TCP connection with
  its receive loop, its callbacks and its shutdown.

  The object is a record.  The data callback and the error callback act on a state \<open>'w\<close> of their own and
  may be empty, as a \<open>std::function\<close> may.  \<open>async_receive\<close> registers the handler; the registration is the
  field \<open>tc_reading\<close>, the part of the buffer the socket will write into, and is consumed when the handler runs.

  Threads.  Handlers run on the thread of the io context; \<open>close\<close> is called by others.  Its first statement,
  which sets \<open>triggerhalt\<close>, may fall between any two reads of the flag: the operations that read it take a
  function \<open>h\<close> that says before which of their reads that happens.
\<close>

section \<open>The object\<close>

datatype connection_state_t = prestart | waiting | operating | halted | closed

definition connection_state_code :: "connection_state_t \<Rightarrow> int" where
  "connection_state_code s = (case s of prestart \<Rightarrow> -1 | waiting \<Rightarrow> 0 | operating \<Rightarrow> 1 | halted \<Rightarrow> 3 | closed \<Rightarrow> 4)"

record ('s, 't, 'w) TcpConnection =
  tc_residBufferSize :: nat
  tc_socket :: 's
  tc_data :: buffer
  tc_triggerhalt :: bool
  tc_connecting :: bool
  tc_receivingHalt :: 't
  tc_connectionError :: bool
  tc_connected :: 't
  tc_dataCall :: "('w \<Rightarrow> u32 \<Rightarrow> u8 list \<Rightarrow> nat \<times> 'w) option"
  tc_errorCall :: "('w \<Rightarrow> u32 \<Rightarrow> asio_error \<Rightarrow> bool \<times> 'w) option"
  tc_logFunction :: "('w \<Rightarrow> int \<Rightarrow> string \<Rightarrow> 'w) option"
  tc_state :: connection_state_t
  tc_idcode :: u32
  tc_reading :: "(nat \<times> nat) option"

text \<open>The constructor with a context and a buffer size, the one of accepted connections, and the fields of
  the one that connects; \<open>idcounter\<close> is the static counter.\<close>

definition make_connection :: "('s, 't) Platform \<Rightarrow> 's \<Rightarrow> nat \<Rightarrow> bool \<Rightarrow> u32 \<Rightarrow> ('s, 't, 'w) TcpConnection \<times> u32" where
  "make_connection P socket bufferSize connecting idcounter =
     (\<lparr>tc_residBufferSize = 0, tc_socket = socket, tc_data = replicate bufferSize 0, tc_triggerhalt = False,
       tc_connecting = connecting, tc_receivingHalt = pf_fresh P, tc_connectionError = False,
       tc_connected = pf_fresh P, tc_dataCall = None, tc_errorCall = None, tc_logFunction = None,
       tc_state = prestart, tc_idcode = idcounter, tc_reading = None\<rparr>, idcounter + 1)"

definition create_accepting :: "('s, 't) Platform \<Rightarrow> 's \<Rightarrow> nat \<Rightarrow> u32 \<Rightarrow> ('s, 't, 'w) TcpConnection \<times> u32" where
  "create_accepting P socket bufferSize = make_connection P socket bufferSize False"

text \<open>\<open>resolve\<close> is the resolver of asio, which throws when the address is unknown; the connection attempt it
  starts ends in \<open>connect_handler\<close>.\<close>

definition create_connecting :: "('s, 't) Platform \<Rightarrow> (string \<Rightarrow> string \<Rightarrow> asio_error + 's) \<Rightarrow> string \<Rightarrow> string \<Rightarrow> nat \<Rightarrow>
    u32 \<Rightarrow> (exn + ('s, 't, 'w) TcpConnection) \<times> u32" where
  "create_connecting P resolve connection port bufferSize idcounter =
     (case resolve connection port of
        Inl e \<Rightarrow> (Inl (system_error e), idcounter + 1)
      | Inr socket \<Rightarrow> (let (c, n) = make_connection P socket bufferSize True idcounter in (Inr c, n)))"

definition isReceiving :: "('s, 't) Platform \<Rightarrow> ('s, 't, 'w) TcpConnection \<Rightarrow> bool" where
  "isReceiving P c = pf_isActive P (tc_receivingHalt c)"

definition isConnected :: "('s, 't) Platform \<Rightarrow> ('s, 't, 'w) TcpConnection \<Rightarrow> bool" where
  "isConnected P c = (pf_isActive P (tc_connected c) \<and> \<not> tc_connectionError c)"

definition getIdentifier :: "('s, 't, 'w) TcpConnection \<Rightarrow> u32" where
  "getIdentifier c = tc_idcode c"

definition cancel :: "('s, 't) Platform \<Rightarrow> ('s, 't, 'w) TcpConnection \<Rightarrow> ('s, 't, 'w) TcpConnection" where
  "cancel P c = c\<lparr>tc_socket := pf_cancel P (tc_socket c)\<rparr>"

section \<open>The receive loop\<close>

definition interfere :: "bool \<Rightarrow> ('s, 't, 'w) TcpConnection \<Rightarrow> ('s, 't, 'w) TcpConnection" where
  "interfere stop c = (if stop then c\<lparr>tc_triggerhalt := True\<rparr> else c)"

definition trigger_halt :: "('s, 't) Platform \<Rightarrow> ('s, 't, 'w) TcpConnection \<Rightarrow> ('s, 't, 'w) TcpConnection" where
  "trigger_halt P c = c\<lparr>tc_receivingHalt := pf_trigger P (tc_receivingHalt c)\<rparr>"

definition activate_halt :: "('s, 't) Platform \<Rightarrow> ('s, 't, 'w) TcpConnection \<Rightarrow> ('s, 't, 'w) TcpConnection" where
  "activate_halt P c = c\<lparr>tc_receivingHalt := snd (pf_activate P (tc_receivingHalt c))\<rparr>"

definition activate_connected :: "('s, 't) Platform \<Rightarrow> ('s, 't, 'w) TcpConnection \<Rightarrow> ('s, 't, 'w) TcpConnection" where
  "activate_connected P c = c\<lparr>tc_connected := snd (pf_activate P (tc_connected c))\<rparr>"

definition startReceive :: "('s, 't) Platform \<Rightarrow> (nat \<Rightarrow> bool) \<Rightarrow> ('s, 't, 'w) TcpConnection \<Rightarrow> ('s, 't, 'w) TcpConnection" where
  "startReceive P h c =
     (let c = interfere (h 0) c in
      if tc_triggerhalt c then trigger_halt P c
      else
        let c = (if tc_state c = prestart
                 then (activate_connected P (activate_halt P c))\<lparr>tc_state := waiting\<rparr> else c)
        in if tc_state c = waiting then
             let c = c\<lparr>tc_state := operating\<rparr>;
                 c = (if pf_isActive P (tc_receivingHalt c) then c else activate_halt P c);
                 c = interfere (h 1) c
             in if \<not> tc_triggerhalt c then
                  let c = c\<lparr>tc_reading := Some (tc_residBufferSize c,
                              size_sub (length (tc_data c)) (tc_residBufferSize c))\<rparr>;
                      c = interfere (h 2) c
                  in if tc_triggerhalt c then cancel P c else c
                else trigger_halt P (c\<lparr>tc_state := halted\<rparr>)
           else if tc_state c \<noteq> operating then trigger_halt P c
           else c)"

definition setDataCall :: "('w \<Rightarrow> u32 \<Rightarrow> u8 list \<Rightarrow> nat \<times> 'w) option \<Rightarrow> ('s, 't, 'w) TcpConnection \<Rightarrow>
    (unit, ('s, 't, 'w) TcpConnection) outcome" where
  "setDataCall dataFunc c =
     (if tc_state c = prestart then Returns () (c\<lparr>tc_dataCall := dataFunc\<rparr>)
      else Throws (runtime_error ''cannot set data callback after socket is started'') c)"

definition setErrorCall :: "('w \<Rightarrow> u32 \<Rightarrow> asio_error \<Rightarrow> bool \<times> 'w) option \<Rightarrow> ('s, 't, 'w) TcpConnection \<Rightarrow>
    (unit, ('s, 't, 'w) TcpConnection) outcome" where
  "setErrorCall errorFunc c =
     (if tc_state c = prestart then Returns () (c\<lparr>tc_errorCall := errorFunc\<rparr>)
      else Throws (runtime_error ''cannot set error callback after socket is started'') c)"

definition setLoggingFunction :: "('w \<Rightarrow> int \<Rightarrow> string \<Rightarrow> 'w) option \<Rightarrow> ('s, 't, 'w) TcpConnection \<Rightarrow>
    (unit, ('s, 't, 'w) TcpConnection) outcome" where
  "setLoggingFunction logFunc c =
     (if tc_state c = prestart then Returns () (c\<lparr>tc_logFunction := logFunc\<rparr>)
      else Throws (runtime_error ''cannot set logging function after socket is started'') c)"

definition stop_receiving :: "('s, 't) Platform \<Rightarrow> ('s, 't, 'w) TcpConnection \<Rightarrow> ('s, 't, 'w) TcpConnection" where
  "stop_receiving P c = trigger_halt P (c\<lparr>tc_state := halted\<rparr>)"

text \<open>The two branches of \<open>handle_read\<close> that hand data to the callback.  What it does not use moves to the
  front of the buffer.\<close>

definition keep_unused :: "nat \<Rightarrow> nat \<Rightarrow> ('s, 't, 'w) TcpConnection \<Rightarrow> ('s, 't, 'w) TcpConnection" where
  "keep_unused used available c =
     (let c = (if used > 0 then c\<lparr>tc_data := overlay 0 (take (available - used) (drop used (tc_data c))) (tc_data c)\<rparr> else c)
      in c\<lparr>tc_residBufferSize := available - used\<rparr>)"

definition call_data :: "nat \<Rightarrow> bool \<Rightarrow> 'w \<times> ('s, 't, 'w) TcpConnection \<Rightarrow> (unit, 'w \<times> ('s, 't, 'w) TcpConnection) outcome" where
  "call_data bytes_transferred clear = (\<lambda>(w, c).
     case tc_dataCall c of None \<Rightarrow> Throws bad_function_call (w, c)
     | Some dataCall \<Rightarrow>
         let available = bytes_transferred + tc_residBufferSize c;
             (used, w) = dataCall w (tc_idcode c) (take available (tc_data c))
         in Returns () (w,
              if used < available then keep_unused used available c
              else let c = c\<lparr>tc_residBufferSize := 0\<rparr>
                   in if clear then c\<lparr>tc_data := replicate (length (tc_data c)) 0\<rparr> else c))"

definition report_error :: "('s, 't) Platform \<Rightarrow> (nat \<Rightarrow> bool) \<Rightarrow> asio_error \<Rightarrow>
    'w \<times> ('s, 't, 'w) TcpConnection \<Rightarrow> (unit, 'w \<times> ('s, 't, 'w) TcpConnection) outcome" where
  "report_error P h e = (\<lambda>(w, c). case tc_errorCall c of
     Some errorCall \<Rightarrow>
       let (go_on, w) = errorCall w (tc_idcode c) e in
       if go_on then Returns () (w, startReceive P h (c\<lparr>tc_state := waiting\<rparr>))
       else Returns () (w, stop_receiving P c)
   | None \<Rightarrow> Returns () (w, stop_receiving P c))"

definition handle_read :: "('s, 't) Platform \<Rightarrow> (nat \<Rightarrow> bool) \<Rightarrow> asio_error option \<Rightarrow> nat \<Rightarrow>
    'w \<times> ('s, 't, 'w) TcpConnection \<Rightarrow> (unit, 'w \<times> ('s, 't, 'w) TcpConnection) outcome" where
  "handle_read P h error bytes_transferred = (\<lambda>(w, c).
     let c = interfere (h 0) c in
     if tc_triggerhalt c then Returns () (w, stop_receiving P c)
     else case error of
       None \<Rightarrow> bind_outcome (call_data bytes_transferred True (w, c))
         (\<lambda>_ (w, c). Returns () (w, startReceive P (\<lambda>i. h (i + 1)) (c\<lparr>tc_state := waiting\<rparr>)))
     | Some e \<Rightarrow>
         if e = operation_aborted then Returns () (w, stop_receiving P c)
         else bind_outcome
           (if bytes_transferred > 0 then call_data bytes_transferred False (w, c) else Returns () (w, c))
           (\<lambda>_. report_error P (\<lambda>i. h (i + 1)) e))"

text \<open>A single read outside the loop: \<open>async_receive\<close> with a callback, and the \<open>handle_read\<close> it registers.\<close>

definition async_receive :: "('s, 't, 'w) TcpConnection \<Rightarrow> ('s, 't, 'w) TcpConnection" where
  "async_receive c = c\<lparr>tc_reading := Some (0, length (tc_data c))\<rparr>"

definition handle_read_once :: "('w \<Rightarrow> u8 list \<Rightarrow> asio_error option \<Rightarrow> 'w) \<Rightarrow> nat \<Rightarrow> asio_error option \<Rightarrow>
    'w \<times> ('s, 't, 'w) TcpConnection \<Rightarrow> 'w \<times> ('s, 't, 'w) TcpConnection" where
  "handle_read_once callback message_size error = (\<lambda>(w, c). (callback w (take message_size (tc_data c)) error, c))"

section \<open>Closing\<close>

text \<open>\<open>closeNoWait\<close> in the two parts other threads can come between.\<close>

definition closeNoWait_store :: "('s, 't, 'w) TcpConnection \<Rightarrow> ('s, 't, 'w) TcpConnection" where
  "closeNoWait_store c = c\<lparr>tc_triggerhalt := True\<rparr>"

definition closeNoWait_rest :: "('s, 't) Platform \<Rightarrow> ('s, 't, 'w) TcpConnection \<Rightarrow> ('s, 't, 'w) TcpConnection" where
  "closeNoWait_rest P c =
     (let c = (case tc_state c of
                 prestart \<Rightarrow> if pf_isActive P (tc_receivingHalt c) then trigger_halt P c else c
               | halted \<Rightarrow> trigger_halt P c
               | closed \<Rightarrow> trigger_halt P c
               | _ \<Rightarrow> c);
          c = (if pf_is_open P (tc_socket c) then c\<lparr>tc_socket := snd (pf_shutdown P (tc_socket c))\<rparr> else c)
      in c\<lparr>tc_socket := snd (pf_close P (tc_socket c))\<rparr>)"

definition closeNoWait :: "('s, 't) Platform \<Rightarrow> ('s, 't, 'w) TcpConnection \<Rightarrow> ('s, 't, 'w) TcpConnection" where
  "closeNoWait P c = closeNoWait_rest P (closeNoWait_store c)"

text \<open>Waiting.  \<open>env i\<close> is what the other threads do to the object during the \<open>i\<close>-th wait; a wait that
  never ends is \<open>None\<close>, and so is running out of the \<open>fuel\<close> for the polling loop.\<close>

fun poll_halt :: "('s, 't) Platform \<Rightarrow> (nat \<Rightarrow> ('s, 't, 'w) TcpConnection \<Rightarrow> ('s, 't, 'w) TcpConnection) \<Rightarrow> nat \<Rightarrow> nat \<Rightarrow>
    ('s, 't, 'w) TcpConnection \<Rightarrow> ('s, 't, 'w) TcpConnection option" where
  "poll_halt P env i 0 c = None"
| "poll_halt P env i (Suc fuel) c =
     (let c = env i c in
      if pf_wait_for P (tc_receivingHalt c) then Some c else poll_halt P env (i + 1) fuel c)"

definition wait_closing :: "('s, 't) Platform \<Rightarrow> (nat \<Rightarrow> ('s, 't, 'w) TcpConnection \<Rightarrow> ('s, 't, 'w) TcpConnection) \<Rightarrow> nat \<Rightarrow>
    ('s, 't, 'w) TcpConnection \<Rightarrow> ('s, 't, 'w) TcpConnection option" where
  "wait_closing P env fuel c = do {
     c \<leftarrow> (if tc_connecting c \<and> \<not> pf_isActive P (tc_connected c)
          then let c = env 0 c in if pf_isActive P (tc_connected c) then Some c else None
          else Some c);
     c \<leftarrow> poll_halt P env 1 fuel c;
     Some (c\<lparr>tc_state := closed\<rparr>)
   }"

definition waitOnClose :: "('s, 't) Platform \<Rightarrow> (nat \<Rightarrow> ('s, 't, 'w) TcpConnection \<Rightarrow> ('s, 't, 'w) TcpConnection) \<Rightarrow> nat \<Rightarrow>
    ('s, 't, 'w) TcpConnection \<Rightarrow> ('s, 't, 'w) TcpConnection option" where
  "waitOnClose P env fuel c =
     (if tc_triggerhalt c then wait_closing P env fuel c
      else map_option (\<lambda>c. c\<lparr>tc_state := closed\<rparr>) (wait_closing P env fuel (closeNoWait P c)))"

definition close_connection :: "('s, 't) Platform \<Rightarrow> (nat \<Rightarrow> ('s, 't, 'w) TcpConnection \<Rightarrow> ('s, 't, 'w) TcpConnection) \<Rightarrow> nat \<Rightarrow>
    ('s, 't, 'w) TcpConnection \<Rightarrow> ('s, 't, 'w) TcpConnection option" where
  "close_connection P env fuel c = waitOnClose P env fuel (closeNoWait P c)"

section \<open>Connecting, sending, receiving\<close>

definition connect_handler :: "('s, 't) Platform \<Rightarrow> asio_error option \<Rightarrow> ('s, 't, 'w) TcpConnection \<Rightarrow>
    (unit, ('s, 't, 'w) TcpConnection) outcome" where
  "connect_handler P error c = (case error of
     None \<Rightarrow> (let c = activate_connected P c in
       case pf_no_delay P (tc_socket c) of
         (None, s) \<Rightarrow> Returns () (c\<lparr>tc_socket := s\<rparr>)
       | (Some e, s) \<Rightarrow> Throws (system_error e) (c\<lparr>tc_socket := s\<rparr>))
   | Some e \<Rightarrow> Returns () (activate_connected P (c\<lparr>tc_connectionError := True\<rparr>)))"

definition waitUntilConnected :: "('s, 't) Platform \<Rightarrow> (('s, 't, 'w) TcpConnection \<Rightarrow> ('s, 't, 'w) TcpConnection) \<Rightarrow> int \<Rightarrow>
    ('s, 't, 'w) TcpConnection \<Rightarrow> (bool \<times> ('s, 't, 'w) TcpConnection) option" where
  "waitUntilConnected P env timeOut c =
     (if isConnected P c then Some (True, c)
      else let c = (if pf_isActive P (tc_connected c) then c else env c) in
        if timeOut < 0 \<and> \<not> pf_isActive P (tc_connected c) then None
        else Some (isConnected P c, c))"

text \<open>The loop \<open>while (count++ < 5 && (sz = send(rest)) != sent_size)\<close>; the result is the final \<open>count\<close>.\<close>

function send_loop :: "('s, 't) Platform \<Rightarrow> u8 list \<Rightarrow> nat \<Rightarrow> nat \<Rightarrow> nat \<Rightarrow> 's \<Rightarrow> (asio_error + nat) \<times> 's" where
  "send_loop P buf count sent_size p s =
     (if count < 5 then
        case pf_send P (take sent_size (drop p buf)) s of
          (Inl e, s) \<Rightarrow> (Inl e, s)
        | (Inr sz, s) \<Rightarrow>
            if sz \<noteq> sent_size then send_loop P buf (count + 1) (size_sub sent_size sz) (p + sz) s
            else (Inr (count + 1), s)
      else (Inr (count + 1), s))"
  by pat_completeness auto
termination
  by (relation "measure (\<lambda>(_, _, count, _). 5 - count)") auto

declare send_loop.simps [simp del]

definition send_data :: "('s, 't) Platform \<Rightarrow> u8 list \<Rightarrow> ('s, 't, 'w) TcpConnection \<Rightarrow>
    (nat, ('s, 't, 'w) TcpConnection) outcome" where
  "send_data P buf c =
     (case send_loop P buf 0 (length buf) 0 (tc_socket c) of
        (Inl e, s) \<Rightarrow> Throws (system_error e) (c\<lparr>tc_socket := s\<rparr>)
      | (Inr count, s) \<Rightarrow> Returns (if count \<ge> 5 then 0 else length buf) (c\<lparr>tc_socket := s\<rparr>))"

definition send :: "('s, 't) Platform \<Rightarrow> (nat \<Rightarrow> ('s, 't, 'w) TcpConnection \<Rightarrow> ('s, 't, 'w) TcpConnection) \<Rightarrow> u8 list \<Rightarrow>
    ('s, 't, 'w) TcpConnection \<Rightarrow> (nat, ('s, 't, 'w) TcpConnection) outcome option" where
  "send P env buf c = do {
     (go, c) \<leftarrow> (if isConnected P c then Some (True, c)
        else do { (_, c) \<leftarrow> waitUntilConnected P (env 0) 300 c; waitUntilConnected P (env 1) 200 c });
     Some (if go then send_data P buf c else Returns 0 c)
   }"

definition send_string :: "('s, 't) Platform \<Rightarrow> (nat \<Rightarrow> ('s, 't, 'w) TcpConnection \<Rightarrow> ('s, 't, 'w) TcpConnection) \<Rightarrow> u8 list \<Rightarrow>
    ('s, 't, 'w) TcpConnection \<Rightarrow> (nat, ('s, 't, 'w) TcpConnection) outcome option" where
  "send_string P env dataString c = send P env dataString c"

definition receive :: "('s, 't) Platform \<Rightarrow> nat \<Rightarrow> ('s, 't, 'w) TcpConnection \<Rightarrow>
    (u8 list, ('s, 't, 'w) TcpConnection) outcome" where
  "receive P maxDataSize c = (case pf_receive P maxDataSize (tc_socket c) of
     (Inl e, s) \<Rightarrow> Throws (system_error e) (c\<lparr>tc_socket := s\<rparr>)
   | (Inr bs, s) \<Rightarrow> Returns bs (c\<lparr>tc_socket := s\<rparr>))"

end
