(* ===== verification/Tcp_Lifecycle.thy ===== *)
theory Tcp_Lifecycle
  imports Tcp_Connection
begin

text \<open>
  What holds of a \<open>TcpConnection\<close> whatever the socket, the peer and the other threads do: the receive loop as a
  step relation with its invariant, the loop as a consumer of a byte stream, shutdown, and sending.
\<close>

section \<open>Steps\<close>

text \<open>Everything that happens to a connection.  A completed read writes its bytes into the part of the
  buffer that was registered and runs the handler.  From outside the loop is started as the server does
  it, when it is not receiving; the two halves of \<open>closeNoWait\<close> are steps of their own.\<close>

inductive conn_step :: "('s, 't) Platform \<Rightarrow> 'w \<times> ('s, 't, 'w) TcpConnection \<Rightarrow> 'w \<times> ('s, 't, 'w) TcpConnection \<Rightarrow> bool"
  for P where
  start: "\<not> isReceiving P c \<Longrightarrow> conn_step P (w, c) (w, startReceive P h c)"
| read: "\<lbrakk>tc_reading c = Some (off, len); length input \<le> len;
     handle_read P h error (length input)
       (w, c\<lparr>tc_data := overlay off input (tc_data c), tc_reading := None\<rparr>) = Returns () s\<rbrakk> \<Longrightarrow>
     conn_step P (w, c) s"
| read_throws: "\<lbrakk>tc_reading c = Some (off, len); length input \<le> len;
     handle_read P h error (length input)
       (w, c\<lparr>tc_data := overlay off input (tc_data c), tc_reading := None\<rparr>) = Throws e s\<rbrakk> \<Longrightarrow>
     conn_step P (w, c) s"
| connect: "connect_handler P error c = Returns () c' \<or> connect_handler P error c = Throws e c' \<Longrightarrow>
     conn_step P (w, c) (w, c')"
| set_data: "setDataCall f c = Returns () c' \<Longrightarrow> conn_step P (w, c) (w, c')"
| set_error: "setErrorCall g c = Returns () c' \<Longrightarrow> conn_step P (w, c) (w, c')"
| halt: "conn_step P (w, c) (w, closeNoWait_store c)"
| shut: "tc_triggerhalt c \<Longrightarrow> conn_step P (w, c) (w, closeNoWait_rest P c)"
| close: "tc_triggerhalt c \<Longrightarrow> pf_wait_for P (tc_receivingHalt c) \<Longrightarrow>
     conn_step P (w, c) (w, c\<lparr>tc_state := closed\<rparr>)"
| elsewhere: "conn_step P (w, c) (w', c\<lparr>tc_socket := s\<rparr>)"

definition conn_init :: "('s, 't) Platform \<Rightarrow> 'w \<times> ('s, 't, 'w) TcpConnection \<Rightarrow> bool" where
  "conn_init P s \<longleftrightarrow> (\<exists>socket size connecting n. snd s = fst (make_connection P socket size connecting n))"

text \<open>The invariant.  At most one read is outstanding, it fills exactly the rest of the buffer, and while it
  is, the loop counts as running.  Without one the loop has ended, unless the handler threw because there
  is no data callback.\<close>

definition conn_inv :: "('s, 't) Platform \<Rightarrow> ('s, 't, 'w) TcpConnection \<Rightarrow> bool" where
  "conn_inv P c \<longleftrightarrow> tc_residBufferSize c \<le> length (tc_data c) \<and>
     (case tc_reading c of
        Some (off, len) \<Rightarrow> off = tc_residBufferSize c \<and> off + len = length (tc_data c) \<and>
          tc_state c = operating \<and> pf_isActive P (tc_receivingHalt c) \<and> \<not> pf_isTriggered P (tc_receivingHalt c)
      | None \<Rightarrow> (pf_wait_for P (tc_receivingHalt c) \<or> tc_dataCall c = None) \<and>
          (tc_state c = operating \<longrightarrow> tc_dataCall c = None) \<and> (tc_state c = waiting \<longrightarrow> tc_triggerhalt c) \<and>
          (tc_state c = prestart \<longrightarrow> \<not> pf_isActive P (tc_receivingHalt c)))"

lemma interfere_fields [simp]:
  "tc_residBufferSize (interfere x c) = tc_residBufferSize c" "tc_socket (interfere x c) = tc_socket c"
  "tc_data (interfere x c) = tc_data c" "tc_receivingHalt (interfere x c) = tc_receivingHalt c"
  "tc_dataCall (interfere x c) = tc_dataCall c" "tc_errorCall (interfere x c) = tc_errorCall c"
  "tc_state (interfere x c) = tc_state c" "tc_reading (interfere x c) = tc_reading c"
  "tc_triggerhalt (interfere x c) \<longleftrightarrow> x \<or> tc_triggerhalt c" "tc_idcode (interfere x c) = tc_idcode c"
  by (simp_all add: interfere_def)

lemma interfere_False [simp]: "interfere False c = c"
  by (simp add: interfere_def)

lemmas conn_updates = trigger_halt_def activate_halt_def activate_connected_def stop_receiving_def cancel_def

lemma stop_receiving_inv:
  assumes "trigger_laws P" "tc_reading c = None" "tc_residBufferSize c \<le> length (tc_data c)"
  shows "conn_inv P (stop_receiving P c)"
  using assms by (simp add: conn_inv_def conn_updates trigger_releases)

text \<open>Entering \<open>startReceive\<close> from the handler and from outside.\<close>

lemma startReceive_handler_inv:
  assumes "trigger_laws P" "tc_reading c = None" "tc_residBufferSize c \<le> length (tc_data c)" "tc_state c = waiting"
    and "pf_isActive P (tc_receivingHalt c)" "\<not> pf_isTriggered P (tc_receivingHalt c)"
  shows "conn_inv P (startReceive P h c)"
  using assms by (simp add: startReceive_def conn_inv_def conn_updates trigger_releases size_sub_def Let_def)

lemma trigger_halt_inv:
  assumes "trigger_laws P" "conn_inv P c" "tc_reading c = None"
  shows "conn_inv P (trigger_halt P c)"
  using assms by (auto simp: conn_inv_def conn_updates trigger_releases trigger_stays)

lemma interfere_inv: "conn_inv P c \<Longrightarrow> conn_inv P (interfere x c)"
  by (auto simp: conn_inv_def split: option.splits)

lemma startReceive_inv:
  assumes "trigger_laws P" "conn_inv P c" "\<not> isReceiving P c"
  shows "conn_inv P (startReceive P h c)"
proof -
  have None: "tc_reading c = None"
    using assms(2,3) by (auto simp: conn_inv_def isReceiving_def split: option.splits)
  show ?thesis
  proof (cases "tc_triggerhalt (interfere (h 0) c)")
    case True
    then show ?thesis using assms None by (simp add: startReceive_def trigger_halt_inv interfere_inv)
  next
    case False
    then show ?thesis
    proof (cases "tc_state c")
      case prestart
      with False None assms show ?thesis
        by (simp add: startReceive_def conn_inv_def conn_updates trigger_releases trigger_activated
            trigger_activate_fresh size_sub_def Let_def)
    qed (use False None assms in \<open>auto simp add: startReceive_def Let_def intro!: trigger_halt_inv interfere_inv\<close>,
        simp_all add: conn_inv_def)
  qed
qed

text \<open>What the handler finds: the read is no longer outstanding, the loop still counts as running.\<close>

definition conn_handling :: "('s, 't) Platform \<Rightarrow> nat \<Rightarrow> ('s, 't, 'w) TcpConnection \<Rightarrow> bool" where
  "conn_handling P n c \<longleftrightarrow> n + tc_residBufferSize c \<le> length (tc_data c) \<and> tc_reading c = None \<and>
     tc_state c = operating \<and> pf_isActive P (tc_receivingHalt c) \<and> \<not> pf_isTriggered P (tc_receivingHalt c)"

lemma conn_handling_interfere [simp]: "conn_handling P n (interfere x c) = conn_handling P n c"
  by (simp add: conn_handling_def)

lemma handling_stop_inv: "trigger_laws P \<Longrightarrow> conn_handling P n c \<Longrightarrow> conn_inv P (stop_receiving P c)"
  by (intro stop_receiving_inv) (simp_all add: conn_handling_def)

lemma handling_start_inv:
  "trigger_laws P \<Longrightarrow> conn_handling P n c \<Longrightarrow> conn_inv P (startReceive P h (c\<lparr>tc_state := waiting\<rparr>))"
  by (intro startReceive_handler_inv) (simp_all add: conn_handling_def)

lemma call_data_handling:
  assumes "conn_handling P n c"
  shows "(call_data n clear (w, c) = Throws bad_function_call (w, c) \<and> tc_dataCall c = None) \<or>
    (\<exists>w' c'. call_data n clear (w, c) = Returns () (w', c') \<and> conn_handling P 0 c')"
proof (cases "tc_dataCall c")
  case None
  then show ?thesis by (simp add: call_data_def)
next
  case (Some f)
  obtain used w' where f: "f w (tc_idcode c) (take (n + tc_residBufferSize c) (tc_data c)) = (used, w')"
    by fastforce
  show ?thesis using assms Some by (auto simp add: call_data_def f keep_unused_def conn_handling_def Let_def)
qed

lemma throwing_inv: "conn_handling P n c \<Longrightarrow> tc_dataCall c = None \<Longrightarrow> conn_inv P c"
  by (simp add: conn_handling_def conn_inv_def)

lemma report_error_inv:
  assumes "trigger_laws P" "conn_handling P n c"
  shows "conn_inv P (snd (result_state (report_error P h e (w, c))))"
  using assms handling_stop_inv handling_start_inv
  by (auto simp: report_error_def split: option.splits prod.splits)

lemma handle_read_inv:
  assumes "trigger_laws P" "conn_handling P n c"
  shows "conn_inv P (snd (result_state (handle_read P h error n (w, c))))"
proof (cases "tc_triggerhalt (interfere (h 0) c)")
  case True
  then show ?thesis using assms handling_stop_inv[of P n "interfere (h 0) c"] by (simp add: handle_read_def)
next
  case run: False
  have same [simp]: "interfere (h 0) c = c" and flags [simp]: "\<not> h 0" "\<not> tc_triggerhalt c"
    using run by (auto simp: interfere_def split: if_splits)
  note handling = assms(2)
  note call = call_data_handling[OF handling]
  show ?thesis
  proof (cases error)
    case None
    then show ?thesis
      using call[of True w] assms(1) handling_start_inv[of P 0] throwing_inv[OF handling]
      by (auto simp: handle_read_def)
  next
    case (Some e)
    consider (throws) "(if n > 0 then call_data n False (w, c) else Returns () (w, c)) = Throws bad_function_call (w, c)"
        "tc_dataCall c = None"
      | (returns) m w' c' where "(if n > 0 then call_data n False (w, c) else Returns () (w, c)) = Returns () (w', c')"
        "conn_handling P m c'"
      using call[of False w] handling by (cases "n > 0") auto
    then show ?thesis
    proof cases
      case throws
      then show ?thesis
        using throwing_inv[OF handling] Some handling_stop_inv[OF assms(1) handling]
        by (cases "e = operation_aborted") (simp_all add: handle_read_def Let_def del: if_split)
    next
      case returns
      then show ?thesis
        using report_error_inv[OF assms(1) returns(2)] Some handling_stop_inv[OF assms(1) handling]
        by (cases "e = operation_aborted") (simp_all add: handle_read_def Let_def del: if_split)
    qed
  qed
qed

lemma conn_inv_other [simp]:
  "conn_inv P (c\<lparr>tc_socket := s\<rparr>) = conn_inv P c" "conn_inv P (c\<lparr>tc_connected := t\<rparr>) = conn_inv P c"
  "conn_inv P (c\<lparr>tc_connectionError := e\<rparr>) = conn_inv P c" "conn_inv P (c\<lparr>tc_errorCall := g\<rparr>) = conn_inv P c"
  by (cases "tc_reading c"; simp add: conn_inv_def)+

lemma connect_handler_inv:
  "conn_inv P (result_state (connect_handler P error c)) = conn_inv P c"
  by (simp add: connect_handler_def activate_connected_def Let_def split: option.split prod.split)

lemma closeNoWait_rest_inv:
  assumes "trigger_laws P" "conn_inv P c"
  shows "conn_inv P (closeNoWait_rest P c)"
proof -
  have "conn_inv P (case tc_state c of
                 prestart \<Rightarrow> if pf_isActive P (tc_receivingHalt c) then trigger_halt P c else c
               | halted \<Rightarrow> trigger_halt P c
               | closed \<Rightarrow> trigger_halt P c
               | _ \<Rightarrow> c)"
    using assms trigger_halt_inv[OF assms]
    by (cases "tc_state c"; cases "tc_reading c") (auto simp: conn_inv_def)
  then show ?thesis by (simp add: closeNoWait_rest_def Let_def)
qed

lemma set_callback_inv: "conn_inv P c \<Longrightarrow> tc_state c = prestart \<Longrightarrow> trigger_laws P \<Longrightarrow> conn_inv P (c\<lparr>tc_dataCall := f\<rparr>)"
  by (auto simp: conn_inv_def trigger_lawsD split: option.splits)

lemma set_halt_inv: "conn_inv P c \<Longrightarrow> conn_inv P (c\<lparr>tc_triggerhalt := True\<rparr>)"
  by (auto simp: conn_inv_def split: option.splits)

lemma close_inv:
  "conn_inv P c \<Longrightarrow> trigger_laws P \<Longrightarrow> pf_wait_for P (tc_receivingHalt c) \<Longrightarrow> conn_inv P (c\<lparr>tc_state := closed\<rparr>)"
  by (auto simp: conn_inv_def trigger_wait split: option.splits)

lemma conn_step_inv:
  assumes "trigger_laws P" "conn_step P s t" "conn_inv P (snd s)"
  shows "conn_inv P (snd t)"
  using assms(2,3)
proof cases
  case (read c off len input h error w)
  let ?c = "c\<lparr>tc_data := overlay off input (tc_data c), tc_reading := None\<rparr>"
  have "conn_handling P (length input) ?c"
    using read assms(3) by (auto simp: conn_inv_def conn_handling_def)
  then show ?thesis using handle_read_inv[OF assms(1), of "length input" ?c h error w] read by simp
next
  case (read_throws c off len input h error w e)
  let ?c = "c\<lparr>tc_data := overlay off input (tc_data c), tc_reading := None\<rparr>"
  have "conn_handling P (length input) ?c"
    using read_throws assms(3) by (auto simp: conn_inv_def conn_handling_def)
  then show ?thesis using handle_read_inv[OF assms(1), of "length input" ?c h error w] read_throws by simp
next
  case (connect error c c')
  then show ?thesis using assms(3) connect_handler_inv[of P error c] by auto
next
  case close
  then show ?thesis using assms close_inv by simp
qed (use assms in \<open>auto simp: startReceive_inv setDataCall_def setErrorCall_def closeNoWait_store_def
    closeNoWait_rest_inv set_callback_inv set_halt_inv split: if_splits\<close>)

lemma conn_init_inv: "trigger_laws P \<Longrightarrow> conn_init P s \<Longrightarrow> conn_inv P (snd s)"
  by (auto simp: conn_init_def make_connection_def conn_inv_def trigger_lawsD)

interpretation conn: transition_system "conn_step P" "\<lambda>s. trigger_laws P \<and> conn_init P s"
    "\<lambda>s. trigger_laws P \<and> conn_inv P (snd s)" for P
  by unfold_locales (auto intro: conn_init_inv conn_step_inv)

lemma conn_reachable_inv:
  assumes "trigger_laws P" "conn_init P s" "(conn_step P)\<^sup>*\<^sup>* s t"
  shows "conn_inv P (snd t)"
  using conn.inv_reachable[of P s t] assms by simp

section \<open>The receive loop\<close>

text \<open>A connection of the sample platform with its loop running.\<close>

definition sample_connection :: "(nat \<Rightarrow> u32 \<Rightarrow> u8 list \<Rightarrow> nat \<times> nat) option \<Rightarrow>
    (sample_socket, bool \<times> bool, nat) TcpConnection" where
  "sample_connection f = startReceive sample_platform (\<lambda>_. False)
     ((fst (make_connection sample_platform \<lparr>ss_open = True, ss_out = [], ss_chunk = 1, ss_in = []\<rparr> 4 False 10))
       \<lparr>tc_dataCall := f\<rparr>)"

lemma sample_connection_simps:
  "tc_reading (sample_connection f) = Some (0, 4)" "tc_dataCall (sample_connection f) = f"
  "tc_residBufferSize (sample_connection f) = 0" "tc_data (sample_connection f) = [0, 0, 0, 0]"
  "tc_state (sample_connection f) = operating" "\<not> tc_triggerhalt (sample_connection f)"
  "\<not> tc_connecting (sample_connection f)" "tc_receivingHalt (sample_connection f) = (True, False)"
  "tc_connected (sample_connection f) = (True, False)" "\<not> tc_connectionError (sample_connection f)"
  "tc_socket (sample_connection f) = \<lparr>ss_open = True, ss_out = [], ss_chunk = 1, ss_in = []\<rparr>"
  "tc_idcode (sample_connection f) = 10" "tc_errorCall (sample_connection f) = None"
  by (simp_all add: sample_connection_def make_connection_def startReceive_def conn_updates sample_platform_def
      size_sub_def Let_def numeral_eq_Suc)

lemma sample_connection_reachable:
  "\<exists>s. conn_init sample_platform s \<and> (conn_step sample_platform)\<^sup>*\<^sup>* s (w, sample_connection f)"
proof -
  let ?c = "fst (make_connection sample_platform \<lparr>ss_open = True, ss_out = [], ss_chunk = 1, ss_in = []\<rparr> 4 False 10)
    :: (sample_socket, bool \<times> bool, nat) TcpConnection"
  have "conn_init sample_platform (w, ?c)" unfolding conn_init_def snd_conv by blast
  moreover have "conn_step sample_platform (w, ?c) (w, ?c\<lparr>tc_dataCall := f\<rparr>)"
    by (rule conn_step.set_data[of f]) (simp add: setDataCall_def make_connection_def)
  moreover have "conn_step sample_platform (w, ?c\<lparr>tc_dataCall := f\<rparr>) (w, sample_connection f)"
    unfolding sample_connection_def
    by (rule conn_step.start) (simp add: isReceiving_def make_connection_def sample_platform_def)
  ultimately show ?thesis by (meson converse_rtranclp_into_rtranclp rtranclp.rtrancl_refl)
qed

text \<open>What the io context of the examples does: the handler of the outstanding read runs with \<open>operation_aborted\<close>.\<close>

definition abort_read :: "(sample_socket, bool \<times> bool, nat) TcpConnection \<Rightarrow> (sample_socket, bool \<times> bool, nat) TcpConnection" where
  "abort_read c = (case tc_reading c of None \<Rightarrow> c
     | Some (off, len) \<Rightarrow> snd (result_state (handle_read sample_platform (\<lambda>_. False) (Some operation_aborted) 0
         (0, c\<lparr>tc_data := overlay off [] (tc_data c), tc_reading := None\<rparr>))))"

lemma abort_read_fields: "tc_reading (abort_read c) = None" "tc_dataCall (abort_read c) = tc_dataCall c"
  by (auto simp: abort_read_def handle_read_def stop_receiving_def trigger_halt_def Let_def split: option.splits)

lemma abort_read_steps: "(conn_step sample_platform)\<^sup>*\<^sup>* (0, c) (0, abort_read c)"
proof (cases "tc_reading c")
  case (Some p)
  obtain off len where p: "p = (off, len)" by fastforce
  have "conn_step sample_platform (0, c) (0, abort_read c)"
    using Some p
    by (intro conn_step.read[of c off len "[]" _ "\<lambda>_. False" "Some operation_aborted"])
      (simp_all add: abort_read_def handle_read_def Let_def)
  then show ?thesis by blast
qed (simp add: abort_read_def)

text \<open>C17: in every state a connection can get into, whatever the peer sends, the socket reports and other
  threads do in between: the part of the buffer an outstanding read will fill is exactly the part behind
  the unused bytes.  While there is no outstanding read, nobody who waits for the end of the receive loop waits
  in vain, provided the connection has a data callback; without one the handler may have thrown and left the loop
  marked as running (\<open>close_without_callback_hangs\<close>).\<close>

theorem receive_loop_invariant:
  assumes "trigger_laws P" "conn_init P s" "(conn_step P)\<^sup>*\<^sup>* s (w, c)"
  shows "tc_residBufferSize c \<le> length (tc_data c) \<and>
    (\<forall>off len. tc_reading c = Some (off, len) \<longrightarrow>
       off = tc_residBufferSize c \<and> off + len = length (tc_data c) \<and> tc_state c = operating) \<and>
    (tc_reading c = None \<and> tc_dataCall c \<noteq> None \<longrightarrow> pf_wait_for P (tc_receivingHalt c))"
  using conn_reachable_inv[OF assms] by (auto simp: conn_inv_def split: option.splits)

theorem receive_loop_invariant_witness:
  "let c = sample_connection (Some (\<lambda>w i bs. (0, w))) in
     tc_reading c = Some (0, 4) \<and> 0 + 4 = length (tc_data c) \<and> \<not> pf_wait_for sample_platform (tc_receivingHalt c) \<and>
     tc_reading (abort_read c) = None \<and> pf_wait_for sample_platform (tc_receivingHalt (abort_read c))"
proof -
  let ?c = "sample_connection (Some (\<lambda>w i bs. (0, w)))"
  obtain s where s: "conn_init sample_platform s" "(conn_step sample_platform)\<^sup>*\<^sup>* s (0 :: nat, ?c)"
    using sample_connection_reachable[of 0 "Some (\<lambda>w i bs. (0, w))"] by blast
  from s(2) have ended: "(conn_step sample_platform)\<^sup>*\<^sup>* s (0, abort_read ?c)"
    using abort_read_steps by (rule rtranclp_trans)
  have "0 + 4 = length (tc_data ?c)"
    using receive_loop_invariant[OF sample_trigger_laws s] by (simp add: sample_connection_simps)
  moreover have "pf_wait_for sample_platform (tc_receivingHalt (abort_read ?c))"
    using receive_loop_invariant[OF sample_trigger_laws s(1) ended] by (simp add: abort_read_fields sample_connection_simps)
  moreover have "\<not> pf_wait_for sample_platform (tc_receivingHalt ?c)"
    by (simp add: sample_connection_simps) (simp add: sample_platform_def)
  ultimately show ?thesis by (simp add: Let_def abort_read_fields sample_connection_simps)
qed

text \<open>What the loop promises to the owner of the data callback: the callback consumes a stream.  It is
  offered all bytes not yet consumed and says how many it takes.\<close>

definition stream_step :: "('w \<Rightarrow> u32 \<Rightarrow> u8 list \<Rightarrow> nat \<times> 'w) \<Rightarrow> u32 \<Rightarrow> 'w \<times> u8 list \<Rightarrow> u8 list \<Rightarrow> 'w \<times> u8 list" where
  "stream_step f i = (\<lambda>(w, unread) input. let (used, w') = f w i (unread @ input) in (w', drop used (unread @ input)))"

definition stream_state :: "'w \<times> ('s, 't, 'w) TcpConnection \<Rightarrow> 'w \<times> u8 list" where
  "stream_state = (\<lambda>(w, c). (w, take (tc_residBufferSize c) (tc_data c)))"

text \<open>A run of successful reads.\<close>

fun receive_all :: "('s, 't) Platform \<Rightarrow> u8 list list \<Rightarrow> 'w \<times> ('s, 't, 'w) TcpConnection \<Rightarrow>
    ('w \<times> ('s, 't, 'w) TcpConnection) option" where
  "receive_all P [] s = Some s"
| "receive_all P (input # inputs) (w, c) =
     (case tc_reading c of None \<Rightarrow> None
      | Some (off, len) \<Rightarrow>
          if len < length input then None
          else case handle_read P (\<lambda>_. False) None (length input)
              (w, c\<lparr>tc_data := overlay off input (tc_data c), tc_reading := None\<rparr>) of
            Returns _ s \<Rightarrow> receive_all P inputs s
          | Throws _ _ \<Rightarrow> None)"

definition loop_running :: "('s, 't) Platform \<Rightarrow> ('w \<Rightarrow> u32 \<Rightarrow> u8 list \<Rightarrow> nat \<times> 'w) \<Rightarrow> ('s, 't, 'w) TcpConnection \<Rightarrow> bool" where
  "loop_running P f c \<longleftrightarrow> conn_inv P c \<and> tc_reading c \<noteq> None \<and> tc_dataCall c = Some f \<and> \<not> tc_triggerhalt c"

lemma overlay_0: "length bs \<le> length b \<Longrightarrow> take (length bs) (overlay 0 bs b) = bs"
  by (simp add: overlay_def)

lemma startReceive_waiting:
  assumes "\<not> tc_triggerhalt c" "tc_state c = waiting" "pf_isActive P (tc_receivingHalt c)"
    "tc_residBufferSize c \<le> length (tc_data c)"
  shows "startReceive P (\<lambda>_. False) c = c\<lparr>tc_state := operating,
    tc_reading := Some (tc_residBufferSize c, length (tc_data c) - tc_residBufferSize c)\<rparr>"
  using assms by (simp add: startReceive_def size_sub_def Let_def)

lemma call_data_stream:
  assumes "tc_dataCall c = Some f" "n + tc_residBufferSize c \<le> length (tc_data c)"
    and "f w (tc_idcode c) (take (n + tc_residBufferSize c) (tc_data c)) = (used, w')"
  shows "\<exists>r d. call_data n True (w, c) = Returns () (w', c\<lparr>tc_residBufferSize := r, tc_data := d\<rparr>) \<and>
    r \<le> length d \<and> length d = length (tc_data c) \<and>
    take r d = drop used (take (n + tc_residBufferSize c) (tc_data c))"
proof -
  let ?n = "n + tc_residBufferSize c"
  let ?rest = "drop used (take ?n (tc_data c))"
  have rest: "length ?rest = ?n - used" using assms(2) by simp
  consider "?n \<le> used" | "used = 0" "0 < ?n" | "0 < used" "used < ?n" by linarith
  then show ?thesis
  proof cases
    case 1
    then show ?thesis using assms by (intro exI[of _ 0] exI[of _ "replicate (length (tc_data c)) 0"])
      (simp add: call_data_def)
  next
    case 2
    then show ?thesis using assms by (intro exI[of _ ?n] exI[of _ "tc_data c"])
      (simp add: call_data_def keep_unused_def)
  next
    case 3
    have "take (?n - used) (drop used (tc_data c)) = ?rest" using 3 by (simp add: take_drop)
    then show ?thesis using 3 assms rest overlay_0[of ?rest "tc_data c"]
      by (intro exI[of _ "?n - used"] exI[of _ "overlay 0 ?rest (tc_data c)"])
        (auto simp: call_data_def keep_unused_def Let_def)
  qed
qed

lemma read_consumes:
  assumes "loop_running P f c" "tc_reading c = Some (off, len)" "length input \<le> len"
  shows "\<exists>s'. handle_read P (\<lambda>_. False) None (length input)
      (w, c\<lparr>tc_data := overlay off input (tc_data c), tc_reading := None\<rparr>) = Returns () s' \<and>
    stream_state s' = stream_step f (tc_idcode c) (stream_state (w, c)) input \<and>
    loop_running P f (snd s') \<and> tc_idcode (snd s') = tc_idcode c \<and>
    length (tc_data (snd s')) = length (tc_data c)"
proof -
  have inv: "off = tc_residBufferSize c" "off + len = length (tc_data c)" "tc_state c = operating"
      "pf_isActive P (tc_receivingHalt c)" "\<not> pf_isTriggered P (tc_receivingHalt c)"
      "tc_residBufferSize c \<le> length (tc_data c)" and f: "tc_dataCall c = Some f" and run: "\<not> tc_triggerhalt c"
    using assms(1,2) by (auto simp: loop_running_def conn_inv_def)
  let ?unread = "take off (tc_data c) @ input"
  let ?c = "c\<lparr>tc_data := overlay off input (tc_data c), tc_reading := None\<rparr>"
  have off: "off + length input \<le> length (tc_data c)" using inv assms(3) by simp
  then have given: "take (length input + off) (overlay off input (tc_data c)) = ?unread"
    by (simp add: overlay_def)
  obtain used w' where fw: "f w (tc_idcode c) ?unread = (used, w')" by fastforce
  obtain r d where call: "call_data (length input) True (w, ?c) = Returns () (w', ?c\<lparr>tc_residBufferSize := r, tc_data := d\<rparr>)"
      "r \<le> length d" "take r d = drop used ?unread" "length d = length (tc_data c)"
    using call_data_stream[of ?c f "length input" w used w'] f off fw given inv(1) by auto
  let ?d = "?c\<lparr>tc_residBufferSize := r, tc_data := d, tc_state := waiting\<rparr>"
  have "handle_read P (\<lambda>_. False) None (length input) (w, ?c) =
      Returns () (w', ?d\<lparr>tc_state := operating, tc_reading := Some (r, length d - r)\<rparr>)"
    using run inv(4) call(2) by (simp add: handle_read_def call(1) startReceive_waiting)
  moreover have "stream_state (w', ?d\<lparr>tc_state := operating, tc_reading := Some (r, length d - r)\<rparr>) =
      stream_step f (tc_idcode c) (stream_state (w, c)) input"
    by (simp add: stream_state_def stream_step_def inv(1)[symmetric] fw call(3))
  moreover have "loop_running P f (?d\<lparr>tc_state := operating, tc_reading := Some (r, length d - r)\<rparr>)"
    using inv(4,5) f run call(2) by (simp add: loop_running_def conn_inv_def)
  ultimately show ?thesis using call(4)
    by (intro exI[of _ "(w', ?d\<lparr>tc_state := operating, tc_reading := Some (r, length d - r)\<rparr>)"]) simp
qed

lemma receive_all_stream:
  assumes "loop_running P f c" "receive_all P inputs (w, c) = Some s"
  shows "stream_state s = foldl (stream_step f (tc_idcode c)) (stream_state (w, c)) inputs \<and> loop_running P f (snd s)"
  using assms
proof (induction inputs arbitrary: w c)
  case Nil
  then show ?case by auto
next
  case (Cons input inputs)
  then obtain off len where r: "tc_reading c = Some (off, len)" "length input \<le> len"
    by (auto split: option.splits if_splits)
  from read_consumes[OF Cons.prems(1) r, of w] obtain s' where s':
    "handle_read P (\<lambda>_. False) None (length input)
      (w, c\<lparr>tc_data := overlay off input (tc_data c), tc_reading := None\<rparr>) = Returns () s'"
    "stream_state s' = stream_step f (tc_idcode c) (stream_state (w, c)) input"
    "loop_running P f (snd s')" "tc_idcode (snd s') = tc_idcode c" by blast
  then have "receive_all P inputs (fst s', snd s') = Some s" using Cons.prems(2) r by simp
  from Cons.IH[OF s'(3) this] s' show ?case by simp
qed

lemma sample_loop_running: "loop_running sample_platform f (sample_connection (Some f))"
  by (simp add: loop_running_def conn_inv_def sample_connection_simps) (simp add: sample_platform_def)

text \<open>C1: the receive loop refines the stream: for every sequence of reads, however the network cuts the bytes
  into pieces, the callback sees the bytes in order, none lost and none twice, and what it leaves is
  offered again in front of the next bytes.\<close>

theorem receive_loop_refines_stream:
  assumes "loop_running P f c" "receive_all P inputs (w, c) = Some s"
  shows "stream_state s = foldl (stream_step f (tc_idcode c)) (stream_state (w, c)) inputs"
  using receive_all_stream[OF assms] by blast

theorem receive_loop_refines_stream_witness:
  "\<exists>s. receive_all sample_platform [[1, 2, 3], [4]] (0, sample_connection (Some (\<lambda>w i bs. (2, w + length bs)))) = Some s \<and>
     stream_state s = (5, [])"
proof -
  let ?f = "\<lambda>(w :: nat) (i :: u32) bs. (2 :: nat, w + length (bs :: u8 list))"
  let ?c = "sample_connection (Some ?f)"
  obtain s1 where s1: "handle_read sample_platform (\<lambda>_. False) None (length ([1, 2, 3] :: u8 list))
      (0, ?c\<lparr>tc_data := overlay 0 [1, 2, 3] (tc_data ?c), tc_reading := None\<rparr>) = Returns () s1"
    "stream_state s1 = (3, [3])" "loop_running sample_platform ?f (snd s1)" "length (tc_data (snd s1)) = 4"
    using read_consumes[OF sample_loop_running, of ?f 0 4 "[1, 2, 3]" 0]
    by (auto simp: sample_connection_simps stream_state_def stream_step_def)
  obtain off len where r: "tc_reading (snd s1) = Some (off, len)" "off = tc_residBufferSize (snd s1)"
      "off + len = 4"
    using s1(3,4) by (auto simp: loop_running_def conn_inv_def)
  have "off = 1"
    using s1(2,4) r by (cases s1) (auto simp: stream_state_def dest: arg_cong[of _ _ length])
  with r have len: "length ([4] :: u8 list) \<le> len" by simp
  obtain s2 where "handle_read sample_platform (\<lambda>_. False) None (length ([4] :: u8 list))
      (fst s1, (snd s1)\<lparr>tc_data := overlay off [4] (tc_data (snd s1)), tc_reading := None\<rparr>) = Returns () s2"
    using read_consumes[OF s1(3) r(1) len, of "fst s1"] by blast
  with s1(1) r(1) len have "\<exists>s. receive_all sample_platform [[1, 2, 3], [4]] (0, ?c) = Some s"
    by (cases s1) (simp add: sample_connection_simps)
  then obtain s where s: "receive_all sample_platform [[1, 2, 3], [4]] (0, sample_connection (Some ?f)) = Some s"
    by blast
  from receive_loop_refines_stream[OF sample_loop_running s] have "stream_state s = (5, [])"
    by (simp add: stream_state_def stream_step_def sample_connection_simps)
  with s show ?thesis by blast
qed

text \<open>C25: a message that does not fit into the buffer stops the connection for good: when the buffer is full and
  the callback still waits for the rest, the next read has no room, completes at once with nothing, and leaves
  the connection exactly as it was, over and over.\<close>

theorem full_buffer_spins:
  assumes "conn_inv P c" "tc_reading c = Some (off, 0)" "\<not> tc_triggerhalt c" "tc_data c \<noteq> []"
    and "tc_dataCall c = Some f" "f w (tc_idcode c) (tc_data c) = (0, w)"
  shows "handle_read P (\<lambda>_. False) None 0 (w, c\<lparr>tc_data := overlay off [] (tc_data c), tc_reading := None\<rparr>) =
    Returns () (w, c)"
proof -
  have inv: "off = length (tc_data c)" "tc_residBufferSize c = length (tc_data c)" "tc_state c = operating"
      "pf_isActive P (tc_receivingHalt c)"
    using assms(1,2) by (auto simp: conn_inv_def)
  let ?c = "c\<lparr>tc_data := overlay off [] (tc_data c), tc_reading := None\<rparr>"
  have "call_data 0 True (w, ?c) = Returns () (w, ?c)"
    using assms(4-6) inv(2) by (auto simp: call_data_def keep_unused_def Let_def)
  moreover have "startReceive P (\<lambda>i. False) (?c\<lparr>tc_state := waiting\<rparr>) = c"
    using assms(2,3) inv by (simp add: startReceive_waiting)
  ultimately show ?thesis using assms(3) by (simp add: handle_read_def)
qed

definition full_connection :: "(sample_socket, bool \<times> bool, nat) TcpConnection" where
  "full_connection = (sample_connection (Some (\<lambda>w i bs. (0, w))))\<lparr>tc_residBufferSize := 4, tc_reading := Some (4, 0)\<rparr>"

theorem full_buffer_spins_witness:
  "handle_read sample_platform (\<lambda>_. False) None 0
     (7, full_connection\<lparr>tc_data := overlay 4 [] (tc_data full_connection), tc_reading := None\<rparr>) =
   Returns () (7, full_connection)"
  by (rule full_buffer_spins[where f = "\<lambda>w i bs. (0, w)"])
    (simp_all add: full_connection_def conn_inv_def sample_connection_simps, simp add: sample_platform_def)

section \<open>Closing\<close>

lemma poll_halt_ends:
  assumes "\<And>i c. ok c \<Longrightarrow> ok (env i c)" "\<And>c. ok c \<Longrightarrow> pf_wait_for P (tc_receivingHalt (env k c))"
    and "ok c" "i \<le> k" "k < i + fuel"
  shows "\<exists>c'. poll_halt P env i fuel c = Some c'"
  using assms(3-5)
proof (induction fuel arbitrary: i c)
  case (Suc fuel)
  show ?case
  proof (cases "pf_wait_for P (tc_receivingHalt (env i c))")
    case False
    then have "i \<noteq> k" using assms(2) Suc.prems(1) by blast
    then show ?thesis using Suc.IH[of "env i c" "i + 1"] Suc.prems assms(1) False by simp
  qed (simp add: Let_def)
qed simp

lemma closeNoWait_inv: "trigger_laws P \<Longrightarrow> conn_inv P c \<Longrightarrow> conn_inv P (closeNoWait P c)"
  by (simp add: closeNoWait_def closeNoWait_store_def closeNoWait_rest_inv set_halt_inv)

lemma closeNoWait_fields [simp]:
  "tc_triggerhalt (closeNoWait P c)" "tc_connecting (closeNoWait P c) = tc_connecting c"
  "tc_connected (closeNoWait P c) = tc_connected c" "tc_dataCall (closeNoWait P c) = tc_dataCall c"
  by (simp_all add: closeNoWait_def closeNoWait_store_def closeNoWait_rest_def trigger_halt_def Let_def
      split: connection_state_t.split)

definition other_threads :: "('s, 't) Platform \<Rightarrow> (nat \<Rightarrow> ('s, 't, 'w) TcpConnection \<Rightarrow> ('s, 't, 'w) TcpConnection) \<Rightarrow> bool" where
  "other_threads P env \<longleftrightarrow> (\<forall>i c. tc_dataCall (env i c) = tc_dataCall c \<and>
     (\<exists>w w'. (conn_step P)\<^sup>*\<^sup>* (w, c) (w', env i c)))"

text \<open>C2: \<open>close\<close> comes back from every reachable state of a connection that has a data callback, on two conditions on
  the other threads: a connect that is still under way is completed during the first wait, and the io context
  runs the handler of the outstanding read at some time, in the \<open>k\<close>-th of the waits for the receive loop or before.
  Then \<open>close\<close> has returned after that wait and the connection is closed, whatever state it was in.  Without a
  data callback this fails (\<open>close_without_callback_hangs\<close>).\<close>

theorem close_returns:
  fixes P :: "('s, 't) Platform" and c :: "('s, 't, 'w) TcpConnection"
  assumes "trigger_laws P" "conn_init P s" "(conn_step P)\<^sup>*\<^sup>* s (w, c)" "tc_dataCall c \<noteq> None"
    and "\<not> tc_connecting c \<or> pf_isActive P (tc_connected c) \<or> (\<forall>c. pf_isActive P (tc_connected (env 0 c)))"
    and "other_threads P env" "\<forall>c. tc_reading (env k c) = None" "0 < k" "k \<le> fuel"
  shows "\<exists>c'. close_connection P env fuel c = Some c' \<and> tc_state c' = closed"
proof -
  define ok where "ok = (\<lambda>c :: ('s, 't, 'w) TcpConnection. conn_inv P c \<and> tc_dataCall c \<noteq> None)"
  have env: "ok (env i c)" if "ok c" for i c
    using assms(6) that conn.inv_steps[of P] assms(1) by (force simp: ok_def other_threads_def)
  have done_k: "pf_wait_for P (tc_receivingHalt (env k c))" if "ok c" for c
    using env[OF that, of k] assms(7) by (auto simp: ok_def conn_inv_def)
  have ends: "\<exists>c'. poll_halt P env 1 fuel c = Some c'" if "ok c" for c
    using poll_halt_ends[of ok env P k c 1 fuel] env done_k assms(8,9) that by auto
  have "ok (closeNoWait P c)"
    using conn_reachable_inv[OF assms(1-3)] assms(1,4) by (simp add: ok_def closeNoWait_inv)
  with ends env[of _ 0] assms(5) show ?thesis
    by (fastforce simp: close_connection_def waitOnClose_def wait_closing_def Let_def)
qed

theorem close_returns_witness:
  "\<exists>c'. close_connection sample_platform (\<lambda>_. abort_read) 1 (sample_connection (Some (\<lambda>w i bs. (0, w)))) = Some c' \<and>
     tc_state c' = closed"
proof -
  let ?f = "Some (\<lambda>w i bs. (0, w)) :: (nat \<Rightarrow> u32 \<Rightarrow> u8 list \<Rightarrow> nat \<times> nat) option"
  obtain s where s: "conn_init sample_platform s" "(conn_step sample_platform)\<^sup>*\<^sup>* s (0, sample_connection ?f)"
    using sample_connection_reachable[of 0 ?f] by blast
  have "other_threads sample_platform (\<lambda>_. abort_read)"
    using abort_read_steps abort_read_fields by (auto simp: other_threads_def)
  with close_returns[OF sample_trigger_laws s, of "\<lambda>_. abort_read" 1 1] show ?thesis
    by (simp add: sample_connection_simps abort_read_fields)
qed

lemma poll_halt_stuck:
  "\<not> pf_wait_for P (tc_receivingHalt c) \<Longrightarrow> poll_halt P (\<lambda>_ c. c) i fuel c = None"
  by (induction fuel arbitrary: i) (simp_all add: Let_def)

text \<open>Without a data callback the first data that arrives makes the handler throw, nothing ends the
  receive loop, and \<open>close\<close> then polls for ever.\<close>

theorem close_without_callback_hangs:
  assumes "trigger_laws P" "conn_inv P c" "tc_reading c = Some (off, len)" "length input \<le> len"
    and "tc_dataCall c = None" "\<not> tc_triggerhalt c"
  shows "\<exists>c'. handle_read P (\<lambda>_. False) None (length input)
      (w, c\<lparr>tc_data := overlay off input (tc_data c), tc_reading := None\<rparr>) = Throws bad_function_call (w, c') \<and>
    (\<forall>fuel. close_connection P (\<lambda>_ c. c) fuel c' = None)"
proof -
  let ?c = "c\<lparr>tc_data := overlay off input (tc_data c), tc_reading := None\<rparr>"
  have "handle_read P (\<lambda>_. False) None (length input) (w, ?c) = Throws bad_function_call (w, ?c)"
    using assms(5,6) by (simp add: handle_read_def call_data_def)
  moreover have "\<not> pf_wait_for P (tc_receivingHalt (closeNoWait P ?c))"
    using assms(1-3) by (auto simp: conn_inv_def trigger_wait closeNoWait_def closeNoWait_store_def
        closeNoWait_rest_def Let_def)
  then have "close_connection P (\<lambda>_ c. c) fuel ?c = None" for fuel
    by (simp add: close_connection_def waitOnClose_def wait_closing_def poll_halt_stuck)
  ultimately show ?thesis by blast
qed

theorem close_without_callback_hangs_witness:
  "\<exists>c'. handle_read sample_platform (\<lambda>_. False) None (length ([9] :: u8 list))
      (0, (sample_connection None)\<lparr>tc_data := overlay 0 [9] (tc_data (sample_connection None)), tc_reading := None\<rparr>) =
        Throws bad_function_call (0, c') \<and>
    (\<forall>fuel. close_connection sample_platform (\<lambda>_ c. c) fuel c' = None)"
proof (rule close_without_callback_hangs[OF sample_trigger_laws])
  show "conn_inv sample_platform (sample_connection None)"
    by (simp add: conn_inv_def sample_connection_simps) (simp add: sample_platform_def)
  show "length ([9] :: u8 list) \<le> 4" by simp
qed (simp_all add: sample_connection_simps)

section \<open>Sending\<close>

lemma send_loop_out:
  assumes "socket_laws P out" "p + sent_size = length buf" "send_loop P buf count sent_size p s = (r, s')"
    and "count \<le> 5"
  shows "\<exists>m. p \<le> m \<and> m \<le> length buf \<and> out s' = out s @ take (m - p) (drop p buf) \<and>
    (\<forall>k. r = Inr k \<longrightarrow> k < 6 \<longrightarrow> m = length buf)"
  using assms(2-4)
proof (induction "5 - count" arbitrary: count sent_size p s)
  case 0
  then show ?case by (intro exI[of _ p]) (auto simp: send_loop.simps[of P buf 5])
next
  case (Suc n)
  have c: "count < 5" and n: "n = 5 - (count + 1)" using Suc.hyps(2) by simp_all
  have all: "take sent_size (drop p buf) = drop p buf" using Suc.prems(1) by simp
  obtain q s1 where send: "pf_send P (drop p buf) s = (q, s1)" by fastforce
  show ?case
  proof (cases q)
    case (Inl e)
    then have "r = Inl e" "s' = s1" using Suc.prems(2) c all send by (simp_all add: send_loop.simps[of P buf count])
    moreover have "out s1 = out s" using assms(1) send Inl by (auto simp: socket_laws_def)
    ultimately show ?thesis using Suc.prems(1) by (intro exI[of _ p]) simp
  next
    case (Inr sz)
    have sz: "sz \<le> sent_size" "out s1 = out s @ take sz (drop p buf)"
      using assms(1)[unfolded socket_laws_def, THEN conjunct1, rule_format, OF send[unfolded Inr]] Suc.prems(1)
      by auto
    show ?thesis
    proof (cases "sz = sent_size")
      case True
      then have "r = Inr (count + 1)" "s' = s1"
        using Suc.prems(2) c all send Inr by (simp_all add: send_loop.simps[of P buf count])
      then show ?thesis using sz True Suc.prems(1) by (intro exI[of _ "length buf"]) simp
    next
      case False
      then have "send_loop P buf (count + 1) (sent_size - sz) (p + sz) s1 = (r, s')"
        using Suc.prems(2) c all send Inr sz(1) by (simp add: send_loop.simps[of P buf count] size_sub_def)
      from Suc.hyps(1)[OF n _ this] c Suc.prems(1) sz(1) obtain m where m:
        "p + sz \<le> m" "m \<le> length buf" "out s' = out s1 @ take (m - (p + sz)) (drop (p + sz) buf)"
        "\<forall>k. r = Inr k \<longrightarrow> k < 6 \<longrightarrow> m = length buf" by auto
      have "take sz (drop p buf) @ take (m - (p + sz)) (drop (p + sz) buf) = take (m - p) (drop p buf)"
        using m(1) take_add[of sz "m - (p + sz)" "drop p buf"] by (simp add: add.commute)
      with m sz(2) show ?thesis by (intro exI[of _ m]) simp
    qed
  qed
qed

lemma send_prefix:
  assumes "socket_laws P out" "isConnected P c" "send P env buf c = Some r"
  shows "(\<exists>m \<le> length buf. out (tc_socket (result_state r)) = out (tc_socket c) @ take m buf) \<and>
    (\<forall>c'. r = Returns (length buf) c' \<longrightarrow> out (tc_socket c') = out (tc_socket c) @ buf) \<and>
    (\<forall>n c'. r = Returns n c' \<longrightarrow> n = 0 \<or> n = length buf)"
proof -
  obtain q s' where l: "send_loop P buf 0 (length buf) 0 (tc_socket c) = (q, s')" by fastforce
  from send_loop_out[OF assms(1) _ l] obtain m where
    "m \<le> length buf" "out s' = out (tc_socket c) @ take m buf" "\<forall>k. q = Inr k \<longrightarrow> k < 6 \<longrightarrow> m = length buf"
    by auto
  moreover have "r = (case q of Inl e \<Rightarrow> Throws (system_error e) (c\<lparr>tc_socket := s'\<rparr>)
      | Inr count \<Rightarrow> Returns (if count \<ge> 5 then 0 else length buf) (c\<lparr>tc_socket := s'\<rparr>))"
    using assms(2,3) l by (simp add: send_def send_data_def)
  ultimately show ?thesis by (cases q; cases "buf = []") (auto split: if_splits)
qed

text \<open>C23: whatever the socket does, the peer gets a prefix of the data, in order and without gaps; and if the
  result is the length of the data, it got all of it.\<close>

theorem send_delivers_prefix:
  assumes "socket_laws P out" "isConnected P c" "send P env buf c = Some r"
  shows "(\<exists>m \<le> length buf. out (tc_socket (result_state r)) = out (tc_socket c) @ take m buf) \<and>
    (\<forall>c'. r = Returns (length buf) c' \<longrightarrow> out (tc_socket c') = out (tc_socket c) @ buf) \<and>
    (\<forall>n c'. r = Returns n c' \<longrightarrow> n = 0 \<or> n = length buf)"
  using assms by (rule send_prefix)

theorem send_delivers_prefix_witness:
  "\<exists>c'. send sample_platform (\<lambda>_ c. c) [1, 2, 3] (sample_connection None) = Some (Returns 3 c') \<and>
     ss_out (tc_socket c') = [1, 2, 3]"
proof -
  let ?c = "sample_connection None"
  have conn: "isConnected sample_platform ?c"
    by (simp add: isConnected_def sample_connection_simps) (simp add: sample_platform_def)
  obtain c' where c': "send sample_platform (\<lambda>_ c. c) [1, 2, 3] ?c = Some (Returns (length ([1, 2, 3] :: u8 list)) c')"
    using conn by (simp add: send_def send_data_def sample_connection_simps)
      (simp add: send_loop.simps sample_platform_def size_sub_def)
  with send_delivers_prefix[OF sample_socket_laws conn c'] show ?thesis
    by (simp add: sample_connection_simps)
qed

text \<open>The socket takes the data in pieces of the given lengths, one with each call of \<open>send\<close>.\<close>

fun takes_pieces :: "('s, 't) Platform \<Rightarrow> nat list \<Rightarrow> u8 list \<Rightarrow> 's \<Rightarrow> bool" where
  "takes_pieces P [] bs s \<longleftrightarrow> bs = []"
| "takes_pieces P (k # ks) bs s \<longleftrightarrow> k \<le> length bs \<and>
     (case pf_send P bs s of (Inr n, s') \<Rightarrow> n = k \<and> takes_pieces P ks (drop k bs) s' | _ \<Rightarrow> False)"

lemma send_loop_pieces:
  assumes "takes_pieces P ks (drop p buf) s" "p + sent_size = length buf" "ks \<noteq> []"
    and "sum_list (butlast ks) < sent_size" "count + length ks \<le> 5"
  shows "fst (send_loop P buf count sent_size p s) = Inr (count + length ks)"
  using assms
proof (induction ks arbitrary: count sent_size p s)
  case (Cons k ks)
  then obtain s' where send: "pf_send P (drop p buf) s = (Inr k, s')" and rest: "takes_pieces P ks (drop (p + k) buf) s'"
    and k: "k \<le> sent_size"
    by (auto split: prod.splits sum.splits simp: add.commute)
  have all: "take sent_size (drop p buf) = drop p buf" "count < 5" using Cons.prems(2,5) by simp_all
  show ?case
  proof (cases "ks = []")
    case True
    with rest Cons.prems(2) k have "k = sent_size" by simp
    with True all send show ?thesis by (simp add: send_loop.simps[of P buf count])
  next
    case False
    with Cons.prems(4) have "k \<noteq> sent_size" "sum_list (butlast ks) < sent_size - k" by auto
    with Cons.IH[OF rest, of "sent_size - k" "count + 1"] Cons.prems(2,5) k False all send show ?thesis
      by (simp add: send_loop.simps[of P buf count] size_sub_def)
  qed
qed simp

text \<open>C24: the converse fails on every platform: when the first four attempts leave something and the fifth sends the
  last bytes, the peer has everything and the result is 0, the value that says the data was not sent.\<close>

theorem fifth_attempt_reported_lost:
  assumes "socket_laws P out" "isConnected P c" "takes_pieces P ks buf (tc_socket c)" "length ks = 5"
    and "sum_list (butlast ks) < length buf"
  shows "\<exists>c'. send P env buf c = Some (Returns 0 c') \<and> out (tc_socket c') = out (tc_socket c) @ buf"
proof -
  have "fst (send_loop P buf 0 (length buf) 0 (tc_socket c)) = Inr 5"
    using send_loop_pieces[of P ks 0 buf "tc_socket c" "length buf" 0] assms(3-5) by (cases ks) simp_all
  then obtain s' where s': "send_loop P buf 0 (length buf) 0 (tc_socket c) = (Inr 5, s')" by (metis prod.collapse)
  with send_loop_out[OF assms(1) _ s'] have "out s' = out (tc_socket c) @ buf" by auto
  with s' assms(2) show ?thesis by (simp add: send_def send_data_def)
qed

theorem fifth_attempt_reported_lost_witness:
  "\<exists>c'. send sample_platform (\<lambda>_ c. c) [1, 2, 3, 4, 5] (sample_connection None) = Some (Returns 0 c') \<and>
     ss_out (tc_socket c') = [1, 2, 3, 4, 5]"
proof -
  have "isConnected sample_platform (sample_connection None)"
    by (simp add: isConnected_def sample_connection_simps) (simp add: sample_platform_def)
  moreover have "takes_pieces sample_platform [1, 1, 1, 1, 1] [1, 2, 3, 4, 5] (tc_socket (sample_connection None))"
    by (simp add: sample_connection_simps) (simp add: sample_platform_def)
  ultimately show ?thesis
    using fifth_attempt_reported_lost[OF sample_socket_laws, of "sample_connection None" "[1, 1, 1, 1, 1]" "[1, 2, 3, 4, 5]"]
    by (simp add: sample_connection_simps)
qed

end
