(* ===== verification/Tcp_Server.thy ===== *)
theory Tcp_Server
  imports Tcp_Connection
begin

text \<open>
  \<open>TcpAcceptor\<close> and \<open>TcpServer\<close> (\<open>src/pmu/TcpHelperClasses.h\<close>, \<open>src/pmu/TcpHelperClasses.cpp\<close>): the acceptor
  binds to an end point and waits for one connection at a time; the server owns the acceptors and the accepted
  connections.

  \<open>asio::ip::tcp::acceptor\<close> is a parameter, the record \<open>AcceptorOps\<close> over a type \<open>'a\<close> of acceptors and a
  type \<open>'e\<close> of end points.  \<open>async_accept\<close> registers a connection, the field \<open>ta_pending\<close>, which is handed to
  the handler when a peer connects.  An operation that waits for ever is \<open>None\<close>.
\<close>

record ('s, 'a, 'e) AcceptorOps =
  ao_new_socket :: 's
  ao_open :: "'e \<Rightarrow> asio_error + 'a"
  ao_bind :: "'e \<Rightarrow> 'a \<Rightarrow> asio_error option \<times> 'a"
  ao_listen :: "'a \<Rightarrow> asio_error option \<times> 'a"
  ao_close :: "'a \<Rightarrow> asio_error option \<times> 'a"
  ao_cancel :: "'a \<Rightarrow> 'a"
  ao_reuse :: "bool \<Rightarrow> 'a \<Rightarrow> asio_error option \<times> 'a"

fun and_then :: "('a, 'c) outcome option \<Rightarrow> ('a \<Rightarrow> 'c \<Rightarrow> ('b, 'd) outcome option) \<Rightarrow> (exn \<Rightarrow> 'c \<Rightarrow> 'd) \<Rightarrow> ('b, 'd) outcome option" where
  "and_then None f g = None"
| "and_then (Some (Returns x c)) f g = f x c"
| "and_then (Some (Throws e c)) f g = Some (Throws e (g e c))"

section \<open>The acceptor\<close>

datatype accepting_state_t = acc_opened | acc_connecting | acc_connected | acc_halted | acc_closed

definition accepting_state_code :: "accepting_state_t \<Rightarrow> int" where
  "accepting_state_code s = (case s of acc_opened \<Rightarrow> 0 | acc_connecting \<Rightarrow> 1 | acc_connected \<Rightarrow> 2 | acc_halted \<Rightarrow> 3
     | acc_closed \<Rightarrow> 4)"

record ('s, 't, 'w, 'a, 'e) TcpAcceptor =
  ta_endpoint :: 'e
  ta_acceptor :: 'a
  ta_hasAcceptCall :: bool
  ta_hasErrorCall :: bool
  ta_state :: accepting_state_t
  ta_accepting :: 't
  ta_pending :: "('s, 't, 'w) TcpConnection option"

definition new_acceptor :: "('s, 't) Platform \<Rightarrow> ('s, 'a, 'e) AcceptorOps \<Rightarrow> 'e \<Rightarrow> accepting_state_t \<Rightarrow>
    exn + ('s, 't, 'w, 'a, 'e) TcpAcceptor" where
  "new_acceptor P A ep state = (case ao_open A ep of Inl e \<Rightarrow> Inl (system_error e)
     | Inr a \<Rightarrow> Inr \<lparr>ta_endpoint = ep, ta_acceptor = a, ta_hasAcceptCall = False, ta_hasErrorCall = False,
         ta_state = state, ta_accepting = pf_fresh P, ta_pending = None\<rparr>)"

text \<open>The constructor with an end point, and the one with a port, which starts out as connected.\<close>

definition create_acceptor :: "('s, 't) Platform \<Rightarrow> ('s, 'a, 'e) AcceptorOps \<Rightarrow> 'e \<Rightarrow>
    exn + ('s, 't, 'w, 'a, 'e) TcpAcceptor" where
  "create_acceptor P A ep = new_acceptor P A ep acc_opened"

definition create_acceptor_port :: "('s, 't) Platform \<Rightarrow> ('s, 'a, 'e) AcceptorOps \<Rightarrow> (u16 \<Rightarrow> 'e) \<Rightarrow> u16 \<Rightarrow>
    exn + ('s, 't, 'w, 'a, 'e) TcpAcceptor" where
  "create_acceptor_port P A any port = new_acceptor P A (any port) acc_connected"

definition isAccepting :: "('s, 't) Platform \<Rightarrow> ('s, 't, 'w, 'a, 'e) TcpAcceptor \<Rightarrow> bool" where
  "isAccepting P acc = pf_isActive P (ta_accepting acc)"

definition acc_isConnected :: "('s, 't, 'w, 'a, 'e) TcpAcceptor \<Rightarrow> bool" where
  "acc_isConnected acc = (ta_state acc = acc_connected)"

definition acc_cancel :: "('s, 'a, 'e) AcceptorOps \<Rightarrow> ('s, 't, 'w, 'a, 'e) TcpAcceptor \<Rightarrow> ('s, 't, 'w, 'a, 'e) TcpAcceptor" where
  "acc_cancel A acc = acc\<lparr>ta_acceptor := ao_cancel A (ta_acceptor acc)\<rparr>"

definition acc_connect :: "('s, 'a, 'e) AcceptorOps \<Rightarrow> ('s, 't, 'w, 'a, 'e) TcpAcceptor \<Rightarrow>
    bool \<times> ('s, 't, 'w, 'a, 'e) TcpAcceptor" where
  "acc_connect A acc =
     (if ta_state acc = acc_opened then
        let acc = acc\<lparr>ta_state := acc_connecting\<rparr>;
            (ec, a) = ao_bind A (ta_endpoint acc) (ta_acceptor acc);
            acc = acc\<lparr>ta_acceptor := a\<rparr>
        in if ec \<noteq> None then (False, acc\<lparr>ta_state := acc_opened\<rparr>)
           else (True, acc\<lparr>ta_state := acc_connected\<rparr>)
      else (ta_state acc = acc_connected, acc))"

text \<open>The loop of the \<open>connect\<close> with a time limit: a new attempt every 200 ms until \<open>tcount\<close> exceeds it.\<close>

function bind_loop :: "('s, 'a, 'e) AcceptorOps \<Rightarrow> int \<Rightarrow> int \<Rightarrow> ('s, 't, 'w, 'a, 'e) TcpAcceptor \<Rightarrow>
    bool \<times> ('s, 't, 'w, 'a, 'e) TcpAcceptor" where
  "bind_loop A timeOut tcount acc =
     (let (ec, a) = ao_bind A (ta_endpoint acc) (ta_acceptor acc);
          acc = acc\<lparr>ta_acceptor := a\<rparr>
      in if ec \<noteq> None then
           (if tcount > timeOut then (False, acc\<lparr>ta_state := acc_opened\<rparr>)
            else bind_loop A timeOut (tcount + 200) acc)
         else (True, acc\<lparr>ta_state := acc_connected\<rparr>))"
  by pat_completeness auto
termination
  by (relation "measure (\<lambda>(_, timeOut, tcount, _). nat (timeOut + 200 - tcount))") auto

declare bind_loop.simps [simp del]

definition acc_connect_for :: "('s, 'a, 'e) AcceptorOps \<Rightarrow> int \<Rightarrow> ('s, 't, 'w, 'a, 'e) TcpAcceptor \<Rightarrow>
    bool \<times> ('s, 't, 'w, 'a, 'e) TcpAcceptor" where
  "acc_connect_for A timeOut acc =
     (let acc = (if ta_state acc = acc_halted then acc\<lparr>ta_state := acc_opened\<rparr> else acc) in
      if ta_state acc = acc_opened then bind_loop A timeOut 0 (acc\<lparr>ta_state := acc_connecting\<rparr>)
      else (ta_state acc = acc_connected, acc))"

definition trigger_accepting :: "('s, 't) Platform \<Rightarrow> ('s, 't, 'w, 'a, 'e) TcpAcceptor \<Rightarrow> ('s, 't, 'w, 'a, 'e) TcpAcceptor" where
  "trigger_accepting P acc = (if pf_isActive P (ta_accepting acc)
     then acc\<lparr>ta_accepting := pf_trigger P (ta_accepting acc)\<rparr> else acc)"

text \<open>\<open>W\<close> is how other threads act on a connection while it is being closed, and the fuel of the wait.\<close>

type_synonym ('s, 't, 'w) waits = "(nat \<Rightarrow> ('s, 't, 'w) TcpConnection \<Rightarrow> ('s, 't, 'w) TcpConnection) \<times> nat"

definition closes :: "('s, 't) Platform \<Rightarrow> ('s, 't, 'w) waits \<Rightarrow> ('s, 't, 'w) TcpConnection \<Rightarrow> bool" where
  "closes P W conn = (close_connection P (fst W) (snd W) conn \<noteq> None)"

definition acc_start :: "('s, 't) Platform \<Rightarrow> ('s, 'a, 'e) AcceptorOps \<Rightarrow> ('s, 't, 'w) waits \<Rightarrow>
    ('s, 't, 'w) TcpConnection option \<Rightarrow> ('s, 't, 'w, 'a, 'e) TcpAcceptor \<Rightarrow>
    (bool, ('s, 't, 'w, 'a, 'e) TcpAcceptor) outcome option" where
  "acc_start P A W conn acc = (case conn of
     None \<Rightarrow> Some (Returns False (trigger_accepting P acc))
   | Some conn \<Rightarrow>
       if ta_state acc \<noteq> acc_connected then
         (if closes P W conn then Some (Returns False (trigger_accepting P acc)) else None)
       else
         let (activated, t) = pf_activate P (ta_accepting acc); acc = acc\<lparr>ta_accepting := t\<rparr> in
         if activated then
           (case ao_listen A (ta_acceptor acc) of
              (Some e, a) \<Rightarrow> Some (Throws (system_error e) (acc\<lparr>ta_acceptor := a\<rparr>))
            | (None, a) \<Rightarrow> Some (Returns True (acc\<lparr>ta_acceptor := a, ta_pending := Some conn\<rparr>)))
         else if closes P W conn then Some (Returns False acc) else None)"

text \<open>\<open>accepting.wait()\<close> waits until the variable is triggered; \<open>env\<close> is what happens meanwhile.\<close>

definition acc_close :: "('s, 't) Platform \<Rightarrow> ('s, 'a, 'e) AcceptorOps \<Rightarrow>
    (('s, 't, 'w, 'a, 'e) TcpAcceptor \<Rightarrow> ('s, 't, 'w, 'a, 'e) TcpAcceptor) \<Rightarrow> ('s, 't, 'w, 'a, 'e) TcpAcceptor \<Rightarrow>
    (unit, ('s, 't, 'w, 'a, 'e) TcpAcceptor) outcome option" where
  "acc_close P A env acc =
     (let acc = acc\<lparr>ta_state := acc_halted\<rparr> in
      case ao_close A (ta_acceptor acc) of
        (Some e, a) \<Rightarrow> Some (Throws (system_error e) (acc\<lparr>ta_acceptor := a\<rparr>))
      | (None, a) \<Rightarrow>
          let acc = acc\<lparr>ta_acceptor := a\<rparr>;
              acc = (if pf_wait_for P (ta_accepting acc) then acc else env acc)
          in if pf_wait_for P (ta_accepting acc) then Some (Returns () acc) else None)"

definition reset_accepting :: "('s, 't) Platform \<Rightarrow> ('s, 't, 'w, 'a, 'e) TcpAcceptor \<Rightarrow> ('s, 't, 'w, 'a, 'e) TcpAcceptor" where
  "reset_accepting P acc = acc\<lparr>ta_accepting := pf_reset P (ta_accepting acc)\<rparr>"

definition drop_connection :: "('s, 't) Platform \<Rightarrow> ('s, 't, 'w) waits \<Rightarrow> ('s, 't, 'w) TcpConnection \<Rightarrow>
    'x \<times> ('s, 't, 'w, 'a, 'e) TcpAcceptor \<Rightarrow> (unit, 'x \<times> ('s, 't, 'w, 'a, 'e) TcpAcceptor) outcome option" where
  "drop_connection P W conn = (\<lambda>(x, acc).
     let conn = conn\<lparr>tc_socket := snd (pf_linger P (tc_socket conn))\<rparr> in
     if closes P W conn then Some (Returns () (x, reset_accepting P acc)) else None)"

text \<open>\<open>acceptCall\<close> and \<open>errorCall\<close> act on the state \<open>'x\<close> of their owner and on the acceptor; the acceptor knows
  whether they are set.  What \<open>errorCall\<close> returns is not looked at.\<close>

definition acc_setAcceptCall :: "bool \<Rightarrow> ('s, 't, 'w, 'a, 'e) TcpAcceptor \<Rightarrow> ('s, 't, 'w, 'a, 'e) TcpAcceptor" where
  "acc_setAcceptCall accFunc acc = acc\<lparr>ta_hasAcceptCall := accFunc\<rparr>"

definition acc_setErrorCall :: "bool \<Rightarrow> ('s, 't, 'w, 'a, 'e) TcpAcceptor \<Rightarrow> ('s, 't, 'w, 'a, 'e) TcpAcceptor" where
  "acc_setErrorCall errorFunc acc = acc\<lparr>ta_hasErrorCall := errorFunc\<rparr>"

text \<open>The destructor swallows what \<open>close\<close> throws.\<close>

definition destroy_acceptor :: "('s, 't) Platform \<Rightarrow> ('s, 'a, 'e) AcceptorOps \<Rightarrow>
    (('s, 't, 'w, 'a, 'e) TcpAcceptor \<Rightarrow> ('s, 't, 'w, 'a, 'e) TcpAcceptor) \<Rightarrow> ('s, 't, 'w, 'a, 'e) TcpAcceptor \<Rightarrow>
    ('s, 't, 'w, 'a, 'e) TcpAcceptor option" where
  "destroy_acceptor P A env acc = map_option result_state (acc_close P A env acc)"

definition acc_handle_accept :: "('s, 't) Platform \<Rightarrow> ('s, 't, 'w) waits \<Rightarrow>
    ('x \<times> ('s, 't, 'w, 'a, 'e) TcpAcceptor \<Rightarrow> ('s, 't, 'w) TcpConnection \<Rightarrow>
      (unit, 'x \<times> ('s, 't, 'w, 'a, 'e) TcpAcceptor) outcome option) \<Rightarrow>
    (asio_error \<Rightarrow> 'x \<times> ('s, 't, 'w, 'a, 'e) TcpAcceptor \<Rightarrow>
      (unit, 'x \<times> ('s, 't, 'w, 'a, 'e) TcpAcceptor) outcome option) \<Rightarrow>
    ('s, 't, 'w) TcpConnection \<Rightarrow> asio_error option \<Rightarrow> 'x \<times> ('s, 't, 'w, 'a, 'e) TcpAcceptor \<Rightarrow>
    (unit, 'x \<times> ('s, 't, 'w, 'a, 'e) TcpAcceptor) outcome option" where
  "acc_handle_accept P W acceptCall errorCall new_connection error = (\<lambda>(x, acc).
     if ta_state acc \<noteq> acc_connected then drop_connection P W new_connection (x, acc)
     else case error of
       None \<Rightarrow>
         if ta_hasAcceptCall acc then
           and_then (acceptCall (x, reset_accepting P acc) new_connection)
             (\<lambda>_ (x, acc). Some (Returns () (x,
                if \<not> pf_isActive P (ta_accepting acc)
                then acc\<lparr>ta_accepting := pf_trigger P (ta_accepting acc)\<rparr> else acc))) (\<lambda>_ s. s)
         else drop_connection P W new_connection (x, acc)
     | Some e \<Rightarrow>
         if e \<noteq> operation_aborted then
           and_then (if ta_hasErrorCall acc then errorCall e (x, acc) else Some (Returns () (x, acc)))
             (\<lambda>_. drop_connection P W new_connection) (\<lambda>_ s. s)
         else if closes P W new_connection then Some (Returns () (x, reset_accepting P acc)) else None)"

section \<open>The server\<close>

record ('s, 't, 'w, 'a, 'e) TcpServer =
  sv_acceptors :: "('s, 't, 'w, 'a, 'e) TcpAcceptor list"
  sv_endpoints :: "'e list"
  sv_bufferSize :: nat
  sv_dataCall :: "('w \<Rightarrow> u32 \<Rightarrow> u8 list \<Rightarrow> nat \<times> 'w) option"
  sv_errorCall :: "('w \<Rightarrow> u32 \<Rightarrow> asio_error \<Rightarrow> bool \<times> 'w) option"
  sv_halted :: bool
  sv_reuse_address :: bool
  sv_connections :: "('s, 't, 'w) TcpConnection list"
  sv_idcounter :: u32 \<comment> \<open>the static counter of \<open>TcpConnection\<close>\<close>

fun make_acceptors :: "('s, 't) Platform \<Rightarrow> ('s, 'a, 'e) AcceptorOps \<Rightarrow> bool \<Rightarrow> 'e list \<Rightarrow>
    ('s, 't, 'w, 'a, 'e) TcpAcceptor list \<Rightarrow> (unit, ('s, 't, 'w, 'a, 'e) TcpAcceptor list) outcome" where
  "make_acceptors P A reuse [] accs = Returns () accs"
| "make_acceptors P A reuse (ep # eps) accs = (case create_acceptor P A ep of
     Inl e \<Rightarrow> Throws e accs
   | Inr acc \<Rightarrow> (case ao_reuse A reuse (ta_acceptor acc) of
       (Some e, _) \<Rightarrow> Throws (system_error e) accs
     | (None, a) \<Rightarrow> make_acceptors P A reuse eps (accs @ [acc\<lparr>ta_acceptor := a, ta_hasAcceptCall := True\<rparr>])))"

fun connect_each :: "('s, 'a, 'e) AcceptorOps \<Rightarrow> ('s, 't, 'w, 'a, 'e) TcpAcceptor list \<Rightarrow>
    nat \<times> ('s, 't, 'w, 'a, 'e) TcpAcceptor list" where
  "connect_each A [] = (0, [])"
| "connect_each A (acc # accs) =
     (let (ok, acc) = acc_connect A acc; (n, accs) = connect_each A accs
      in ((if ok then 1 else 0) + n, acc # accs))"

definition initialConnect :: "('s, 't) Platform \<Rightarrow> ('s, 'a, 'e) AcceptorOps \<Rightarrow> ('s, 't, 'w, 'a, 'e) TcpServer \<Rightarrow>
    (unit, ('s, 't, 'w, 'a, 'e) TcpServer) outcome" where
  "initialConnect P A sv =
     (if sv_halted sv then Returns () sv
      else case make_acceptors P A (sv_reuse_address sv) (sv_endpoints sv) (sv_acceptors sv) of
        Throws e accs \<Rightarrow> Throws e (sv\<lparr>sv_acceptors := accs\<rparr>)
      | Returns _ accs \<Rightarrow>
          let (connectedAcceptors, accs) = connect_each A accs;
              sv = sv\<lparr>sv_acceptors := accs\<rparr>
          in Returns () (if connectedAcceptors = 0 then sv\<lparr>sv_halted := True\<rparr> else sv))"

text \<open>Construction.  \<open>resolve\<close> is the resolver of asio; \<open>any\<close> and \<open>v4\<close> are the two end points asio builds from a
  port alone.\<close>

definition new_server :: "('s, 't) Platform \<Rightarrow> ('s, 'a, 'e) AcceptorOps \<Rightarrow> 'e list \<Rightarrow> bool \<Rightarrow> nat \<Rightarrow> u32 \<Rightarrow>
    (unit, ('s, 't, 'w, 'a, 'e) TcpServer) outcome" where
  "new_server P A eps port_reuse nominalBufferSize idcounter =
     (let sv = \<lparr>sv_acceptors = [], sv_endpoints = eps, sv_bufferSize = nominalBufferSize, sv_dataCall = None,
          sv_errorCall = None, sv_halted = False, sv_reuse_address = port_reuse, sv_connections = [],
          sv_idcounter = idcounter\<rparr>
      in if eps = [] then Returns () (sv\<lparr>sv_halted := True\<rparr>) else initialConnect P A sv)"

definition create_server_address :: "('s, 't) Platform \<Rightarrow> ('s, 'a, 'e) AcceptorOps \<Rightarrow> (string \<Rightarrow> u16 \<Rightarrow> 'e list) \<Rightarrow>
    (u16 \<Rightarrow> 'e) \<Rightarrow> (u16 \<Rightarrow> 'e) \<Rightarrow> string \<Rightarrow> u16 \<Rightarrow> bool \<Rightarrow> nat \<Rightarrow> u32 \<Rightarrow>
    (unit, ('s, 't, 'w, 'a, 'e) TcpServer) outcome" where
  "create_server_address P A resolve any v4 address portNum =
     new_server P A (if address = ''*'' \<or> address = ''tcp://*'' then [any portNum]
       else if address = ''localhost'' then [v4 portNum]
       else resolve address portNum)"

definition create_server_service :: "('s, 't) Platform \<Rightarrow> ('s, 'a, 'e) AcceptorOps \<Rightarrow> (string \<Rightarrow> string \<Rightarrow> 'e list) \<Rightarrow>
    string \<Rightarrow> string \<Rightarrow> bool \<Rightarrow> nat \<Rightarrow> u32 \<Rightarrow> (unit, ('s, 't, 'w, 'a, 'e) TcpServer) outcome" where
  "create_server_service P A resolve address port = new_server P A (resolve address port)"

definition create_server_port :: "('s, 't) Platform \<Rightarrow> ('s, 'a, 'e) AcceptorOps \<Rightarrow> (u16 \<Rightarrow> 'e) \<Rightarrow> u16 \<Rightarrow> nat \<Rightarrow> u32 \<Rightarrow>
    (unit, ('s, 't, 'w, 'a, 'e) TcpServer) outcome" where
  "create_server_port P A v4 portNum = new_server P A [v4 portNum] False"

fun reconnect_each :: "('s, 'a, 'e) AcceptorOps \<Rightarrow> int \<Rightarrow> ('s, 't, 'w, 'a, 'e) TcpAcceptor list \<Rightarrow>
    bool \<times> ('s, 't, 'w, 'a, 'e) TcpAcceptor list" where
  "reconnect_each A timeOut [] = (False, [])"
| "reconnect_each A timeOut (acc # accs) =
     (let (failed, acc) = (if acc_isConnected acc then (False, acc)
                           else let (ok, acc) = acc_connect_for A timeOut acc in (\<not> ok, acc));
          (rest, accs) = reconnect_each A timeOut accs
      in (failed \<or> rest, acc # accs))"

definition reConnect :: "('s, 'a, 'e) AcceptorOps \<Rightarrow> int \<Rightarrow> ('s, 't, 'w, 'a, 'e) TcpServer \<Rightarrow>
    bool \<times> ('s, 't, 'w, 'a, 'e) TcpServer" where
  "reConnect A timeOut sv =
     (let (failed, accs) = reconnect_each A timeOut (sv_acceptors sv)
      in (\<not> failed, sv\<lparr>sv_acceptors := accs, sv_halted := failed\<rparr>))"

definition new_socket_connection :: "('s, 't) Platform \<Rightarrow> ('s, 'a, 'e) AcceptorOps \<Rightarrow> ('s, 't, 'w, 'a, 'e) TcpServer \<Rightarrow>
    ('s, 't, 'w) TcpConnection \<times> ('s, 't, 'w, 'a, 'e) TcpServer" where
  "new_socket_connection P A sv =
     (let (conn, n) = create_accepting P (ao_new_socket A) (sv_bufferSize sv) (sv_idcounter sv)
      in (conn, sv\<lparr>sv_idcounter := n\<rparr>))"

fun start_each :: "('s, 't) Platform \<Rightarrow> ('s, 'a, 'e) AcceptorOps \<Rightarrow> ('s, 't, 'w) waits \<Rightarrow> nat \<Rightarrow> nat \<Rightarrow> bool \<Rightarrow>
    ('s, 't, 'w, 'a, 'e) TcpServer \<Rightarrow> (bool, ('s, 't, 'w, 'a, 'e) TcpServer) outcome option" where
  "start_each P A W i 0 success sv = Some (Returns success sv)"
| "start_each P A W i (Suc n) success sv =
     (let (conn, sv) = new_socket_connection P A sv in
      and_then (acc_start P A W (Some conn) (sv_acceptors sv ! i))
        (\<lambda>ok acc. start_each P A W (i + 1) n (success \<and> ok) (sv\<lparr>sv_acceptors := (sv_acceptors sv)[i := acc]\<rparr>))
        (\<lambda>_ acc. sv\<lparr>sv_acceptors := (sv_acceptors sv)[i := acc]\<rparr>))"

definition sv_listen :: "('s, 't) Platform \<Rightarrow> ('s, 'a, 'e) AcceptorOps \<Rightarrow> ('s, 't, 'w) waits \<Rightarrow>
    ('s, 't, 'w, 'a, 'e) TcpServer \<Rightarrow> (bool, ('s, 't, 'w, 'a, 'e) TcpServer) outcome option" where
  "sv_listen P A W sv =
     (let sv = sv\<lparr>sv_connections := map (\<lambda>conn. if \<not> isReceiving P conn then startReceive P (\<lambda>_. False) conn
                  else conn) (sv_connections sv)\<rparr>
      in start_each P A W 0 (length (sv_acceptors sv)) True sv)"

definition sv_start :: "('s, 't) Platform \<Rightarrow> ('s, 'a, 'e) AcceptorOps \<Rightarrow> ('s, 't, 'w) waits \<Rightarrow>
    ('s, 't, 'w, 'a, 'e) TcpServer \<Rightarrow> (bool, ('s, 't, 'w, 'a, 'e) TcpServer) outcome option" where
  "sv_start P A W sv =
     (if sv_halted sv then
        let (ok, sv) = reConnect A 1000 sv in
        if \<not> ok then
          (case initialConnect P A (sv\<lparr>sv_acceptors := [], sv_halted := False\<rparr>) of
             Throws e sv \<Rightarrow> Some (Throws e sv)
           | Returns _ sv \<Rightarrow>
               if sv_halted sv then
                 (let (ok, sv) = reConnect A 1000 sv in
                  if \<not> ok then Some (Returns False sv) else sv_listen P A W sv)
               else sv_listen P A W sv)
        else sv_listen P A W sv
      else sv_listen P A W sv)"

text \<open>\<open>TcpServer::handle_accept\<close>, on the server and the acceptor that calls it; \<open>late\<close> says whether another thread
  halts the server between the two tests of \<open>halted\<close>.\<close>

definition sv_handle_accept :: "('s, 't) Platform \<Rightarrow> ('s, 'a, 'e) AcceptorOps \<Rightarrow> ('s, 't, 'w) waits \<Rightarrow> bool \<Rightarrow>
    ('s, 't, 'w, 'a, 'e) TcpServer \<times> ('s, 't, 'w, 'a, 'e) TcpAcceptor \<Rightarrow> ('s, 't, 'w) TcpConnection \<Rightarrow>
    (unit, ('s, 't, 'w, 'a, 'e) TcpServer \<times> ('s, 't, 'w, 'a, 'e) TcpAcceptor) outcome option" where
  "sv_handle_accept P A W late = (\<lambda>(sv, acc) conn.
     case pf_linger P (tc_socket conn) of
       (Some e, _) \<Rightarrow> Some (Throws (system_error e) (sv, acc))
     | (None, s) \<Rightarrow>
     case pf_no_delay P s of
       (Some e, _) \<Rightarrow> Some (Throws (system_error e) (sv, acc))
     | (None, s) \<Rightarrow>
         let conn = conn\<lparr>tc_socket := s\<rparr> in
         if sv_halted sv then (if closes P W conn then Some (Returns () (sv, acc)) else None)
         else
           case setDataCall (sv_dataCall sv) conn of Throws e _ \<Rightarrow> Some (Throws e (sv, acc))
           | Returns _ conn \<Rightarrow>
           case setErrorCall (sv_errorCall sv) conn of Throws e _ \<Rightarrow> Some (Throws e (sv, acc))
           | Returns _ conn \<Rightarrow>
               let conn = startReceive P (\<lambda>_. False) conn;
                   sv = (if late then sv\<lparr>sv_halted := True\<rparr> else sv)
               in if sv_halted sv then (if closes P W conn then Some (Returns () (sv, acc)) else None)
               else
               let sv = sv\<lparr>sv_connections := sv_connections sv @ [conn]\<rparr>;
                   (next, sv) = new_socket_connection P A sv
               in and_then (acc_start P A W (Some next) acc) (\<lambda>_ acc. Some (Returns () (sv, acc))) (\<lambda>_ acc. (sv, acc)))"

definition sv_setPortReuse :: "bool \<Rightarrow> ('s, 't, 'w, 'a, 'e) TcpServer \<Rightarrow> ('s, 't, 'w, 'a, 'e) TcpServer" where
  "sv_setPortReuse reuse sv = sv\<lparr>sv_reuse_address := reuse\<rparr>"

definition isReady :: "('s, 't, 'w, 'a, 'e) TcpServer \<Rightarrow> bool" where
  "isReady sv = (\<not> sv_halted sv)"

definition sv_setDataCall :: "('w \<Rightarrow> u32 \<Rightarrow> u8 list \<Rightarrow> nat \<times> 'w) option \<Rightarrow> ('s, 't, 'w, 'a, 'e) TcpServer \<Rightarrow>
    ('s, 't, 'w, 'a, 'e) TcpServer" where
  "sv_setDataCall dataFunc sv = sv\<lparr>sv_dataCall := dataFunc\<rparr>"

definition sv_setErrorCall :: "('w \<Rightarrow> u32 \<Rightarrow> asio_error \<Rightarrow> bool \<times> 'w) option \<Rightarrow> ('s, 't, 'w, 'a, 'e) TcpServer \<Rightarrow>
    ('s, 't, 'w, 'a, 'e) TcpServer" where
  "sv_setErrorCall errorFunc sv = sv\<lparr>sv_errorCall := errorFunc\<rparr>"

definition findSocket :: "u32 \<Rightarrow> ('s, 't, 'w, 'a, 'e) TcpServer \<Rightarrow> ('s, 't, 'w) TcpConnection option" where
  "findSocket connectorID sv = find (\<lambda>conn. getIdentifier conn = connectorID) (sv_connections sv)"

fun close_each :: "('s, 't) Platform \<Rightarrow> ('s, 'a, 'e) AcceptorOps \<Rightarrow>
    (('s, 't, 'w, 'a, 'e) TcpAcceptor \<Rightarrow> ('s, 't, 'w, 'a, 'e) TcpAcceptor) \<Rightarrow> ('s, 't, 'w, 'a, 'e) TcpAcceptor list \<Rightarrow>
    (unit, ('s, 't, 'w, 'a, 'e) TcpAcceptor list) outcome option" where
  "close_each P A env [] = Some (Returns () [])"
| "close_each P A env (acc # accs) =
     and_then (acc_close P A env acc)
       (\<lambda>_ acc. and_then (close_each P A env accs) (\<lambda>_ accs. Some (Returns () (acc # accs))) (\<lambda>_ accs. acc # accs))
       (\<lambda>_ acc. acc # accs)"

definition sv_close :: "('s, 't) Platform \<Rightarrow> ('s, 'a, 'e) AcceptorOps \<Rightarrow> ('s, 't, 'w) waits \<Rightarrow>
    (('s, 't, 'w, 'a, 'e) TcpAcceptor \<Rightarrow> ('s, 't, 'w, 'a, 'e) TcpAcceptor) \<Rightarrow> ('s, 't, 'w, 'a, 'e) TcpServer \<Rightarrow>
    (unit, ('s, 't, 'w, 'a, 'e) TcpServer) outcome option" where
  "sv_close P A W env sv =
     (let sv = sv\<lparr>sv_halted := True\<rparr>;
          accs = (if length (sv_acceptors sv) = 1 then sv_acceptors sv else map (acc_cancel A) (sv_acceptors sv))
      in and_then (close_each P A env accs)
           (\<lambda>_ accs.
              let sv = sv\<lparr>sv_acceptors := if length (sv_acceptors sv) = 1 then accs else []\<rparr>;
                  conns = map (closeNoWait P) (sv_connections sv)
              in if list_all (\<lambda>conn. waitOnClose P (fst W) (snd W) conn \<noteq> None) conns
                 then Some (Returns () (sv\<lparr>sv_connections := []\<rparr>)) else None)
           (\<lambda>_ accs. sv\<lparr>sv_acceptors := accs\<rparr>))"

definition destroy_server :: "('s, 't) Platform \<Rightarrow> ('s, 'a, 'e) AcceptorOps \<Rightarrow> ('s, 't, 'w) waits \<Rightarrow>
    (('s, 't, 'w, 'a, 'e) TcpAcceptor \<Rightarrow> ('s, 't, 'w, 'a, 'e) TcpAcceptor) \<Rightarrow> ('s, 't, 'w, 'a, 'e) TcpServer \<Rightarrow>
    ('s, 't, 'w, 'a, 'e) TcpServer option" where
  "destroy_server P A W env sv = map_option result_state (sv_close P A W env sv)"

section \<open>Properties\<close>

lemma bind_loop_failing:
  assumes "\<And>a. fst (ao_bind A (ta_endpoint acc) a) \<noteq> None"
  shows "bind_loop A timeOut tcount acc = (False, acc\<lparr>ta_state := acc_opened,
    ta_acceptor := ((\<lambda>a. snd (ao_bind A (ta_endpoint acc) a)) ^^ (nat ((timeOut - tcount + 200) div 200) + 1)) (ta_acceptor acc)\<rparr>)"
  using assms
proof (induction A timeOut tcount acc rule: bind_loop.induct)
  case (1 A timeOut tcount acc)
  obtain e a where b: "ao_bind A (ta_endpoint acc) (ta_acceptor acc) = (Some e, a)"
    using 1(2)[of "ta_acceptor acc"] by (cases "ao_bind A (ta_endpoint acc) (ta_acceptor acc)") auto
  show ?case
  proof (cases "tcount > timeOut")
    case True
    then have "nat ((timeOut - tcount + 200) div 200) = 0" by simp
    then show ?thesis using True b by (subst bind_loop.simps) simp
  next
    case False
    let ?acc = "acc\<lparr>ta_acceptor := a\<rparr>"
    have "bind_loop A timeOut (tcount + 200) ?acc = (False, ?acc\<lparr>ta_state := acc_opened,
        ta_acceptor := ((\<lambda>a. snd (ao_bind A (ta_endpoint acc) a)) ^^ (nat ((timeOut - tcount) div 200) + 1)) a\<rparr>)"
      using 1(1)[OF refl b[symmetric] refl] False 1(2) by simp
    moreover have "nat ((timeOut - tcount + 200) div 200) = nat ((timeOut - tcount) div 200) + 1"
      using False by (simp add: nat_add_distrib div_add1_eq)
    moreover have "((\<lambda>a. snd (ao_bind A (ta_endpoint acc) a)) ^^ n) a =
        snd (ao_bind A (ta_endpoint acc) (((\<lambda>a. snd (ao_bind A (ta_endpoint acc) a)) ^^ n) (ta_acceptor acc)))" for n
      using b funpow_swap1[of "\<lambda>a. snd (ao_bind A (ta_endpoint acc) a)" n "ta_acceptor acc"] by simp
    ultimately show ?thesis using False b
      by (subst bind_loop.simps) simp
  qed
qed

text \<open>C22: an acceptor whose end point is never free gives up: with a limit of \<open>t\<close> milliseconds it has tried to
  bind \<open>t div 200 + 2\<close> times, and it can be connected later.\<close>

theorem connect_gives_up:
  assumes "\<And>a. fst (ao_bind A (ta_endpoint acc) a) \<noteq> None" "0 \<le> timeOut"
    and "ta_state acc = acc_opened \<or> ta_state acc = acc_halted"
  shows "acc_connect_for A timeOut acc = (False, acc\<lparr>ta_state := acc_opened,
    ta_acceptor := ((\<lambda>a. snd (ao_bind A (ta_endpoint acc) a)) ^^ (nat (timeOut div 200) + 2)) (ta_acceptor acc)\<rparr>)"
proof -
  have "nat ((timeOut + 200) div 200) = nat (timeOut div 200) + 1" using assms(2) by (simp add: nat_add_distrib)
  with assms bind_loop_failing[of A "acc\<lparr>ta_state := acc_connecting\<rparr>" timeOut 0] show ?thesis
    by (auto simp: acc_connect_for_def Let_def)
qed

text \<open>A sample: end points are numbers, an acceptor counts the attempts to bind it, and end point 0 is free.\<close>

definition sample_acceptors :: "(sample_socket, nat, nat) AcceptorOps" where
  "sample_acceptors = \<lparr>ao_new_socket = \<lparr>ss_open = False, ss_out = [], ss_chunk = 1, ss_in = []\<rparr>, ao_open = (\<lambda>ep. Inr 0),
     ao_bind = (\<lambda>ep a. (if ep = 0 then None else Some (other_error 98), a + 1)), ao_listen = (\<lambda>a. (None, a)),
     ao_close = (\<lambda>a. (None, a)), ao_cancel = (\<lambda>a. a), ao_reuse = (\<lambda>_ a. (None, a))\<rparr>"

definition sample_acceptor :: "nat \<Rightarrow> accepting_state_t \<Rightarrow> (sample_socket, bool \<times> bool, nat, nat, nat) TcpAcceptor" where
  "sample_acceptor ep st = \<lparr>ta_endpoint = ep, ta_acceptor = 0, ta_hasAcceptCall = True, ta_hasErrorCall = False, ta_state = st,
     ta_accepting = (False, False), ta_pending = None\<rparr>"

theorem connect_gives_up_witness:
  "acc_connect_for sample_acceptors 1000 (sample_acceptor 1 acc_halted) =
     (False, (sample_acceptor 1 acc_halted)\<lparr>ta_state := acc_opened, ta_acceptor := 7\<rparr>)"
  using connect_gives_up[of sample_acceptors "sample_acceptor 1 acc_halted" 1000]
  by (simp add: sample_acceptors_def sample_acceptor_def)

text \<open>C21: a peer that connects is served and the acceptor waits for the next one: the new connection carries
  the callbacks of the server, has a read outstanding for its whole buffer and is in the list of connections, and the
  acceptor has a fresh connection registered.\<close>

theorem accepted_peer_is_served:
  assumes "trigger_laws P" "ta_state acc = acc_connected" "ta_hasAcceptCall acc" "\<not> sv_halted sv"
    and "pf_linger P s = (None, s1)" "pf_no_delay P s1 = (None, s2)" "ao_listen A (ta_acceptor acc) = (None, a)"
    and "conn = (fst (create_accepting P s sz n))"
  shows "\<exists>sv' acc' conn'. acc_handle_accept P W (sv_handle_accept P A W False) errorCall conn None (sv, acc) =
      Some (Returns () (sv', acc')) \<and>
    sv_connections sv' = sv_connections sv @ [conn'] \<and>
    tc_idcode conn' = n \<and> tc_dataCall conn' = sv_dataCall sv \<and> tc_errorCall conn' = sv_errorCall sv \<and>
    tc_reading conn' = Some (0, sz) \<and> tc_state conn' = operating \<and>
    isAccepting P acc' \<and> ta_pending acc' = Some (fst (create_accepting P (ao_new_socket A) (sv_bufferSize sv) (sv_idcounter sv)))"
proof -
  let ?t = "pf_reset P (ta_accepting acc)"
  obtain r where act: "pf_activate P ?t = (True, r)" "pf_isActive P r"
    using trigger_activate[OF assms(1), of ?t] trigger_reset[OF assms(1)] trigger_activated[OF assms(1), of ?t]
    by (cases "pf_activate P ?t") auto
  show ?thesis
    using assms(2-7) act trigger_fresh[OF assms(1)] trigger_activated[OF assms(1)]
    by (simp add: acc_handle_accept_def sv_handle_accept_def assms(8) create_accepting_def make_connection_def
        setDataCall_def setErrorCall_def startReceive_def interfere_def activate_halt_def activate_connected_def
        new_socket_connection_def acc_start_def reset_accepting_def isAccepting_def size_sub_def Let_def)
qed

definition sample_server :: "(sample_socket, bool \<times> bool, nat, nat, nat) TcpServer" where
  "sample_server = \<lparr>sv_acceptors = [sample_acceptor 0 acc_connected], sv_endpoints = [0], sv_bufferSize = 8,
     sv_dataCall = None, sv_errorCall = None, sv_halted = False, sv_reuse_address = False, sv_connections = [],
     sv_idcounter = 11\<rparr>"

theorem accepted_peer_is_served_witness:
  "\<exists>sv' acc' conn'. acc_handle_accept sample_platform (\<lambda>_ c. c, 1)
      (sv_handle_accept sample_platform sample_acceptors (\<lambda>_ c. c, 1) False) (\<lambda>_ _. None)
      (fst (create_accepting sample_platform \<lparr>ss_open = True, ss_out = [], ss_chunk = 1, ss_in = []\<rparr> 8 10)) None
      (sample_server, sample_acceptor 0 acc_connected) = Some (Returns () (sv', acc')) \<and>
    sv_connections sv' = [conn'] \<and> tc_idcode conn' = 10 \<and> tc_reading conn' = Some (0, 8) \<and>
    isAccepting sample_platform acc'"
proof -
  let ?s = "\<lparr>ss_open = True, ss_out = [], ss_chunk = 1, ss_in = []\<rparr> :: sample_socket"
  have "ta_state (sample_acceptor 0 acc_connected) = acc_connected" "ta_hasAcceptCall (sample_acceptor 0 acc_connected)"
    "\<not> sv_halted sample_server" "pf_linger sample_platform ?s = (None, ?s)" "pf_no_delay sample_platform ?s = (None, ?s)"
    "ao_listen sample_acceptors (ta_acceptor (sample_acceptor 0 acc_connected)) = (None, 0)"
    by (simp_all add: sample_acceptor_def sample_server_def sample_platform_def sample_acceptors_def)
  from accepted_peer_is_served[OF sample_trigger_laws this refl, of "(\<lambda>_ c. c, 1)" "\<lambda>_ _. None" 8 10] show ?thesis
    by (auto simp: sample_server_def)
qed

text \<open>An error of the accept operation other than its cancellation ends accepting: the acceptor, which has no error
  callback when it belongs to a \<open>TcpServer\<close>, stays bound, but no connection is registered any more and no call of the handler follows.\<close>

theorem accept_error_stops_accepting:
  assumes "trigger_laws P" "ta_state acc = acc_connected" "e \<noteq> operation_aborted" "ta_pending acc = None"
    and "\<not> ta_hasErrorCall acc"
    and "\<And>s. closes P W (conn\<lparr>tc_socket := s\<rparr>)"
  shows "\<exists>acc'. acc_handle_accept P W f errorCall conn (Some e) (x, acc) = Some (Returns () (x, acc')) \<and>
    ta_pending acc' = None \<and> \<not> isAccepting P acc' \<and> acc_isConnected acc'"
  using assms by (simp add: acc_handle_accept_def drop_connection_def reset_accepting_def isAccepting_def
      acc_isConnected_def trigger_reset Let_def)

lemma fresh_closes:
  fixes P :: "('s, 't) Platform"
  assumes "trigger_laws P"
  shows "closes P (\<lambda>_ c. c, Suc 0) ((fst (create_accepting P s sz n))\<lparr>tc_socket := s'\<rparr> :: ('s, 't, 'w) TcpConnection)"
proof -
  let ?c = "(fst (create_accepting P s sz n))\<lparr>tc_socket := s'\<rparr> :: ('s, 't, 'w) TcpConnection"
  define d where "d = closeNoWait P ?c"
  have d: "tc_receivingHalt d = pf_fresh P" "tc_triggerhalt d" "\<not> tc_connecting d"
    unfolding d_def
    using trigger_fresh[OF assms]
    by (simp_all add: closeNoWait_def closeNoWait_store_def closeNoWait_rest_def create_accepting_def
        make_connection_def Let_def)
  have "close_connection P (\<lambda>_ c. c) (Suc 0) ?c = Some (d\<lparr>tc_state := closed\<rparr>)"
    unfolding close_connection_def d_def[symmetric] using d trigger_fresh[OF assms] trigger_wait[OF assms]
    by (simp add: waitOnClose_def wait_closing_def Let_def)
  then show ?thesis by (simp add: closes_def)
qed

theorem accept_error_stops_accepting_witness:
  "\<exists>acc'. acc_handle_accept sample_platform (\<lambda>_ c. c, Suc 0) (\<lambda>s c. None) (\<lambda>_ _. None)
      (fst (create_accepting sample_platform \<lparr>ss_open = True, ss_out = [], ss_chunk = 1, ss_in = []\<rparr> 8 10))
      (Some (other_error 24)) ((), sample_acceptor 0 acc_connected) = Some (Returns () ((), acc')) \<and>
    ta_pending acc' = None \<and> \<not> isAccepting sample_platform acc' \<and> acc_isConnected acc'"
  by (rule accept_error_stops_accepting[OF sample_trigger_laws]) (simp_all add: sample_acceptor_def fresh_closes[OF sample_trigger_laws])

end
