(* ===== verification/Context_Manager.thy ===== *)
theory Context_Manager
  imports Asio_Platform
begin

text \<open>
  \<open>AsioContextManager\<close> (\<open>src/pmu/AsioContextManager.h\<close>, \<open>src/pmu/AsioContextManager.cpp\<close>): named io contexts, the
  thread that runs one, and the handles that keep it running.

  \<open>asio::io_context\<close> is a parameter, the record \<open>IoOps\<close>.  The managers are shared objects, so they live in a store
  and \<open>contexts\<close> maps names to addresses.  The thread of a manager is part of its record: where it is in
  \<open>contextProcessingLoop\<close>; \<open>loop_step\<close> is one step of it.  The future \<open>loopRet\<close> is ready when the thread has finished.  A
  wait for the thread interleaves with its steps; running out of \<open>fuel\<close> is \<open>None\<close>.  \<open>startContextLoop\<close> and
  \<open>haltContextLoop\<close> are whole calls here: other callers do not come between their accesses.  The accesses one by one,
  and calls that overlap, are in \<open>Context_Threads\<close>.
\<close>

section \<open>State\<close>

record 'i IoOps =
  io_new :: 'i
  io_stop :: "'i \<Rightarrow> 'i"
  io_reset :: "'i \<Rightarrow> 'i"
  io_stopped :: "'i \<Rightarrow> bool"
  io_returns :: "'i \<Rightarrow> bool \<Rightarrow> bool" \<comment> \<open>whether \<open>run\<close> comes back; the flag says whether there is a work object\<close>
  io_ran :: "'i \<Rightarrow> bool \<Rightarrow> 'i" \<comment> \<open>the context after that\<close>

text \<open>Documented behaviour: \<open>run\<close> comes back at once from a stopped context, and a context with a work object is
  stopped by nothing but \<open>stop\<close>.\<close>

definition io_laws :: "'i IoOps \<Rightarrow> bool" where
  "io_laws IO \<longleftrightarrow> \<not> io_stopped IO (io_new IO) \<and>
     (\<forall>i. io_stopped IO (io_stop IO i) \<and> \<not> io_stopped IO (io_reset IO i)) \<and>
     (\<forall>i w. io_stopped IO i \<longrightarrow> io_returns IO i w \<and> io_stopped IO (io_ran IO i w)) \<and>
     (\<forall>i. \<not> io_stopped IO i \<longrightarrow> \<not> io_stopped IO (io_ran IO i True))"

definition sample_io :: "bool IoOps" where
  "sample_io = \<lparr>io_new = False, io_stop = (\<lambda>_. True), io_reset = (\<lambda>_. False), io_stopped = (\<lambda>i. i),
     io_returns = (\<lambda>i w. i \<or> \<not> w), io_ran = (\<lambda>i w. i \<or> \<not> w)\<rparr>"

lemma sample_io_laws: "io_laws sample_io"
  by (simp add: io_laws_def sample_io_def)

datatype loop_mode = stopped | starting | running

datatype loop_thread = No_thread | At_test | In_run | Finished

record 'i AsioContextManager =
  cm_runCounter :: int
  cm_name :: string
  cm_ictx :: 'i
  cm_nullwork :: bool
  cm_leakOnDelete :: bool
  cm_running :: loop_mode
  cm_terminateLoop :: bool
  cm_loopRet :: bool \<comment> \<open>\<open>valid()\<close>\<close>
  cm_thread :: loop_thread
  cm_leaked :: bool \<comment> \<open>the context has been given up (\<open>ictx.release()\<close>)\<close>

record 'i Contexts =
  ct_contexts :: "string \<rightharpoonup> nat"
  ct_managers :: "nat \<Rightarrow> 'i AsioContextManager"
  ct_next :: nat

definition new_manager :: "'i IoOps \<Rightarrow> string \<Rightarrow> 'i AsioContextManager" where
  "new_manager IO contextName = \<lparr>cm_runCounter = 0, cm_name = contextName, cm_ictx = io_new IO, cm_nullwork = False,
     cm_leakOnDelete = False, cm_running = stopped, cm_terminateLoop = False, cm_loopRet = False,
     cm_thread = No_thread, cm_leaked = False\<rparr>"

definition isRunning :: "'i AsioContextManager \<Rightarrow> bool" where
  "isRunning m = (cm_running m \<noteq> stopped)"

definition getName :: "'i AsioContextManager \<Rightarrow> string" where
  "getName m = cm_name m"

definition getBaseContext :: "'i AsioContextManager \<Rightarrow> 'i" where
  "getBaseContext m = cm_ictx m"

section \<open>The loop\<close>

text \<open>\<open>contextProcessingLoop\<close>: the test, and \<open>run\<close>, which comes back by a return or an exception, both of which lead
  to the test again.\<close>

definition loop_step :: "'i IoOps \<Rightarrow> 'i AsioContextManager \<Rightarrow> 'i AsioContextManager" where
  "loop_step IO m = (case cm_thread m of
     At_test \<Rightarrow>
       if cm_runCounter m > 0 \<and> \<not> cm_terminateLoop m
       then m\<lparr>cm_running := running, cm_thread := In_run\<rparr>
       else m\<lparr>cm_running := stopped, cm_thread := Finished\<rparr>
   | In_run \<Rightarrow>
       if io_returns IO (getBaseContext m) (cm_nullwork m)
       then m\<lparr>cm_ictx := io_ran IO (getBaseContext m) (cm_nullwork m), cm_thread := At_test\<rparr>
       else m
   | _ \<Rightarrow> m)"

text \<open>\<open>loopRet.get()\<close>.\<close>

fun await :: "'i IoOps \<Rightarrow> nat \<Rightarrow> 'i AsioContextManager \<Rightarrow> 'i AsioContextManager option" where
  "await IO 0 m = (if cm_thread m = Finished then Some m else None)"
| "await IO (Suc fuel) m = (if cm_thread m = Finished then Some m else await IO fuel (loop_step IO m))"

definition get_result :: "'i IoOps \<Rightarrow> nat \<Rightarrow> 'i AsioContextManager \<Rightarrow> (unit, 'i AsioContextManager) outcome option" where
  "get_result IO fuel m =
     (if \<not> cm_loopRet m then Some (Throws (logic_error ''no state'') m)
      else map_option (\<lambda>m. Returns () (m\<lparr>cm_loopRet := False\<rparr>)) (await IO fuel m))"

definition launch :: "'i AsioContextManager \<Rightarrow> 'i AsioContextManager" where
  "launch m = m\<lparr>cm_nullwork := True, cm_loopRet := True, cm_thread := At_test\<rparr>"

definition startContextLoop :: "'i IoOps \<Rightarrow> nat \<Rightarrow> 'i AsioContextManager \<Rightarrow> (unit, 'i AsioContextManager) outcome option" where
  "startContextLoop IO fuel m =
     (let m = m\<lparr>cm_runCounter := cm_runCounter m + 1\<rparr> in
      if cm_running m = stopped then Some (Returns () (launch (m\<lparr>cm_running := starting\<rparr>)))
      else if io_stopped IO (getBaseContext m) then
        (case (if cm_loopRet m then get_result IO fuel m else Some (Returns () m)) of
           None \<Rightarrow> None
         | Some (Throws e m) \<Rightarrow> Some (Throws e m)
         | Some (Returns _ m) \<Rightarrow>
             Some (Returns () (if cm_running m = stopped then launch (m\<lparr>cm_running := starting\<rparr>) else m)))
      else Some (Returns () m))"

text \<open>The wait loop of \<open>haltContextLoop\<close>; \<open>lcnt\<close> starts at 0, and in that case the body only yields.\<close>

fun halt_wait :: "'i IoOps \<Rightarrow> nat \<Rightarrow> nat \<Rightarrow> 'i AsioContextManager \<Rightarrow> 'i AsioContextManager option" where
  "halt_wait IO lcnt 0 m = (if cm_thread m = Finished then Some m else None)"
| "halt_wait IO lcnt (Suc fuel) m =
     (if cm_thread m = Finished then Some m
      else if lcnt = 0 then halt_wait IO lcnt fuel (loop_step IO m)
      else halt_wait IO (lcnt + 1) fuel (loop_step IO (m\<lparr>cm_ictx := io_stop IO (getBaseContext m)\<rparr>)))"

definition haltContextLoop :: "'i IoOps \<Rightarrow> nat \<Rightarrow> 'i AsioContextManager \<Rightarrow> (unit, 'i AsioContextManager) outcome option" where
  "haltContextLoop IO fuel m =
     (if isRunning m then
        let m = m\<lparr>cm_runCounter := cm_runCounter m - 1\<rparr> in
        if cm_runCounter m \<le> 0 then
          if cm_nullwork m then
            let m = m\<lparr>cm_terminateLoop := True, cm_nullwork := False,
                      cm_ictx := io_stop IO (getBaseContext m)\<rparr> in
            if \<not> cm_loopRet m then Some (Throws (logic_error ''no state'') m)
            else case halt_wait IO 0 fuel m of
              None \<Rightarrow> None
            | Some m \<Rightarrow> Some (Returns () (m\<lparr>cm_loopRet := False,
                cm_ictx := io_reset IO (getBaseContext m), cm_terminateLoop := False\<rparr>))
          else Some (Returns () m)
        else Some (Returns () m)
      else Some (Returns () (m\<lparr>cm_runCounter := 0\<rparr>)))"

text \<open>The handle returned by \<open>startContextLoop\<close> halts the loop when it is destroyed and swallows exceptions.\<close>

definition drop_servicer :: "'i IoOps \<Rightarrow> nat \<Rightarrow> 'i AsioContextManager \<Rightarrow> 'i AsioContextManager option" where
  "drop_servicer IO fuel m = (case haltContextLoop IO fuel m of None \<Rightarrow> None
     | Some (Returns _ m) \<Rightarrow> Some m | Some (Throws e m) \<Rightarrow> Some m)"

text \<open>Shutting down a running loop as \<open>closeContext\<close> and the destructor do it: \<open>terminateLoop\<close> is not set.\<close>

definition stop_running :: "'i IoOps \<Rightarrow> nat \<Rightarrow> 'i AsioContextManager \<Rightarrow> (unit, 'i AsioContextManager) outcome option" where
  "stop_running IO fuel m =
     (if isRunning m
      then get_result IO fuel (m\<lparr>cm_nullwork := False, cm_ictx := io_stop IO (getBaseContext m)\<rparr>)
      else Some (Returns () m))"

definition destroy_manager :: "'i IoOps \<Rightarrow> nat \<Rightarrow> 'i AsioContextManager \<Rightarrow> 'i AsioContextManager option" where
  "destroy_manager IO fuel m = (case stop_running IO fuel m of None \<Rightarrow> None
     | Some (Returns _ m) \<Rightarrow> Some (if cm_leakOnDelete m then m\<lparr>cm_leaked := True\<rparr> else m)
     | Some (Throws e m) \<Rightarrow> Some (if cm_leakOnDelete m then m\<lparr>cm_leaked := True\<rparr> else m))"

section \<open>The named contexts\<close>

definition getContextPointer :: "'i IoOps \<Rightarrow> string \<Rightarrow> 'i Contexts \<Rightarrow> nat \<times> 'i Contexts" where
  "getContextPointer IO contextName cts = (case ct_contexts cts contextName of
     Some p \<Rightarrow> (p, cts)
   | None \<Rightarrow> (ct_next cts,
       cts\<lparr>ct_contexts := (ct_contexts cts)(contextName \<mapsto> ct_next cts),
           ct_managers := (ct_managers cts)(ct_next cts := new_manager IO contextName),
           ct_next := ct_next cts + 1\<rparr>))"

definition getExistingContextPointer :: "string \<Rightarrow> 'i Contexts \<Rightarrow> nat option" where
  "getExistingContextPointer contextName cts = ct_contexts cts contextName"

definition getContext :: "'i IoOps \<Rightarrow> string \<Rightarrow> 'i Contexts \<Rightarrow> 'i \<times> 'i Contexts" where
  "getContext IO contextName cts =
     (let (p, cts) = getContextPointer IO contextName cts in (getBaseContext (ct_managers cts p), cts))"

definition getExistingContext :: "string \<Rightarrow> 'i Contexts \<Rightarrow> exn + 'i" where
  "getExistingContext contextName cts = (case getExistingContextPointer contextName cts of
     Some p \<Rightarrow> Inr (getBaseContext (ct_managers cts p))
   | None \<Rightarrow> Inl (invalid_argument ''the context name specified was not available''))"

definition on_manager :: "('i AsioContextManager \<Rightarrow> (unit, 'i AsioContextManager) outcome option) \<Rightarrow> nat \<Rightarrow>
    'i Contexts \<Rightarrow> (nat, 'i Contexts) outcome option" where
  "on_manager f p cts = (case f (ct_managers cts p) of None \<Rightarrow> None
     | Some (Returns _ m) \<Rightarrow> Some (Returns p (cts\<lparr>ct_managers := (ct_managers cts)(p := m)\<rparr>))
     | Some (Throws e m) \<Rightarrow> Some (Throws e (cts\<lparr>ct_managers := (ct_managers cts)(p := m)\<rparr>)))"

definition closeContext :: "'i IoOps \<Rightarrow> nat \<Rightarrow> string \<Rightarrow> 'i Contexts \<Rightarrow> (nat, 'i Contexts) outcome option" where
  "closeContext IO fuel contextName cts = (case ct_contexts cts contextName of
     None \<Rightarrow> Some (Returns 0 cts)
   | Some p \<Rightarrow> on_manager (stop_running IO fuel) p (cts\<lparr>ct_contexts := (ct_contexts cts)(contextName := None)\<rparr>))"

definition setContextToLeakOnDelete :: "string \<Rightarrow> 'i Contexts \<Rightarrow> 'i Contexts" where
  "setContextToLeakOnDelete contextName cts = (case ct_contexts cts contextName of
     None \<Rightarrow> cts
   | Some p \<Rightarrow> cts\<lparr>ct_managers := (ct_managers cts)(p := (ct_managers cts p)\<lparr>cm_leakOnDelete := True\<rparr>)\<rparr>)"

definition runContextLoop :: "'i IoOps \<Rightarrow> nat \<Rightarrow> string \<Rightarrow> 'i Contexts \<Rightarrow> (nat, 'i Contexts) outcome option" where
  "runContextLoop IO fuel contextName cts = (case ct_contexts cts contextName of
     Some p \<Rightarrow> on_manager (startContextLoop IO fuel) p cts
   | None \<Rightarrow> Some (Throws (invalid_argument ''the context name specified was not available'') cts))"

section \<open>Handles keep the loop running\<close>

text \<open>A manager together with the number of its handles: handles are taken and dropped, and the thread runs.\<close>

inductive manager_step :: "'i IoOps \<Rightarrow> nat \<times> 'i AsioContextManager \<Rightarrow> nat \<times> 'i AsioContextManager \<Rightarrow> bool" for IO where
  take_handle: "startContextLoop IO fuel m = Some (Returns () m') \<Longrightarrow> manager_step IO (h, m) (h + 1, m')"
| drop_handle: "drop_servicer IO fuel m = Some m' \<Longrightarrow> manager_step IO (Suc h, m) (h, m')"
| thread: "manager_step IO (h, m) (h, loop_step IO m)"

definition manager_inv :: "'i IoOps \<Rightarrow> nat \<times> 'i AsioContextManager \<Rightarrow> bool" where
  "manager_inv IO = (\<lambda>(h, m). cm_runCounter m = int h \<and> \<not> cm_terminateLoop m \<and>
     \<not> io_stopped IO (getBaseContext m) \<and>
     (if h = 0 then \<not> cm_nullwork m \<and> cm_running m = stopped \<and> cm_thread m \<in> {No_thread, Finished}
      else cm_nullwork m \<and> cm_loopRet m \<and> cm_running m \<noteq> stopped \<and> cm_thread m \<in> {At_test, In_run}))"

lemma loop_step_inv: "io_laws IO \<Longrightarrow> manager_inv IO (h, m) \<Longrightarrow> manager_inv IO (h, loop_step IO m)"
  by (cases "cm_thread m") (auto simp: manager_inv_def loop_step_def getBaseContext_def io_laws_def split: if_splits)

lemma start_inv:
  assumes "manager_inv IO (h, m)" "startContextLoop IO fuel m = Some (Returns () m')"
  shows "manager_inv IO (h + 1, m')"
  using assms by (auto simp: manager_inv_def startContextLoop_def launch_def getBaseContext_def Let_def split: if_splits)

text \<open>The thread of a loop that has been told to terminate finishes within three steps.\<close>

lemma halting_thread:
  assumes "io_laws IO" "cm_terminateLoop m" "io_stopped IO (cm_ictx m)" "cm_thread m \<in> {At_test, In_run}"
  shows "\<exists>i. halt_wait IO 0 (Suc (Suc fuel)) m = Some (m\<lparr>cm_ictx := i, cm_running := stopped, cm_thread := Finished\<rparr>)"
proof -
  have fin: "halt_wait IO 0 n m' = Some m'" if "cm_thread m' = Finished" for n and m' :: "'a AsioContextManager"
    using that by (cases n) simp_all
  show ?thesis
  proof (cases "cm_thread m = At_test")
    case True
    then show ?thesis using assms(2) fin by (intro exI[of _ "cm_ictx m"]) (simp add: loop_step_def)
  next
    case False
    then show ?thesis using assms fin
      by (intro exI[of _ "io_ran IO (cm_ictx m) (cm_nullwork m)"])
        (simp add: loop_step_def io_laws_def getBaseContext_def)
  qed
qed

lemma drop_last:
  assumes "io_laws IO" "manager_inv IO (Suc 0, m)"
  shows "\<exists>m'. drop_servicer IO (Suc (Suc fuel)) m = Some m'"
proof -
  let ?m = "m\<lparr>cm_runCounter := 0, cm_terminateLoop := True, cm_nullwork := False, cm_ictx := io_stop IO (cm_ictx m)\<rparr>"
  have "\<exists>i. halt_wait IO 0 (Suc (Suc fuel)) ?m = Some (?m\<lparr>cm_ictx := i, cm_running := stopped, cm_thread := Finished\<rparr>)"
    using assms by (intro halting_thread) (simp_all add: manager_inv_def io_laws_def)
  then show ?thesis
    using assms(2) by (auto simp: drop_servicer_def haltContextLoop_def manager_inv_def isRunning_def getBaseContext_def)
qed

lemma halt_wait_more: "halt_wait IO 0 fuel m = Some m' \<Longrightarrow> halt_wait IO 0 (fuel + k) m = Some m'"
proof (induction fuel arbitrary: m)
  case 0
  then show ?case by (cases k) (auto split: if_splits)
qed (auto split: if_splits)

lemma drop_inv:
  assumes "io_laws IO" "manager_inv IO (Suc h, m)" "drop_servicer IO fuel m = Some m'"
  shows "manager_inv IO (h, m')"
proof (cases "h = 0")
  case False
  then show ?thesis using assms(2,3)
    by (auto simp: manager_inv_def drop_servicer_def haltContextLoop_def isRunning_def getBaseContext_def)
next
  case True
  let ?m = "m\<lparr>cm_runCounter := 0, cm_terminateLoop := True, cm_nullwork := False, cm_ictx := io_stop IO (cm_ictx m)\<rparr>"
  have "\<exists>i. halt_wait IO 0 (fuel + 2) ?m = Some (?m\<lparr>cm_ictx := i, cm_running := stopped, cm_thread := Finished\<rparr>)"
    using halting_thread[of IO ?m fuel] assms(1,2) True by (simp add: manager_inv_def io_laws_def)
  then obtain i where i: "halt_wait IO 0 (fuel + 2) ?m = Some (?m\<lparr>cm_ictx := i, cm_running := stopped, cm_thread := Finished\<rparr>)" ..
  obtain n where n: "halt_wait IO 0 fuel ?m = Some n"
    using assms(2,3) True
    by (auto simp: manager_inv_def drop_servicer_def haltContextLoop_def isRunning_def getBaseContext_def
        split: option.splits)
  have "n = ?m\<lparr>cm_ictx := i, cm_running := stopped, cm_thread := Finished\<rparr>"
    using halt_wait_more[OF n, of 2] i by simp
  then show ?thesis using assms n True
    by (auto simp: manager_inv_def drop_servicer_def haltContextLoop_def isRunning_def getBaseContext_def io_laws_def)
qed

definition manager_init :: "'i IoOps \<Rightarrow> nat \<times> 'i AsioContextManager \<Rightarrow> bool" where
  "manager_init IO s \<longleftrightarrow> (\<exists>name. s = (0, new_manager IO name))"

lemma manager_step_inv: "io_laws IO \<Longrightarrow> manager_step IO s t \<Longrightarrow> manager_inv IO s \<Longrightarrow> manager_inv IO t"
  by (erule manager_step.cases) (auto intro: start_inv[simplified] drop_inv loop_step_inv)

interpretation manager: transition_system "manager_step IO" "\<lambda>s. io_laws IO \<and> manager_init IO s"
    "\<lambda>s. io_laws IO \<and> manager_inv IO s" for IO
proof
  show "io_laws IO \<and> manager_init IO s \<Longrightarrow> io_laws IO \<and> manager_inv IO s" for s :: "nat \<times> 'a AsioContextManager"
    by (auto simp: manager_init_def new_manager_def manager_inv_def getBaseContext_def io_laws_def)
qed (auto intro: manager_step_inv)

lemma manager_reachable_inv:
  "io_laws IO \<Longrightarrow> manager_init IO s \<Longrightarrow> (manager_step IO)\<^sup>*\<^sup>* s t \<Longrightarrow> manager_inv IO t"
  using manager.inv_reachable[of IO s t] by simp

text \<open>As long as calls do not overlap, the loop runs exactly as long as somebody holds a handle.  \<open>Context_Threads\<close> has
  this for calls that overlap.\<close>

lemma whole_calls_keep_loop:
  assumes "io_laws IO" "manager_init IO s" "(manager_step IO)\<^sup>*\<^sup>* s (h, m)"
  shows "(isRunning m \<longleftrightarrow> 0 < h) \<and> (cm_thread m \<in> {At_test, In_run} \<longleftrightarrow> 0 < h) \<and> (cm_nullwork m \<longleftrightarrow> 0 < h) \<and>
    cm_runCounter m = int h"
  using manager_reachable_inv[OF assms] by (auto simp: manager_inv_def isRunning_def split: if_splits)

lemma two_handles:
  "\<exists>m. (manager_step sample_io)\<^sup>*\<^sup>* (0, new_manager sample_io name) (2, m) \<and> cm_loopRet m"
proof -
  let ?m = "launch ((new_manager sample_io name)\<lparr>cm_runCounter := 1, cm_running := starting\<rparr>)"
  have "startContextLoop sample_io 0 (new_manager sample_io name) = Some (Returns () ?m)"
    by (simp add: startContextLoop_def new_manager_def)
  from manager_step.take_handle[OF this, of 0]
  have "manager_step sample_io (0, new_manager sample_io name) (1, ?m)" by simp
  moreover have "startContextLoop sample_io 0 ?m = Some (Returns () (?m\<lparr>cm_runCounter := 2\<rparr>))"
    by (simp add: startContextLoop_def new_manager_def launch_def sample_io_def getBaseContext_def)
  from manager_step.take_handle[OF this, of 1]
  have "manager_step sample_io (1, ?m) (2, ?m\<lparr>cm_runCounter := 2\<rparr>)" by (simp add: numeral_2_eq_2)
  ultimately show ?thesis
    by (intro exI[of _ "?m\<lparr>cm_runCounter := 2\<rparr>"]) (auto simp: launch_def intro: converse_rtranclp_into_rtranclp)
qed

text \<open>C19: dropping the last handle comes back once the thread has made two more steps, and the loop can be started
  again.\<close>

theorem last_handle_returns:
  assumes "io_laws IO" "manager_init IO s" "(manager_step IO)\<^sup>*\<^sup>* s (1, m)" "2 \<le> fuel"
  shows "\<exists>m'. drop_servicer IO fuel m = Some m' \<and> \<not> isRunning m' \<and> cm_runCounter m' = 0 \<and>
    \<not> io_stopped IO (getBaseContext m')"
proof -
  have inv: "manager_inv IO (Suc 0, m)" using manager_reachable_inv[OF assms(1-3)] by simp
  obtain f where f: "fuel = Suc (Suc f)" using assms(4) by (auto simp: le_iff_add)
  obtain m' where m': "drop_servicer IO fuel m = Some m'" using drop_last[OF assms(1) inv] f by blast
  with drop_inv[OF assms(1) inv m'] show ?thesis by (simp add: manager_inv_def isRunning_def)
qed

theorem last_handle_returns_witness:
  "\<exists>m m' :: bool AsioContextManager. isRunning m \<and> drop_servicer sample_io 2 m = Some m' \<and> \<not> isRunning m'"
proof -
  let ?m = "launch ((new_manager sample_io [])\<lparr>cm_runCounter := 1, cm_running := starting\<rparr>)"
  have "startContextLoop sample_io 0 (new_manager sample_io []) = Some (Returns () ?m)"
    by (simp add: startContextLoop_def new_manager_def)
  from manager_step.take_handle[OF this, of 0]
  have "(manager_step sample_io)\<^sup>*\<^sup>* (0, new_manager sample_io []) (1, ?m)" by auto
  moreover have "manager_init sample_io (0, new_manager sample_io [])" by (auto simp: manager_init_def)
  ultimately obtain m' where "drop_servicer sample_io 2 ?m = Some m'" "\<not> isRunning m'"
    using last_handle_returns[OF sample_io_laws, of _ ?m 2] by blast
  moreover have "isRunning ?m" by (simp add: isRunning_def launch_def)
  ultimately show ?thesis by blast
qed

lemma spinning:
  assumes "io_laws IO" "io_stopped IO (cm_ictx m)" "cm_thread m \<in> {At_test, In_run}" "0 < cm_runCounter m" "\<not> cm_terminateLoop m"
  shows "await IO fuel m = None"
  using assms(2-5)
proof (induction fuel arbitrary: m)
  case (Suc fuel)
  have "await IO fuel (loop_step IO m) = None"
    using Suc.prems assms(1)
    by (intro Suc.IH) (auto simp: loop_step_def io_laws_def getBaseContext_def)
  then show ?case using Suc.prems by auto
qed auto

text \<open>C20: \<open>closeContext\<close> does not come back while a handle exists, however far the thread runs: it stops the
  context without telling the loop to terminate, so the thread runs the stopped context again and again, and the
  future is never ready.\<close>

theorem closeContext_hangs_while_held:
  assumes "io_laws IO" "manager_init IO s" "(manager_step IO)\<^sup>*\<^sup>* s (h, m)" "0 < h"
    and "ct_contexts cts name = Some p" "ct_managers cts p = m"
  shows "closeContext IO fuel name cts = None"
proof -
  have inv: "manager_inv IO (h, m)" by (rule manager_reachable_inv[OF assms(1-3)])
  let ?m = "m\<lparr>cm_nullwork := False, cm_ictx := io_stop IO (getBaseContext m)\<rparr>"
  have "await IO fuel ?m = None"
    using inv assms(1,4) by (intro spinning) (auto simp: manager_inv_def io_laws_def split: if_splits)
  moreover have "isRunning m" "cm_loopRet m" using inv assms(4) by (auto simp: manager_inv_def isRunning_def)
  ultimately show ?thesis using assms(5,6) by (simp add: closeContext_def on_manager_def stop_running_def get_result_def)
qed

theorem closeContext_hangs_while_held_witness:
  "\<exists>m. closeContext sample_io 1000 ''a'' \<lparr>ct_contexts = [''a'' \<mapsto> 0], ct_managers = (\<lambda>_. m), ct_next = 1\<rparr> = None"
proof -
  obtain m where m: "(manager_step sample_io)\<^sup>*\<^sup>* (0, new_manager sample_io ''a'') (2, m)"
    using two_handles by blast
  have "manager_init sample_io (0, new_manager sample_io ''a'')" by (auto simp: manager_init_def)
  from closeContext_hangs_while_held[OF sample_io_laws this m,
      of "\<lparr>ct_contexts = [''a'' \<mapsto> 0], ct_managers = (\<lambda>_. m), ct_next = 1\<rparr>" "''a''" 0 1000]
  show ?thesis by auto
qed

section \<open>Named contexts are shared\<close>

definition contexts_wf :: "'i Contexts \<Rightarrow> bool" where
  "contexts_wf cts \<longleftrightarrow> inj_on (ct_contexts cts) (dom (ct_contexts cts)) \<and> (\<forall>p \<in> ran (ct_contexts cts). p < ct_next cts)"

lemma getContextPointer_wf: "contexts_wf cts \<Longrightarrow> contexts_wf (snd (getContextPointer IO name cts))"
  by (auto simp: contexts_wf_def getContextPointer_def inj_on_def ran_def dom_def split: option.splits)

lemma getContextPointer_entry:
  "getContextPointer IO name cts = (p, cts') \<Longrightarrow> ct_contexts cts' name = Some p"
  by (auto simp: getContextPointer_def split: option.splits)

lemma getContextPointer_keeps:
  "ct_contexts cts a = Some p \<Longrightarrow> ct_contexts (snd (getContextPointer IO b cts)) a = Some p"
  by (auto simp: getContextPointer_def split: option.splits)

text \<open>A name always denotes the same manager and different names never share one.\<close>

lemma contexts_shared_by_name:
  assumes "contexts_wf cts" "getContextPointer IO a cts = (p, cts1)" "getContextPointer IO b cts1 = (q, cts2)"
  shows "(p = q \<longleftrightarrow> a = b) \<and> getExistingContextPointer a cts2 = Some p \<and> contexts_wf cts2"
proof -
  have wf: "contexts_wf cts2"
    using getContextPointer_wf[OF getContextPointer_wf[OF assms(1)], of IO b IO a] assms(2,3) by simp
  have a: "ct_contexts cts2 a = Some p"
    using getContextPointer_keeps[OF getContextPointer_entry[OF assms(2)], of IO b] assms(3) by simp
  have "ct_contexts cts2 b = Some q" using getContextPointer_entry[OF assms(3)] .
  with a wf have "p = q \<longleftrightarrow> a = b" by (auto simp: contexts_wf_def inj_on_def dom_def)
  with a wf show ?thesis by (simp add: getExistingContextPointer_def)
qed

end
