(* ===== verification/Context_Threads.thy ===== *)
theory Context_Threads
  imports Context_Manager
begin

text \<open>
  The threads that call \<open>startContextLoop\<close> and \<open>haltContextLoop\<close> of one \<open>AsioContextManager\<close>
  (\<open>src/pmu/AsioContextManager.cpp\<close>) at the same time.  \<open>Context_Manager\<close> has the two as whole calls; here a
  call is a sequence of the accesses to the shared state it makes, each atomic, so that the accesses of other
  calls and of the loop thread can come between them.

  The first sections hold the step function and show that an undisturbed call is the whole call of
  \<open>Context_Manager\<close>.  Then come two results: calls that take handles may overlap each other in any way, and the loop
  runs exactly while a handle exists, as long as no handle is dropped during another call; and a schedule in which one is
  leaves a caller with a handle and no loop.
\<close>

section \<open>Calls as sequences of accesses\<close>

text \<open>Where a caller is.  \<open>Counted\<close> to \<open>Retrying\<close> are the points of \<open>startContextLoop\<close>, named for what comes next
  or was found last; the points after \<open>Holding\<close> belong to \<open>haltContextLoop\<close>, which the destructor of the handle
  calls.\<close>

datatype caller = Idle | Counted | Claimed | Launching | Spawning | Busy | Testing | Waiting | Retrying
  | Holding
  | Stopped_seen | Running_seen | Last | Last_locked | Terminating | Stopping | Polling | Finishing | Resetting | Leaving

record 'i Threads =
  th_manager :: "'i AsioContextManager"
  th_lock :: "nat option" \<comment> \<open>\<open>runningLoopLock\<close>\<close>
  th_callers :: "caller list"

definition go :: "nat \<Rightarrow> caller \<Rightarrow> 'i AsioContextManager \<Rightarrow> 'i Threads \<Rightarrow> 'i Threads" where
  "go t pc m s = s\<lparr>th_manager := m, th_callers := (th_callers s)[t := pc]\<rparr>"

text \<open>A caller that finds the lock taken stays where it is.\<close>

definition acquire :: "nat \<Rightarrow> caller \<Rightarrow> 'i Threads \<Rightarrow> 'i Threads" where
  "acquire t pc s = (if th_lock s = None then (go t pc (th_manager s) s)\<lparr>th_lock := Some t\<rparr> else s)"

definition release :: "nat \<Rightarrow> caller \<Rightarrow> 'i AsioContextManager \<Rightarrow> 'i Threads \<Rightarrow> 'i Threads" where
  "release t pc m s = (go t pc m s)\<lparr>th_lock := None\<rparr>"

text \<open>The task of a launch is not started before \<open>Spawning\<close>: its future is valid and not ready.  In \<open>Polling\<close> the body
  of the wait loop does nothing, because \<open>lcnt\<close> stays 0; a future that is not valid makes \<open>wait_for\<close> throw, which
  releases the lock and is swallowed by the destructor of the handle.\<close>

definition caller_step :: "'i IoOps \<Rightarrow> nat \<Rightarrow> 'i Threads \<Rightarrow> 'i Threads" where
  "caller_step IO t s = (let m = th_manager s in case th_callers s ! t of
     Idle \<Rightarrow> go t Counted (m\<lparr>cm_runCounter := cm_runCounter m + 1\<rparr>) s
   | Counted \<Rightarrow>
       if cm_running m = stopped then go t Claimed (m\<lparr>cm_running := starting\<rparr>) s else go t Busy m s
   | Claimed \<Rightarrow> acquire t Launching s
   | Launching \<Rightarrow>
       release t Spawning (m\<lparr>cm_nullwork := True, cm_loopRet := True, cm_thread := No_thread\<rparr>) s
   | Spawning \<Rightarrow> go t Holding (m\<lparr>cm_thread := At_test\<rparr>) s
   | Busy \<Rightarrow> acquire t Testing s
   | Testing \<Rightarrow>
       if io_stopped IO (getBaseContext m)
       then (if cm_loopRet m then go t Waiting m s else release t Retrying m s)
       else release t Holding m s
   | Waiting \<Rightarrow> if cm_thread m = Finished then release t Retrying (m\<lparr>cm_loopRet := False\<rparr>) s else s
   | Retrying \<Rightarrow>
       if cm_running m = stopped then go t Claimed (m\<lparr>cm_running := starting\<rparr>) s else go t Holding m s
   | Holding \<Rightarrow> if isRunning m then go t Running_seen m s else go t Stopped_seen m s
   | Stopped_seen \<Rightarrow> go t Idle (m\<lparr>cm_runCounter := 0\<rparr>) s
   | Running_seen \<Rightarrow>
       go t (if cm_runCounter m - 1 \<le> 0 then Last else Idle) (m\<lparr>cm_runCounter := cm_runCounter m - 1\<rparr>) s
   | Last \<Rightarrow> acquire t Last_locked s
   | Last_locked \<Rightarrow>
       if cm_runCounter m \<le> 0 \<and> cm_nullwork m
       then go t Terminating (m\<lparr>cm_terminateLoop := True\<rparr>) s else release t Idle m s
   | Terminating \<Rightarrow> go t Stopping (m\<lparr>cm_nullwork := False\<rparr>) s
   | Stopping \<Rightarrow> go t Polling (m\<lparr>cm_ictx := io_stop IO (getBaseContext m)\<rparr>) s
   | Polling \<Rightarrow>
       if \<not> cm_loopRet m then release t Idle m s
       else if cm_thread m = Finished then go t Finishing m s else s
   | Finishing \<Rightarrow> go t Resetting (m\<lparr>cm_loopRet := False\<rparr>) s
   | Resetting \<Rightarrow> go t Leaving (m\<lparr>cm_ictx := io_reset IO (getBaseContext m)\<rparr>) s
   | Leaving \<Rightarrow> release t Idle (m\<lparr>cm_terminateLoop := False\<rparr>) s)"

text \<open>An idle caller that is scheduled takes a handle, one that holds a handle drops it.\<close>

datatype event = Caller nat | Loop

definition event_step :: "'i IoOps \<Rightarrow> event \<Rightarrow> 'i Threads \<Rightarrow> 'i Threads" where
  "event_step IO e s = (case e of
     Caller t \<Rightarrow> if t < length (th_callers s) then caller_step IO t s else s
   | Loop \<Rightarrow> s\<lparr>th_manager := loop_step IO (th_manager s)\<rparr>)"

definition run_schedule :: "'i IoOps \<Rightarrow> event list \<Rightarrow> 'i Threads \<Rightarrow> 'i Threads" where
  "run_schedule IO es s = fold (event_step IO) es s"

definition new_threads :: "'i IoOps \<Rightarrow> string \<Rightarrow> nat \<Rightarrow> 'i Threads" where
  "new_threads IO name n = \<lparr>th_manager = new_manager IO name, th_lock = None, th_callers = replicate n Idle\<rparr>"

section \<open>Undisturbed calls\<close>

lemma run_schedule_simps [simp]:
  "run_schedule IO [] s = s" "run_schedule IO (e # es) s = run_schedule IO es (event_step IO e s)"
  "run_schedule IO (es @ es') s = run_schedule IO es' (run_schedule IO es s)"
  by (simp_all add: run_schedule_def)

lemma run_loop: "run_schedule IO (replicate k Loop) s = s\<lparr>th_manager := (loop_step IO ^^ k) (th_manager s)\<rparr>"
  by (induction k arbitrary: s) (simp_all add: event_step_def funpow_swap1)

lemma halt_wait_await: "halt_wait IO 0 fuel m = await IO fuel m"
  by (induction fuel arbitrary: m) simp_all

lemma await_runs: "await IO fuel m = Some m' \<Longrightarrow> (\<exists>k. m' = (loop_step IO ^^ k) m) \<and> cm_thread m' = Finished"
proof (induction fuel arbitrary: m)
  case (Suc fuel)
  show ?case
  proof (cases "cm_thread m = Finished")
    case True
    with Suc.prems show ?thesis by (auto intro: exI[of _ 0])
  next
    case False
    with Suc.IH[of "loop_step IO m"] Suc.prems obtain k where
      "m' = (loop_step IO ^^ k) (loop_step IO m)" "cm_thread m' = Finished" by auto
    then show ?thesis by (metis funpow_simps_right(2) comp_apply)
  qed
qed (auto split: if_splits intro: exI[of _ 0])

lemmas step_defs = event_step_def caller_step_def go_def acquire_def release_def

text \<open>A caller that is not disturbed by other callers does what \<open>Context_Manager\<close> says of the whole call.\<close>

definition alone :: "'i IoOps \<Rightarrow> nat \<Rightarrow> 'i Threads \<Rightarrow> caller \<Rightarrow> 'i AsioContextManager \<Rightarrow> bool" where
  "alone IO t s pc m \<longleftrightarrow> (\<exists>es. set es \<subseteq> {Caller t, Loop} \<and>
     run_schedule IO es s = s\<lparr>th_manager := m, th_callers := (th_callers s)[t := pc]\<rparr>)"

lemma alone_run:
  "set es \<subseteq> {Caller t, Loop} \<Longrightarrow> run_schedule IO es s = s\<lparr>th_manager := m, th_callers := (th_callers s)[t := pc]\<rparr> \<Longrightarrow>
     alone IO t s pc m"
  unfolding alone_def by blast

lemma alone_after:
  assumes "set es \<subseteq> {Caller t, Loop}" "run_schedule IO es s = s'" "alone IO t s' pc m"
    and "th_lock s' = th_lock s" "(th_callers s')[t := pc] = (th_callers s)[t := pc]"
  shows "alone IO t s pc m"
proof -
  from assms(3) obtain es' where es': "set es' \<subseteq> {Caller t, Loop}"
      "run_schedule IO es' s' = s'\<lparr>th_manager := m, th_callers := (th_callers s')[t := pc]\<rparr>"
    unfolding alone_def by blast
  have "s'\<lparr>th_manager := m, th_callers := (th_callers s')[t := pc]\<rparr> =
      s\<lparr>th_manager := m, th_callers := (th_callers s)[t := pc]\<rparr>"
    using assms(4,5) by (cases s; cases s') simp
  with assms(1,2) es' show ?thesis by (intro alone_run[of "es @ es'"]) simp_all
qed

lemma retry_alone:
  assumes "t < length (th_callers s)" "th_callers s ! t = Retrying" "th_lock s = None"
    and "m' = (if cm_running (th_manager s) = stopped then launch (th_manager s\<lparr>cm_running := starting\<rparr>) else th_manager s)"
  shows "alone IO t s Holding m'"
proof (cases "cm_running (th_manager s) = stopped")
  case True
  with assms show ?thesis
    by (intro alone_run[of "[Caller t, Caller t, Caller t, Caller t]"]) (auto simp: step_defs launch_def Let_def)
next
  case False
  with assms show ?thesis by (intro alone_run[of "[Caller t]"]) (auto simp: step_defs Let_def)
qed

lemma start_alone:
  assumes "t < length (th_callers s)" "th_callers s ! t = Idle" "th_lock s = None"
    and "startContextLoop IO fuel (th_manager s) = Some (Returns () m')"
  shows "alone IO t s Holding m'"
proof -
  let ?m = "th_manager s\<lparr>cm_runCounter := cm_runCounter (th_manager s) + 1\<rparr>"
  let ?at = "\<lambda>pc m. s\<lparr>th_manager := m, th_callers := (th_callers s)[t := pc]\<rparr>"
  consider (fresh) "cm_running ?m = stopped" "m' = launch (?m\<lparr>cm_running := starting\<rparr>)"
    | (runs) "cm_running ?m \<noteq> stopped" "\<not> io_stopped IO (cm_ictx ?m)" "m' = ?m"
    | (gone) "cm_running ?m \<noteq> stopped" "io_stopped IO (cm_ictx ?m)" "\<not> cm_loopRet ?m" "m' = ?m"
    | (waits) m1 where "cm_running ?m \<noteq> stopped" "io_stopped IO (cm_ictx ?m)" "cm_loopRet ?m" "await IO fuel ?m = Some m1"
        "m' = (if cm_running m1 = stopped then launch (m1\<lparr>cm_loopRet := False, cm_running := starting\<rparr>) else m1\<lparr>cm_loopRet := False\<rparr>)"
    using assms(4) by (auto simp: startContextLoop_def getBaseContext_def get_result_def Let_def
        split: if_splits option.splits)
  then show ?thesis
  proof cases
    case fresh
    with assms(1-3) show ?thesis
      by (intro alone_run[of "[Caller t, Caller t, Caller t, Caller t, Caller t]"]) (auto simp: step_defs launch_def Let_def)
  next
    case runs
    with assms(1-3) show ?thesis
      by (intro alone_run[of "[Caller t, Caller t, Caller t, Caller t]"]) (auto simp: step_defs getBaseContext_def Let_def)
  next
    case gone
    with assms(1-3) have "run_schedule IO [Caller t, Caller t, Caller t, Caller t] s = ?at Retrying ?m"
      by (auto simp: step_defs getBaseContext_def Let_def)
    moreover have "alone IO t (?at Retrying ?m) Holding m'"
      using gone assms(1-3) by (intro retry_alone) simp_all
    ultimately show ?thesis by (rule alone_after[rotated]) simp_all
  next
    case waits
    obtain k where k: "m1 = (loop_step IO ^^ k) ?m" "cm_thread m1 = Finished" using await_runs[OF waits(4)] by blast
    have "run_schedule IO [Caller t, Caller t, Caller t, Caller t] s = (?at Waiting ?m)\<lparr>th_lock := Some t\<rparr>"
      using waits assms(1-3) by (auto simp: step_defs getBaseContext_def Let_def)
    moreover have "run_schedule IO (replicate k Loop) ((?at Waiting ?m)\<lparr>th_lock := Some t\<rparr>) =
        (?at Waiting m1)\<lparr>th_lock := Some t\<rparr>"
      unfolding run_loop k(1) by simp
    moreover have "run_schedule IO [Caller t] ((?at Waiting m1)\<lparr>th_lock := Some t\<rparr>) = ?at Retrying (m1\<lparr>cm_loopRet := False\<rparr>)"
      using k(2) assms(1,3) by (auto simp: step_defs Let_def)
    ultimately have "run_schedule IO ([Caller t, Caller t, Caller t, Caller t] @ replicate k Loop @ [Caller t]) s =
        ?at Retrying (m1\<lparr>cm_loopRet := False\<rparr>)"
      by (simp only: run_schedule_simps(3))
    moreover have "alone IO t (?at Retrying (m1\<lparr>cm_loopRet := False\<rparr>)) Holding m'"
      using waits(5) assms(1-3) by (intro retry_alone) simp_all
    ultimately show ?thesis by (rule alone_after[rotated]) auto
  qed
qed

lemma drop_alone:
  assumes "t < length (th_callers s)" "th_callers s ! t = Holding" "th_lock s = None"
    and "drop_servicer IO fuel (th_manager s) = Some m'"
  shows "alone IO t s Idle m'"
proof -
  let ?d = "th_manager s\<lparr>cm_runCounter := cm_runCounter (th_manager s) - 1\<rparr>"
  let ?h = "?d\<lparr>cm_terminateLoop := True, cm_nullwork := False, cm_ictx := io_stop IO (cm_ictx ?d)\<rparr>"
  consider (stopped) "\<not> isRunning (th_manager s)" "m' = th_manager s\<lparr>cm_runCounter := 0\<rparr>"
    | (others) "isRunning (th_manager s)" "0 < cm_runCounter ?d" "m' = ?d"
    | (idle) "isRunning (th_manager s)" "cm_runCounter ?d \<le> 0" "\<not> cm_nullwork ?d" "m' = ?d"
    | (throws) "isRunning (th_manager s)" "cm_runCounter ?d \<le> 0" "cm_nullwork ?d" "\<not> cm_loopRet ?d" "m' = ?h"
    | (halts) m1 where "isRunning (th_manager s)" "cm_runCounter ?d \<le> 0" "cm_nullwork ?d" "cm_loopRet ?d"
        "await IO fuel ?h = Some m1"
        "m' = m1\<lparr>cm_loopRet := False, cm_ictx := io_reset IO (cm_ictx m1), cm_terminateLoop := False\<rparr>"
    using assms(4) by (auto simp: drop_servicer_def haltContextLoop_def getBaseContext_def halt_wait_await Let_def
        split: if_splits option.splits)
  then show ?thesis
  proof cases
    case stopped
    with assms(1-3) show ?thesis
      by (intro alone_run[of "[Caller t, Caller t]"]) (auto simp: step_defs Let_def)
  next
    case others
    with assms(1-3) show ?thesis
      by (intro alone_run[of "[Caller t, Caller t]"]) (auto simp: step_defs isRunning_def Let_def)
  next
    case idle
    with assms(1-3) show ?thesis
      by (intro alone_run[of "[Caller t, Caller t, Caller t, Caller t]"]) (auto simp: step_defs isRunning_def Let_def)
  next
    case throws
    with assms(1-3) show ?thesis
      by (intro alone_run[of "[Caller t, Caller t, Caller t, Caller t, Caller t, Caller t, Caller t]"])
        (auto simp: step_defs isRunning_def getBaseContext_def Let_def)
  next
    case halts
    obtain k where k: "m1 = (loop_step IO ^^ k) ?h" "cm_thread m1 = Finished" using await_runs[OF halts(5)] by blast
    have loopRet: "cm_loopRet ((loop_step IO ^^ j) m) = cm_loopRet m" for j and m :: "'a AsioContextManager"
      by (induction j) (auto simp: loop_step_def split: loop_thread.splits)
    let ?s = "\<lambda>m. s\<lparr>th_manager := m, th_lock := Some t, th_callers := (th_callers s)[t := Polling]\<rparr>"
    have "run_schedule IO [Caller t, Caller t, Caller t, Caller t, Caller t, Caller t] s = ?s ?h"
      using halts(1-4) assms(1-3) by (auto simp: step_defs isRunning_def getBaseContext_def Let_def)
    moreover have "run_schedule IO (replicate k Loop) (?s ?h) = ?s m1"
      unfolding run_loop k(1) by simp
    moreover have "cm_loopRet m1" using halts(4) loopRet[of k ?h] by (simp add: k(1))
    then have "run_schedule IO [Caller t, Caller t, Caller t, Caller t] (?s m1) =
        s\<lparr>th_manager := m', th_callers := (th_callers s)[t := Idle]\<rparr>"
      unfolding halts(6) using k(2) assms(1,3) by (auto simp: step_defs getBaseContext_def Let_def)
    ultimately have "run_schedule IO ([Caller t, Caller t, Caller t, Caller t, Caller t, Caller t] @ replicate k Loop @
        [Caller t, Caller t, Caller t, Caller t]) s = s\<lparr>th_manager := m', th_callers := (th_callers s)[t := Idle]\<rparr>"
      by (simp only: run_schedule_simps(3))
    then show ?thesis by (rule alone_run[rotated]) auto
  qed
qed

section \<open>Overlapping starts\<close>

text \<open>Calls that take handles overlap in any way; a handle is dropped only when no other call is under way, and nothing
  starts before that is done.  The thread runs at any time.\<close>

definition dropping :: "caller \<Rightarrow> bool" where
  "dropping c \<longleftrightarrow> c \<in> {Stopped_seen, Running_seen, Last, Last_locked, Terminating, Stopping, Polling, Finishing, Resetting, Leaving}"

definition quiet :: "caller \<Rightarrow> bool" where
  "quiet c \<longleftrightarrow> c \<in> {Idle, Holding}"

definition others :: "(caller \<Rightarrow> bool) \<Rightarrow> nat \<Rightarrow> caller list \<Rightarrow> bool" where
  "others P t cs \<longleftrightarrow> (\<forall>i < length cs. i \<noteq> t \<longrightarrow> P (cs ! i))"

definition allowed :: "event \<Rightarrow> 'i Threads \<Rightarrow> bool" where
  "allowed e s = (case e of Loop \<Rightarrow> True
     | Caller t \<Rightarrow> t < length (th_callers s) \<and>
         (if th_callers s ! t = Holding \<or> dropping (th_callers s ! t) then others quiet t (th_callers s)
          else list_all (\<lambda>c. \<not> dropping c) (th_callers s)))"

inductive threads_step :: "'i IoOps \<Rightarrow> 'i Threads \<Rightarrow> 'i Threads \<Rightarrow> bool" for IO where
  event: "allowed e s \<Longrightarrow> threads_step IO s (event_step IO e s)"

definition threads_init :: "'i IoOps \<Rightarrow> 'i Threads \<Rightarrow> bool" where
  "threads_init IO s \<longleftrightarrow> (\<exists>name n. s = new_threads IO name n)"

text \<open>The invariant.  \<open>runCounter\<close> counts the callers between their increment and their decrement.  The manager is at
  rest; or one caller is about to start the thread; or the thread runs and somebody holds a handle; or a caller is
  dropping a handle, the last one if it has got past its decrement.\<close>

definition counted :: "caller \<Rightarrow> bool" where
  "counted c \<longleftrightarrow> c \<in> {Counted, Claimed, Launching, Spawning, Busy, Testing, Waiting, Retrying, Holding, Running_seen}"

definition count_calls :: "caller list \<Rightarrow> int" where
  "count_calls cs = int (length (filter counted cs))"

definition usable :: "'i IoOps \<Rightarrow> 'i AsioContextManager \<Rightarrow> bool" where
  "usable IO m \<longleftrightarrow> \<not> cm_terminateLoop m \<and> \<not> io_stopped IO (cm_ictx m)"

definition loops :: "'i AsioContextManager \<Rightarrow> bool" where
  "loops m \<longleftrightarrow> cm_running m \<noteq> stopped \<and> cm_thread m \<in> {At_test, In_run}"

definition resting :: "'i IoOps \<Rightarrow> 'i AsioContextManager \<Rightarrow> caller list \<Rightarrow> bool" where
  "resting IO m cs \<longleftrightarrow> usable IO m \<and> cm_running m = stopped \<and> cm_thread m \<in> {No_thread, Finished} \<and> \<not> cm_nullwork m \<and>
     set cs \<subseteq> {Idle, Counted}"

definition following :: "caller \<Rightarrow> bool" where
  "following c \<longleftrightarrow> c \<in> {Idle, Counted, Busy, Testing, Holding}"

definition launching :: "'i IoOps \<Rightarrow> nat \<Rightarrow> 'i AsioContextManager \<Rightarrow> caller list \<Rightarrow> bool" where
  "launching IO t m cs \<longleftrightarrow> usable IO m \<and> cm_running m \<noteq> stopped \<and> cm_thread m \<in> {No_thread, Finished} \<and>
     cs ! t \<in> {Claimed, Launching, Spawning} \<and> (cs ! t = Spawning \<longrightarrow> cm_nullwork m \<and> cm_loopRet m) \<and>
     others following t cs"

definition looping :: "'i IoOps \<Rightarrow> 'i AsioContextManager \<Rightarrow> caller list \<Rightarrow> bool" where
  "looping IO m cs \<longleftrightarrow> usable IO m \<and> loops m \<and> cm_nullwork m \<and> cm_loopRet m \<and> Holding \<in> set cs \<and> list_all following cs"

definition leaving :: "'i IoOps \<Rightarrow> nat \<Rightarrow> 'i AsioContextManager \<Rightarrow> caller list \<Rightarrow> bool" where
  "leaving IO t m cs \<longleftrightarrow> usable IO m \<and> loops m \<and> cm_nullwork m \<and> cm_loopRet m \<and> cs ! t = Running_seen \<and>
     others quiet t cs"

fun halt_stage :: "'i IoOps \<Rightarrow> 'i AsioContextManager \<Rightarrow> caller \<Rightarrow> bool" where
  "halt_stage IO m Last \<longleftrightarrow> usable IO m \<and> cm_nullwork m \<and> cm_loopRet m"
| "halt_stage IO m Last_locked \<longleftrightarrow> usable IO m \<and> cm_nullwork m \<and> cm_loopRet m"
| "halt_stage IO m Terminating \<longleftrightarrow> cm_loopRet m"
| "halt_stage IO m Stopping \<longleftrightarrow> \<not> cm_nullwork m \<and> cm_loopRet m"
| "halt_stage IO m Polling \<longleftrightarrow> \<not> cm_nullwork m \<and> cm_loopRet m"
| "halt_stage IO m Finishing \<longleftrightarrow> \<not> cm_nullwork m \<and> cm_thread m = Finished"
| "halt_stage IO m Resetting \<longleftrightarrow> \<not> cm_nullwork m \<and> cm_thread m = Finished"
| "halt_stage IO m Leaving \<longleftrightarrow> \<not> cm_nullwork m \<and> cm_thread m = Finished \<and> \<not> io_stopped IO (cm_ictx m)"
| "halt_stage IO m _ \<longleftrightarrow> False"

definition halting :: "'i IoOps \<Rightarrow> nat \<Rightarrow> 'i AsioContextManager \<Rightarrow> caller list \<Rightarrow> bool" where
  "halting IO t m cs \<longleftrightarrow> (loops m \<or> cm_running m = stopped \<and> cm_thread m = Finished) \<and>
     halt_stage IO m (cs ! t) \<and> others (\<lambda>c. c = Idle) t cs"

definition threads_mode :: "'i IoOps \<Rightarrow> 'i AsioContextManager \<Rightarrow> caller list \<Rightarrow> bool" where
  "threads_mode IO m cs \<longleftrightarrow> resting IO m cs \<or> looping IO m cs \<or>
     (\<exists>t < length cs. launching IO t m cs \<or> leaving IO t m cs \<or> halting IO t m cs)"

definition threads_inv :: "'i IoOps \<Rightarrow> 'i Threads \<Rightarrow> bool" where
  "threads_inv IO s \<longleftrightarrow> cm_runCounter (th_manager s) = count_calls (th_callers s) \<and>
     threads_mode IO (th_manager s) (th_callers s)"

lemma count_calls_update:
  "t < length cs \<Longrightarrow> count_calls (cs[t := c]) = count_calls cs - of_bool (counted (cs ! t)) + of_bool (counted c)"
proof (induction cs arbitrary: t)
  case (Cons a cs)
  then show ?case by (cases t) (auto simp: count_calls_def)
qed simp

lemma count_calls_pos: "c \<in> set cs \<Longrightarrow> counted c \<Longrightarrow> 0 < count_calls cs"
  by (auto simp: count_calls_def filter_empty_conv)

lemma count_calls_0: "others (\<lambda>c. \<not> counted c) t cs \<Longrightarrow> \<not> counted (cs ! t) \<Longrightarrow> count_calls cs = 0"
  by (auto simp: count_calls_def filter_empty_conv others_def in_set_conv_nth)

lemma others_update [simp]: "others P t (cs[t := c]) = others P t cs"
  by (simp add: others_def)

lemma others_mono: "others P t cs \<Longrightarrow> (\<And>c. P c \<Longrightarrow> Q c) \<Longrightarrow> others Q t cs"
  by (simp add: others_def)

lemma others_other:
  assumes "others P l cs" "t < length cs" "t \<noteq> l" "P c"
  shows "P (cs ! t)" "others P l (cs[t := c])" "cs[t := c] ! l = cs ! l"
  using assms by (auto simp: others_def nth_list_update)

lemma list_all_others: "t < length cs \<Longrightarrow> list_all P cs \<longleftrightarrow> P (cs ! t) \<and> others P t cs"
  unfolding others_def list_all_length by metis

lemmas mode_defs = resting_def looping_def launching_def leaving_def halting_def usable_def loops_def

text \<open>The thread.\<close>

lemma loop_step_fields [simp]:
  "cm_runCounter (loop_step IO m) = cm_runCounter m" "cm_nullwork (loop_step IO m) = cm_nullwork m"
  "cm_loopRet (loop_step IO m) = cm_loopRet m" "cm_terminateLoop (loop_step IO m) = cm_terminateLoop m"
  by (auto simp: loop_step_def split: loop_thread.split)

lemma loop_step_idle: "cm_thread m \<in> {No_thread, Finished} \<Longrightarrow> loop_step IO m = m"
  by (auto simp: loop_step_def)

lemma loop_step_usable: "io_laws IO \<Longrightarrow> usable IO m \<Longrightarrow> cm_nullwork m \<Longrightarrow> usable IO (loop_step IO m)"
  by (auto simp: loop_step_def usable_def getBaseContext_def io_laws_def split: loop_thread.split)

lemma loop_step_loops: "loops m \<Longrightarrow> usable IO m \<Longrightarrow> 0 < cm_runCounter m \<Longrightarrow> loops (loop_step IO m)"
  by (auto simp: loop_step_def loops_def usable_def split: loop_thread.split)

lemma loop_step_ends:
  "loops m \<or> cm_running m = stopped \<and> cm_thread m = Finished \<Longrightarrow>
     loops (loop_step IO m) \<or> cm_running (loop_step IO m) = stopped \<and> cm_thread (loop_step IO m) = Finished"
  by (auto simp: loop_step_def loops_def split: loop_thread.split)

lemma loop_mode_inv:
  assumes "io_laws IO" "threads_inv IO s"
  shows "threads_inv IO (event_step IO Loop s)"
proof -
  let ?m = "th_manager s" and ?cs = "th_callers s"
  have n: "cm_runCounter ?m = count_calls ?cs" using assms(2) by (simp add: threads_inv_def)
  have stage: "halt_stage IO (loop_step IO ?m) c" if "halt_stage IO ?m c" for c
    using that assms(1) loop_step_usable[of IO ?m] loop_step_idle[of ?m IO]
    by (cases c) auto
  from assms(2) consider "cm_thread ?m \<in> {No_thread, Finished}" | "looping IO ?m ?cs"
    | t where "t < length ?cs" "leaving IO t ?m ?cs" | t where "t < length ?cs" "halting IO t ?m ?cs"
    by (auto simp: threads_inv_def threads_mode_def resting_def launching_def)
  then have "threads_mode IO (loop_step IO ?m) ?cs"
  proof cases
    case 1
    then show ?thesis using assms(2) by (simp add: threads_inv_def loop_step_idle)
  next
    case 2
    then have "0 < cm_runCounter ?m" using n count_calls_pos[of Holding ?cs] by (simp add: looping_def counted_def)
    with 2 loop_step_usable[OF assms(1), of ?m] loop_step_loops[of ?m IO] show ?thesis
      by (simp add: threads_mode_def looping_def)
  next
    case 3
    then have "0 < cm_runCounter ?m"
      using n count_calls_pos[of Running_seen ?cs] nth_mem[of t ?cs] by (simp add: leaving_def counted_def)
    with 3 loop_step_usable[OF assms(1), of ?m] loop_step_loops[of ?m IO] show ?thesis
      by (auto simp: threads_mode_def leaving_def)
  next
    case 4
    then show ?thesis using loop_step_ends[of ?m IO] stage by (auto simp: threads_mode_def halting_def)
  qed
  with n show ?thesis by (simp add: threads_inv_def event_step_def)
qed

text \<open>The callers.  Outside the modes of a drop, only the holder of a handle can begin one.\<close>

lemma caller_counts:
  assumes "cm_runCounter (th_manager s) = count_calls (th_callers s)" "t < length (th_callers s)"
    and "th_callers s ! t \<noteq> Stopped_seen" "th_callers s ! t = Holding \<longrightarrow> isRunning (th_manager s)"
  shows "cm_runCounter (th_manager (caller_step IO t s)) = count_calls (th_callers (caller_step IO t s))"
  using assms by (cases "th_callers s ! t") (simp_all add: caller_step_def go_def acquire_def release_def Let_def
      count_calls_update counted_def)

lemma resting_call:
  assumes "resting IO (th_manager s) (th_callers s)" "t < length (th_callers s)"
  shows "threads_mode IO (th_manager (caller_step IO t s)) (th_callers (caller_step IO t s))"
proof -
  let ?cs = "th_callers s"
  have "?cs ! t = Idle \<or> ?cs ! t = Counted" using assms nth_mem[of t ?cs] unfolding resting_def by blast
  then show ?thesis
  proof
    assume "?cs ! t = Idle"
    moreover have "set (?cs[t := Counted]) \<subseteq> {Idle, Counted}"
      using assms(1) set_update_subset_insert[of ?cs t Counted] by (auto simp: resting_def)
    ultimately show ?thesis using assms(1)
      by (simp add: threads_mode_def resting_def usable_def caller_step_def go_def Let_def)
  next
    assume pc: "?cs ! t = Counted"
    have "others following t ?cs" using assms(1) by (auto simp: resting_def others_def following_def dest!: nth_mem)
    then have "launching IO t (th_manager (caller_step IO t s)) (th_callers (caller_step IO t s))"
      using assms pc by (simp add: launching_def resting_def usable_def caller_step_def go_def Let_def)
    then show ?thesis using assms(2) by (auto simp: threads_mode_def caller_step_def go_def pc Let_def)
  qed
qed

text \<open>A caller that follows one who launches finds the context in use and gets its handle without touching it.\<close>

lemma following_call:
  assumes "th_callers s ! t \<in> {Idle, Counted, Busy, Testing}" "cm_running (th_manager s) \<noteq> stopped"
    "usable IO (th_manager s)"
  shows "\<exists>c n. following c \<and> th_callers (caller_step IO t s) = (th_callers s)[t := c] \<and>
    th_manager (caller_step IO t s) = (th_manager s)\<lparr>cm_runCounter := n\<rparr>"
proof -
  let ?cs = "th_callers s" and ?m = "th_manager s"
  have same: "?m\<lparr>cm_runCounter := cm_runCounter ?m\<rparr> = ?m" by simp
  consider "?cs ! t = Idle" | "?cs ! t = Counted" | "?cs ! t = Busy" "th_lock s = None"
    | "?cs ! t = Busy" "th_lock s \<noteq> None" | "?cs ! t = Testing"
    using assms(1) by blast
  then show ?thesis
  proof cases
    case 1
    then show ?thesis
      by (intro exI[of _ Counted] exI[of _ "cm_runCounter ?m + 1"]) (simp add: caller_step_def go_def following_def Let_def)
  next
    case 2
    then show ?thesis using assms(2)
      by (intro exI[of _ Busy] exI[of _ "cm_runCounter ?m"]) (simp add: caller_step_def go_def following_def Let_def)
  next
    case 3
    then show ?thesis
      by (intro exI[of _ Testing] exI[of _ "cm_runCounter ?m"])
        (simp add: caller_step_def acquire_def go_def following_def Let_def)
  next
    case 4
    have "?cs = ?cs[t := Busy]" using 4(1) by (metis list_update_id)
    moreover have "caller_step IO t s = s" using 4 by (auto simp: caller_step_def acquire_def Let_def)
    ultimately show ?thesis
      by (intro exI[of _ Busy] exI[of _ "cm_runCounter ?m"]) (simp only: same following_def, simp)
  next
    case 5
    then show ?thesis using assms(3)
      by (intro exI[of _ Holding] exI[of _ "cm_runCounter ?m"])
        (simp add: caller_step_def release_def go_def following_def usable_def getBaseContext_def Let_def)
  qed
qed

lemma mode_ignores_count [simp]:
  "usable IO (m\<lparr>cm_runCounter := n\<rparr>) = usable IO m" "loops (m\<lparr>cm_runCounter := n\<rparr>) = loops m"
  by (simp_all add: usable_def loops_def)

lemma launching_call:
  assumes "launching IO l (th_manager s) (th_callers s)" "l < length (th_callers s)" "allowed (Caller t) s"
  shows "threads_mode IO (th_manager (caller_step IO t s)) (th_callers (caller_step IO t s))"
proof -
  let ?cs = "th_callers s" and ?m = "th_manager s"
  have t: "t < length ?cs" using assms(3) by (simp add: allowed_def)
  note l = assms(1)[unfolded launching_def]
  show ?thesis
  proof (cases "t = l")
    case False
    have "\<not> quiet (?cs ! l)" using l by (auto simp: quiet_def)
    then have "\<not> others quiet t ?cs" using assms(2) False unfolding others_def by blast
    then have "?cs ! t \<noteq> Holding" using assms(3) by (simp add: allowed_def split: if_splits)
    moreover have "following (?cs ! t)" using l t False by (simp add: others_def)
    ultimately have "?cs ! t \<in> {Idle, Counted, Busy, Testing}" by (auto simp: following_def)
    from following_call[OF this] l obtain c n where c: "following c" "th_callers (caller_step IO t s) = ?cs[t := c]"
        "th_manager (caller_step IO t s) = ?m\<lparr>cm_runCounter := n\<rparr>" by blast
    have "others following l (?cs[t := c])" using others_other(2)[of following l ?cs t c] l t False c(1) by simp
    moreover have "?cs[t := c] ! l = ?cs ! l" using False by simp
    ultimately have "launching IO l (?m\<lparr>cm_runCounter := n\<rparr>) (?cs[t := c])" using l by (simp add: launching_def)
    then show ?thesis using assms(2) unfolding c threads_mode_def by (metis length_list_update)
  next
    case True
    then consider "?cs ! t = Claimed" | "?cs ! t = Launching" | "?cs ! t = Spawning" using l by blast
    then show ?thesis
    proof cases
      case 1
      with l True t have "launching IO t (th_manager (caller_step IO t s)) (th_callers (caller_step IO t s))"
        by (simp add: launching_def caller_step_def acquire_def go_def Let_def)
      then show ?thesis using t by (auto simp: threads_mode_def caller_step_def acquire_def go_def 1 Let_def)
    next
      case 2
      with l True t have "launching IO t (th_manager (caller_step IO t s)) (th_callers (caller_step IO t s))"
        by (simp add: launching_def usable_def caller_step_def release_def go_def Let_def)
      then show ?thesis using t by (auto simp: threads_mode_def caller_step_def release_def go_def 2 Let_def)
    next
      case 3
      have "list_all following (?cs[t := Holding])"
        using l True t list_all_others[of t "?cs[t := Holding]" following] by (simp add: following_def)
      moreover have "Holding \<in> set (?cs[t := Holding])" using t by (rule set_update_memI)
      ultimately show ?thesis using l True 3
        by (simp add: threads_mode_def looping_def usable_def loops_def caller_step_def go_def Let_def)
    qed
  qed
qed

lemma looping_call:
  assumes "looping IO (th_manager s) (th_callers s)" "allowed (Caller t) s"
  shows "threads_mode IO (th_manager (caller_step IO t s)) (th_callers (caller_step IO t s))"
proof -
  let ?cs = "th_callers s" and ?m = "th_manager s"
  have t: "t < length ?cs" using assms(2) by (simp add: allowed_def)
  note l = assms(1)[unfolded looping_def]
  show ?thesis
  proof (cases "?cs ! t = Holding")
    case True
    then have "others quiet t ?cs" using assms(2) by (simp add: allowed_def)
    with l True t have "leaving IO t (th_manager (caller_step IO t s)) (th_callers (caller_step IO t s))"
      by (simp add: leaving_def loops_def isRunning_def caller_step_def go_def Let_def)
    then show ?thesis using t l by (auto simp: threads_mode_def loops_def isRunning_def caller_step_def go_def True Let_def)
  next
    case False
    moreover have "following (?cs ! t)" using l t by (simp add: list_all_length)
    ultimately have "?cs ! t \<in> {Idle, Counted, Busy, Testing}" by (auto simp: following_def)
    from following_call[OF this, of IO] l obtain c n where c: "following c" "th_callers (caller_step IO t s) = ?cs[t := c]"
        "th_manager (caller_step IO t s) = ?m\<lparr>cm_runCounter := n\<rparr>" unfolding loops_def by blast
    obtain i where "i < length ?cs" "?cs ! i = Holding" using l by (auto simp: in_set_conv_nth)
    then have "Holding \<in> set (?cs[t := c])" using False by (metis length_list_update nth_list_update_neq nth_mem)
    moreover have "list_all following (?cs[t := c])"
      using l t c(1) by (simp add: list_all_length nth_list_update)
    ultimately show ?thesis using l c by (simp add: threads_mode_def looping_def)
  qed
qed

text \<open>While a handle is dropped only its caller moves.\<close>

lemma dropping_moves:
  assumes "allowed (Caller t) s" "l < length (th_callers s)" "dropping (th_callers s ! l)"
  shows "t = l"
proof (rule ccontr)
  assume "t \<noteq> l"
  moreover have "\<not> quiet (th_callers s ! l)" using assms(3) by (auto simp: dropping_def quiet_def)
  ultimately have "\<not> others quiet t (th_callers s)" using assms(2) by (auto simp: others_def)
  moreover have "\<not> list_all (\<lambda>c. \<not> dropping c) (th_callers s)" using assms(2,3) unfolding list_all_length by blast
  ultimately show False using assms(1) by (simp add: allowed_def split: if_splits)
qed

lemma leaving_call:
  assumes "leaving IO t (th_manager s) (th_callers s)" "t < length (th_callers s)"
    and "cm_runCounter (th_manager s) = count_calls (th_callers s)"
  shows "threads_mode IO (th_manager (caller_step IO t s)) (th_callers (caller_step IO t s))"
proof -
  let ?cs = "th_callers s" and ?m = "th_manager s"
  let ?n = "cm_runCounter ?m - 1"
  note l = assms(1)[unfolded leaving_def]
  have n: "?n = count_calls (?cs[t := c])" if "\<not> counted c" for c
  proof -
    have "?cs ! t = Running_seen" using l by blast
    then have "counted (?cs ! t)" by (simp add: counted_def)
    with count_calls_update[OF assms(2), of c] assms(3) that show ?thesis by simp
  qed
  show ?thesis
  proof (cases "?n \<le> 0")
    case True
    have "?cs ! i = Idle" if "i < length ?cs" "i \<noteq> t" for i
    proof (rule ccontr)
      assume "?cs ! i \<noteq> Idle"
      then have "?cs[t := Last] ! i = Holding" using l that by (auto simp: others_def quiet_def)
      then have "Holding \<in> set (?cs[t := Last])" using that(1) by (metis length_list_update nth_mem)
      then show False using count_calls_pos[of Holding "?cs[t := Last]"] n[of Last] True by (simp add: counted_def)
    qed
    then have "others (\<lambda>c. c = Idle) t ?cs" by (simp add: others_def)
    then have "halting IO t (th_manager (caller_step IO t s)) (th_callers (caller_step IO t s))"
      using l True assms(2) by (simp add: halting_def caller_step_def go_def Let_def)
    then show ?thesis using assms(2) l by (auto simp: threads_mode_def caller_step_def go_def Let_def)
  next
    case False
    with n[of Idle] have "0 < count_calls (?cs[t := Idle])" by (simp add: counted_def)
    then have "filter counted (?cs[t := Idle]) \<noteq> []" by (auto simp: count_calls_def)
    then obtain c where "c \<in> set (?cs[t := Idle])" "counted c" by (auto simp: filter_empty_conv)
    then obtain i where i: "i < length ?cs" "counted (?cs[t := Idle] ! i)"
      by (metis in_set_conv_nth length_list_update)
    then have "i \<noteq> t" by (auto simp: counted_def)
    with i l have "?cs[t := Idle] ! i = Holding" by (auto simp: others_def quiet_def counted_def)
    then have "Holding \<in> set (?cs[t := Idle])" using i(1) by (metis length_list_update nth_mem)
    moreover have "list_all following (?cs[t := Idle])"
      using l assms(2) list_all_others[of t "?cs[t := Idle]" following] others_mono[of quiet t ?cs following]
      by (auto simp: following_def quiet_def)
    ultimately show ?thesis using l False
      by (simp add: threads_mode_def looping_def caller_step_def go_def Let_def)
  qed
qed

lemma halting_call:
  assumes "io_laws IO" "halting IO t (th_manager s) (th_callers s)" "t < length (th_callers s)"
    and "cm_runCounter (th_manager s) = count_calls (th_callers s)"
  shows "threads_mode IO (th_manager (caller_step IO t s)) (th_callers (caller_step IO t s))"
proof -
  let ?cs = "th_callers s" and ?m = "th_manager s"
  note l = assms(2)[unfolded halting_def]
  have "?cs ! t \<noteq> Idle" "\<not> counted (?cs ! t)" using l by (cases "?cs ! t"; simp add: counted_def)+
  moreover have "others (\<lambda>c. \<not> counted c) t ?cs" by (rule others_mono[of "\<lambda>c. c = Idle"]) (use l in \<open>auto simp: counted_def\<close>)
  ultimately have n: "cm_runCounter ?m = 0" using assms(4) count_calls_0 by simp
  show ?thesis
  proof (cases "?cs ! t = Leaving")
    case True
    have "set (?cs[t := Idle]) \<subseteq> {Idle, Counted}"
      using l assms(3) by (auto simp: others_def in_set_conv_nth nth_list_update split: if_splits)
    then show ?thesis using l True
      by (auto simp: threads_mode_def resting_def usable_def loops_def caller_step_def go_def release_def Let_def)
  next
    case False
    have "halting IO t (th_manager (caller_step IO t s)) (th_callers (caller_step IO t s))"
      using l False n assms(1,3)
      by (cases "?cs ! t") (auto simp: halting_def usable_def loops_def caller_step_def go_def acquire_def release_def
          getBaseContext_def io_laws_def Let_def)
    moreover have "length (th_callers (caller_step IO t s)) = length ?cs"
      by (auto simp: caller_step_def go_def acquire_def release_def Let_def split: caller.split)
    ultimately show ?thesis using assms(3) by (auto simp: threads_mode_def)
  qed
qed

lemma threads_step_inv:
  assumes "io_laws IO" "threads_step IO s s'" "threads_inv IO s"
  shows "threads_inv IO s'"
  using assms(2)
proof cases
  case (event e)
  show ?thesis
  proof (cases e)
    case Loop
    then show ?thesis using event loop_mode_inv[OF assms(1,3)] by simp
  next
    case (Caller t)
    let ?cs = "th_callers s" and ?m = "th_manager s"
    have n: "cm_runCounter ?m = count_calls ?cs" using assms(3) by (simp add: threads_inv_def)
    have ok: "allowed (Caller t) s" and t: "t < length ?cs" using event Caller by (auto simp: allowed_def)
    have drops: "t = l" if "l < length ?cs" "leaving IO l ?m ?cs \<or> halting IO l ?m ?cs" for l
    proof -
      have "dropping (?cs ! l)"
        using that(2) by (cases "?cs ! l") (auto simp: leaving_def halting_def dropping_def)
      with dropping_moves[OF ok that(1)] show ?thesis .
    qed
    consider "resting IO ?m ?cs" | "looping IO ?m ?cs" | l where "l < length ?cs" "launching IO l ?m ?cs"
      | "leaving IO t ?m ?cs" | "halting IO t ?m ?cs"
      using assms(3) drops by (auto simp: threads_inv_def threads_mode_def)
    then have "threads_mode IO (th_manager (caller_step IO t s)) (th_callers (caller_step IO t s)) \<and>
        ?cs ! t \<noteq> Stopped_seen \<and> (?cs ! t = Holding \<longrightarrow> isRunning ?m)"
    proof cases
      case 1
      have "?cs ! t \<in> {Idle, Counted}" using 1 nth_mem[OF t] unfolding resting_def by blast
      then show ?thesis using resting_call[OF 1 t] by auto
    next
      case 2
      then show ?thesis using looping_call[OF 2 ok] t
        by (auto simp: looping_def loops_def isRunning_def list_all_length following_def)
    next
      case 3
      then show ?thesis using launching_call[OF 3(2,1) ok] t
        by (auto simp: launching_def isRunning_def others_def following_def)
    next
      case 4
      then show ?thesis using leaving_call[OF 4 t n] by (simp add: leaving_def)
    next
      case 5
      then show ?thesis using halting_call[OF assms(1) 5 t n] by (auto simp: halting_def)
    qed
    with caller_counts[OF n t] show ?thesis using event(1) Caller t by (simp add: threads_inv_def event_step_def)
  qed
qed

lemma threads_init_inv: "io_laws IO \<Longrightarrow> threads_init IO s \<Longrightarrow> threads_inv IO s"
  by (auto simp: threads_init_def new_threads_def new_manager_def threads_inv_def threads_mode_def resting_def
      usable_def io_laws_def count_calls_def counted_def filter_empty_conv)

interpretation threads: transition_system "threads_step IO" "\<lambda>s. io_laws IO \<and> threads_init IO s"
    "\<lambda>s. io_laws IO \<and> threads_inv IO s" for IO
  by unfold_locales (auto intro: threads_init_inv threads_step_inv)

lemma quiet_counts: "list_all quiet cs \<Longrightarrow> count_calls cs = int (count_list cs Holding)"
  by (induction cs) (auto simp: count_calls_def counted_def quiet_def)

lemma quiet_modes:
  assumes "threads_mode IO m cs" "list_all quiet cs"
  shows "Holding \<notin> set cs \<and> resting IO m cs \<or> Holding \<in> set cs \<and> looping IO m cs"
proof -
  have busy: "\<not> (launching IO t m cs \<or> leaving IO t m cs \<or> halting IO t m cs)" if "t < length cs" for t
  proof -
    have "cs ! t = Idle \<or> cs ! t = Holding" using assms(2) that by (auto simp: list_all_length quiet_def)
    then show ?thesis by (auto simp: launching_def leaving_def halting_def)
  qed
  then have "resting IO m cs \<or> looping IO m cs" using assms(1) unfolding threads_mode_def by blast
  moreover have "Holding \<notin> set cs" if "resting IO m cs" using that unfolding resting_def by blast
  ultimately show ?thesis unfolding looping_def by blast
qed

fun allowed_schedule :: "'i IoOps \<Rightarrow> event list \<Rightarrow> 'i Threads \<Rightarrow> bool" where
  "allowed_schedule IO [] s \<longleftrightarrow> True"
| "allowed_schedule IO (e # es) s \<longleftrightarrow> allowed e s \<and> allowed_schedule IO es (event_step IO e s)"

lemma schedule_steps: "allowed_schedule IO es s \<Longrightarrow> (threads_step IO)\<^sup>*\<^sup>* s (run_schedule IO es s)"
proof (induction es arbitrary: s)
  case (Cons e es)
  then have "threads_step IO s (event_step IO e s)" by (simp add: threads_step.event)
  with Cons show ?case by (simp add: converse_rtranclp_into_rtranclp)
qed simp

text \<open>C18: as long as no handle is dropped while another call is under way, the loop runs exactly while somebody holds a
  handle.  Any number of callers may take handles at the same time, with their accesses to the manager and those of
  the loop thread interleaved in any order: whenever no call is under way, there is a running thread and a work
  object if a handle exists, and neither when the last is gone, and \<open>runCounter\<close> is the number of handles.  A drop that
  overlaps a call that takes a handle is excluded, and has to be.\<close>

theorem loop_runs_while_held:
  assumes "io_laws IO" "threads_init IO s" "(threads_step IO)\<^sup>*\<^sup>* s s'" "list_all quiet (th_callers s')"
  shows "(isRunning (th_manager s') \<longleftrightarrow> Holding \<in> set (th_callers s')) \<and>
    (cm_thread (th_manager s') \<in> {At_test, In_run} \<longleftrightarrow> Holding \<in> set (th_callers s')) \<and>
    (cm_nullwork (th_manager s') \<longleftrightarrow> Holding \<in> set (th_callers s')) \<and>
    cm_runCounter (th_manager s') = int (count_list (th_callers s') Holding)"
proof -
  have "threads_inv IO s'" using threads.inv_reachable[of IO s s'] assms(1-3) by simp
  with quiet_modes[of IO "th_manager s'" "th_callers s'"] quiet_counts[OF assms(4)] assms(4) show ?thesis
    by (auto simp: threads_inv_def resting_def looping_def loops_def isRunning_def)
qed

text \<open>Two callers start together: the second counts itself before the first has claimed the loop, and has its handle
  before the thread is launched.\<close>

definition overlapping_starts :: "event list" where
  "overlapping_starts = [Caller 0, Caller 1, Caller 0, Caller 1, Caller 1, Caller 1, Caller 0, Caller 0, Loop, Caller 0, Loop]"

theorem loop_runs_while_held_witness:
  "let s = run_schedule sample_io overlapping_starts (new_threads sample_io [] 2) in
     th_callers s = [Holding, Holding] \<and> isRunning (th_manager s) \<and> cm_runCounter (th_manager s) = 2"
proof -
  let ?s = "run_schedule sample_io overlapping_starts (new_threads sample_io [] 2)"
  have "allowed_schedule sample_io overlapping_starts (new_threads sample_io [] 2)"
    by (simp add: overlapping_starts_def allowed_def others_def dropping_def quiet_def step_defs new_threads_def
        new_manager_def sample_io_def getBaseContext_def numeral_2_eq_2 less_Suc_eq Let_def)
  note steps = schedule_steps[OF this]
  have cs: "th_callers ?s = [Holding, Holding]"
    by (simp add: overlapping_starts_def step_defs new_threads_def new_manager_def sample_io_def getBaseContext_def
        numeral_2_eq_2 Let_def)
  have "threads_init sample_io (new_threads sample_io [] 2)" unfolding threads_init_def by blast
  from loop_runs_while_held[OF sample_io_laws this steps] cs show ?thesis by (simp add: quiet_def Let_def)
qed

section \<open>A start during a drop\<close>

text \<open>Caller 0 drops the last handle.  After its second look at \<open>runCounter\<close> caller 1 counts itself and finds the
  loop running, so it does not launch one but waits for the lock; when it gets it, caller 0 has ended the
  loop and made the context ready for another, and a context that is not stopped is taken for one that runs.\<close>

definition start_during_drop :: "event list" where
  "start_during_drop = [Caller 0, Caller 0, Caller 0, Caller 0, Caller 0, Loop,
     Caller 0, Caller 0, Caller 0, Caller 0,
     Caller 1, Caller 1, Caller 1,
     Caller 0, Caller 0, Loop, Loop, Caller 0, Caller 0, Caller 0, Caller 0,
     Caller 1, Caller 1]"

text \<open>C27: a call that takes a handle while another thread drops the last one can get a handle without a loop: there is
  a schedule of two callers, on every io context, after which one of them holds a handle, no call is under way, the
  lock is free and \<open>runCounter\<close> is 1, but no loop thread runs, nor will one unless a further handle is taken.\<close>

theorem start_during_drop_loses_loop:
  assumes "io_laws IO"
  shows "let s = run_schedule IO start_during_drop (new_threads IO name 2) in
    th_callers s = [Idle, Holding] \<and> th_lock s = None \<and> cm_runCounter (th_manager s) = 1 \<and>
    \<not> isRunning (th_manager s) \<and> \<not> cm_nullwork (th_manager s) \<and>
    (\<forall>k. run_schedule IO (replicate k Loop) s = s)"
proof -
  define s where "s = run_schedule IO start_during_drop (new_threads IO name 2)"
  have "th_callers s = [Idle, Holding] \<and> th_lock s = None \<and> cm_runCounter (th_manager s) = 1 \<and>
      cm_running (th_manager s) = stopped \<and> cm_thread (th_manager s) = Finished \<and> \<not> cm_nullwork (th_manager s)"
    using assms by (simp add: s_def start_during_drop_def step_defs new_threads_def new_manager_def loop_step_def io_laws_def
        isRunning_def getBaseContext_def numeral_2_eq_2 Let_def)
  moreover have "run_schedule IO (replicate k Loop) s = s" if "cm_thread (th_manager s) = Finished" for k
    using that by (induction k) (simp_all add: event_step_def loop_step_idle)
  ultimately show ?thesis by (simp add: s_def[symmetric] isRunning_def Let_def)
qed

theorem start_during_drop_loses_loop_witness:
  "\<not> isRunning (th_manager (run_schedule sample_io start_during_drop (new_threads sample_io [] 2)))"
  using start_during_drop_loses_loop[OF sample_io_laws, of "[]"] by (simp add: Let_def)

end
