(* ===== verification/Json_Access.thy ===== *)
theory Json_Access
  imports Exceptions C37118_Types
begin

text \<open>
  Access to JSON values (\<open>src/pmu/JsonProcessingFunctions.hpp\<close>, \<open>src/pmu/JsonProcessingFunctions.cpp\<close>).

  \<open>Json::Value\<close>, its reader and its writer belong to jsoncpp, which is not part of the repository: they are a parameter,
  the record \<open>Json\<close> over a type \<open>'j\<close> of values.  What the proofs rely on of it is \<open>json_laws\<close>, the documented behaviour of
  objects, arrays and scalars; \<open>sample_json\<close> is an instance.
\<close>

section \<open>Operations of jsoncpp\<close>

record 'j Json =
  js_null :: 'j
  js_array :: 'j \<comment> \<open>\<open>Json::arrayValue\<close>\<close>
  js_object :: 'j \<comment> \<open>\<open>Json::objectValue\<close>\<close>
  js_isMember :: "'j \<Rightarrow> string \<Rightarrow> exn + bool"
  js_get :: "'j \<Rightarrow> string \<Rightarrow> exn + 'j" \<comment> \<open>\<open>v[key]\<close> read\<close>
  js_set :: "'j \<Rightarrow> string \<Rightarrow> 'j \<Rightarrow> exn + 'j" \<comment> \<open>\<open>v[key] = x\<close>\<close>
  js_append :: "'j \<Rightarrow> 'j \<Rightarrow> exn + 'j"
  js_elems :: "'j \<Rightarrow> 'j list" \<comment> \<open>iteration\<close>
  js_at :: "'j \<Rightarrow> nat \<Rightarrow> exn + 'j" \<comment> \<open>\<open>v[i]\<close>\<close>
  js_isArray :: "'j \<Rightarrow> bool"
  js_isObject :: "'j \<Rightarrow> bool"
  js_isUInt :: "'j \<Rightarrow> bool"
  js_isString :: "'j \<Rightarrow> bool"
  js_isBool :: "'j \<Rightarrow> bool"
  js_asString :: "'j \<Rightarrow> exn + string"
  js_asInt :: "'j \<Rightarrow> exn + int"
  js_asInt64 :: "'j \<Rightarrow> exn + int"
  js_asUInt :: "'j \<Rightarrow> exn + u32"
  js_asBool :: "'j \<Rightarrow> exn + bool"
  js_asDouble :: "'j \<Rightarrow> exn + f64"
  js_asFloat :: "'j \<Rightarrow> exn + f32"
  js_string :: "string \<Rightarrow> 'j" \<comment> \<open>the constructors of \<open>Json::Value\<close>\<close>
  js_int :: "int \<Rightarrow> 'j"
  js_uint :: "u32 \<Rightarrow> 'j"
  js_double :: "f64 \<Rightarrow> 'j"
  js_parse :: "string \<Rightarrow> string + 'j" \<comment> \<open>\<open>reader->parse\<close>: the error text or the document\<close>
  js_write :: "'j \<Rightarrow> string"

section \<open>Helpers of the repository\<close>

definition getOrDefault :: "'j Json \<Rightarrow> ('j \<Rightarrow> exn + 'a) \<Rightarrow> 'j \<Rightarrow> string \<Rightarrow> 'a \<Rightarrow> exn + 'a" where
  "getOrDefault J conv element key defVal =
     attempt (js_isMember J element key) (\<lambda>m.
       if m then attempt (js_get J element key) conv else Inr defVal)"

definition generateJsonString :: "'j Json \<Rightarrow> 'j \<Rightarrow> string" where
  "generateJsonString J block = js_write J block"

definition JsonAsString :: "'j Json \<Rightarrow> 'j \<Rightarrow> exn + string" where
  "JsonAsString J element = (if js_isString J element then js_asString J element else Inr (generateJsonString J element))"

definition getOrDefault_string :: "'j Json \<Rightarrow> 'j \<Rightarrow> string \<Rightarrow> string \<Rightarrow> exn + string" where
  "getOrDefault_string J = getOrDefault J (JsonAsString J)"

definition getOrDefault_double :: "'j Json \<Rightarrow> 'j \<Rightarrow> string \<Rightarrow> f64 \<Rightarrow> exn + f64" where
  "getOrDefault_double J = getOrDefault J (js_asDouble J)"

definition getOrDefault_bool :: "'j Json \<Rightarrow> 'j \<Rightarrow> string \<Rightarrow> bool \<Rightarrow> exn + bool" where
  "getOrDefault_bool J = getOrDefault J (js_asBool J)"

definition getOrDefault_int64 :: "'j Json \<Rightarrow> 'j \<Rightarrow> string \<Rightarrow> int \<Rightarrow> exn + int" where
  "getOrDefault_int64 J = getOrDefault J (js_asInt64 J)"

text \<open>The callback acts on a state of its own.\<close>

definition callIfMember :: "'j Json \<Rightarrow> ('j \<Rightarrow> exn + 'a) \<Rightarrow> 'j \<Rightarrow> string \<Rightarrow> (string \<Rightarrow> 'a \<Rightarrow> 'x \<Rightarrow> 'x) \<Rightarrow> 'x \<Rightarrow> exn + bool \<times> 'x" where
  "callIfMember J conv element key call x =
     attempt (js_isMember J element key) (\<lambda>m.
       if m then attempt (js_get J element key) (\<lambda>v. attempt (conv v) (\<lambda>a. Inr (True, call key a x)))
       else Inr (False, x))"

definition callIfMember_bool :: "'j Json \<Rightarrow> 'j \<Rightarrow> string \<Rightarrow> (string \<Rightarrow> bool \<Rightarrow> 'x \<Rightarrow> 'x) \<Rightarrow> 'x \<Rightarrow> exn + bool \<times> 'x" where
  "callIfMember_bool J = callIfMember J (js_asBool J)"

definition callIfMember_int :: "'j Json \<Rightarrow> 'j \<Rightarrow> string \<Rightarrow> (string \<Rightarrow> int \<Rightarrow> 'x \<Rightarrow> 'x) \<Rightarrow> 'x \<Rightarrow> exn + bool \<times> 'x" where
  "callIfMember_int J = callIfMember J (js_asInt J)"

definition callIfMember_string :: "'j Json \<Rightarrow> 'j \<Rightarrow> string \<Rightarrow> (string \<Rightarrow> 'x \<Rightarrow> 'x) \<Rightarrow> 'x \<Rightarrow> exn + bool \<times> 'x" where
  "callIfMember_string J element key call = callIfMember J (js_asString J) element key (\<lambda>_. call)"

text \<open>\<open>replaceIfMember\<close>: the new value of the variable it is given.\<close>

definition replaceIfMember :: "'j Json \<Rightarrow> ('j \<Rightarrow> exn + 'a) \<Rightarrow> 'j \<Rightarrow> string \<Rightarrow> 'a \<Rightarrow> exn + 'a" where
  "replaceIfMember J conv element key val = getOrDefault J conv element key val"

definition replace_string :: "'j Json \<Rightarrow> 'j \<Rightarrow> string \<Rightarrow> string \<Rightarrow> exn + string" where
  "replace_string J = replaceIfMember J (js_asString J)"

definition replace_bool :: "'j Json \<Rightarrow> 'j \<Rightarrow> string \<Rightarrow> bool \<Rightarrow> exn + bool" where
  "replace_bool J = replaceIfMember J (js_asBool J)"

definition replace_int :: "'j Json \<Rightarrow> 'j \<Rightarrow> string \<Rightarrow> int \<Rightarrow> exn + int" where
  "replace_int J = replaceIfMember J (js_asInt J)"

definition replace_uint :: "'j Json \<Rightarrow> 'j \<Rightarrow> string \<Rightarrow> u32 \<Rightarrow> exn + u32" where
  "replace_uint J = replaceIfMember J (js_asUInt J)"

definition replace_int16 :: "'j Json \<Rightarrow> 'j \<Rightarrow> string \<Rightarrow> u16 \<Rightarrow> exn + u16" where
  "replace_int16 J = replaceIfMember J (\<lambda>v. attempt (js_asInt J v) (\<lambda>i. Inr (word_of_int i)))"

definition replace_double :: "'j Json \<Rightarrow> 'j \<Rightarrow> string \<Rightarrow> f64 \<Rightarrow> exn + f64" where
  "replace_double J = replaceIfMember J (js_asDouble J)"

definition replace_float :: "'j Json \<Rightarrow> 'j \<Rightarrow> string \<Rightarrow> f32 \<Rightarrow> exn + f32" where
  "replace_float J = replaceIfMember J (js_asFloat J)"

definition getName_json :: "'j Json \<Rightarrow> 'j \<Rightarrow> exn + string" where
  "getName_json J element =
     attempt (js_isMember J element ''key'') (\<lambda>m.
       if m then attempt (js_get J element ''key'') (js_asString J)
       else attempt (js_isMember J element ''name'') (\<lambda>m.
         if m then attempt (js_get J element ''name'') (js_asString J) else Inr []))"

text \<open>\<open>substr\<close> throws when the position is behind the end; the subtraction wraps around.\<close>

definition substr :: "string \<Rightarrow> nat \<Rightarrow> exn + string" where
  "substr s pos = (if pos \<le> length s then Inr (drop pos s) else Inl (out_of_range ''basic_string::substr''))"

definition hasJsonExtension :: "string \<Rightarrow> exn + bool" where
  "hasJsonExtension jsonString =
     attempt (substr jsonString (size_sub (length jsonString) 4)) (\<lambda>ext.
       Inr (ext = ''json'' \<or> ext = ''JSON'' \<or> ext = ''.jsn'' \<or> ext = ''.JSN''))"

definition loadJsonStr :: "'j Json \<Rightarrow> string \<Rightarrow> exn + 'j" where
  "loadJsonStr J jsonString = (case js_parse J jsonString of Inl errs \<Rightarrow> Inl (invalid_argument errs) | Inr doc \<Rightarrow> Inr doc)"

text \<open>\<open>files\<close> is the content of the files that can be opened.\<close>

definition loadJson :: "'j Json \<Rightarrow> (string \<rightharpoonup> string) \<Rightarrow> string \<Rightarrow> exn + 'j" where
  "loadJson J files jsonString =
     (case (if length jsonString > 128 then loadJsonStr J jsonString else Inl (invalid_argument [])) of
        Inr doc \<Rightarrow> Inr doc
      | Inl (invalid_argument _) \<Rightarrow>
          (case files jsonString of
             Some content \<Rightarrow>
               (case js_parse J content of Inl errs \<Rightarrow> Inl (invalid_argument errs) | Inr doc \<Rightarrow> Inr doc)
           | None \<Rightarrow> loadJsonStr J jsonString)
      | Inl e \<Rightarrow> Inl e)"

section \<open>Documented behaviour\<close>

definition json_object_laws :: "'j Json \<Rightarrow> bool" where
  "json_object_laws J \<longleftrightarrow>
     js_isObject J (js_object J) \<and> \<not> js_isObject J (js_null J) \<and>
     (\<forall>k. js_isMember J (js_object J) k = Inr False \<and> js_get J (js_object J) k = Inr (js_null J)) \<and>
     (\<forall>k. js_isMember J (js_null J) k = Inr False \<and> js_get J (js_null J) k = Inr (js_null J)) \<and>
     (\<forall>v k x. js_isObject J v \<or> v = js_null J \<longrightarrow> (\<exists>v'. js_set J v k x = Inr v' \<and> js_isObject J v' \<and>
        (\<forall>k'. js_isMember J v' k' = (if k' = k then Inr True else js_isMember J v k') \<and>
           js_get J v' k' = (if k' = k then Inr x else js_get J v k'))))"

definition json_array_laws :: "'j Json \<Rightarrow> bool" where
  "json_array_laws J \<longleftrightarrow>
     js_isArray J (js_array J) \<and> js_elems J (js_array J) = [] \<and> js_elems J (js_null J) = [] \<and>
     \<not> js_isArray J (js_null J) \<and> (\<forall>v. js_isObject J v \<longrightarrow> \<not> js_isArray J v) \<and>
     (\<forall>i. js_at J (js_null J) i = Inr (js_null J)) \<and>
     (\<forall>v x. js_isArray J v \<longrightarrow> (\<exists>v'. js_append J v x = Inr v' \<and> js_isArray J v' \<and> js_elems J v' = js_elems J v @ [x])) \<and>
     (\<forall>v i. js_isArray J v \<longrightarrow> js_at J v i = Inr (if i < length (js_elems J v) then js_elems J v ! i else js_null J))"

definition json_scalar_laws :: "'j Json \<Rightarrow> bool" where
  "json_scalar_laws J \<longleftrightarrow>
     (\<forall>s. js_asString J (js_string J s) = Inr s \<and> js_isString J (js_string J s) \<and> \<not> js_isUInt J (js_string J s)) \<and>
     (\<forall>i. - (2 ^ 31) \<le> i \<and> i < 2 ^ 31 \<longrightarrow> js_asInt J (js_int J i) = Inr i) \<and>
     (\<forall>w. js_asUInt J (js_uint J w) = Inr w \<and> js_isUInt J (js_uint J w) \<and> \<not> js_isBool J (js_uint J w) \<and>
        (uint w < 2 ^ 31 \<longrightarrow> js_asInt J (js_uint J w) = Inr (uint w)) \<and>
        (2 ^ 31 \<le> uint w \<longrightarrow> (\<exists>m. js_asInt J (js_uint J w) = Inl (json_error m)))) \<and>
     (\<forall>i. 0 \<le> i \<and> i < 2 ^ 31 \<longrightarrow> js_asUInt J (js_int J i) = Inr (word_of_int i) \<and> js_isUInt J (js_int J i)) \<and>
     (\<forall>i. \<not> js_isBool J (js_int J i)) \<and>
     (\<forall>d. js_asDouble J (js_double J d) = Inr d \<and> js_asFloat J (js_double J d) = Inr (f32_of_f64 d)) \<and>
     js_asDouble J (js_null J) = Inr 0 \<and> js_asString J (js_null J) = Inr []"

definition json_laws :: "'j Json \<Rightarrow> bool" where
  "json_laws J \<longleftrightarrow> json_object_laws J \<and> json_array_laws J \<and> json_scalar_laws J"

section \<open>An instance\<close>

datatype sample_value = SNull | SBool bool | SInt int | SUInt u32 | SReal f64 | SString string
  | SArray "sample_value list" | SObject "(string \<times> sample_value) list"

fun sample_member :: "sample_value \<Rightarrow> string \<Rightarrow> exn + bool" where
  "sample_member SNull k = Inr False"
| "sample_member (SObject kvs) k = Inr (map_of kvs k \<noteq> None)"
| "sample_member _ k = Inl (json_error ''isMember'')"

fun sample_get :: "sample_value \<Rightarrow> string \<Rightarrow> exn + sample_value" where
  "sample_get SNull k = Inr SNull"
| "sample_get (SObject kvs) k = Inr (case map_of kvs k of None \<Rightarrow> SNull | Some v \<Rightarrow> v)"
| "sample_get _ k = Inl (json_error ''operator[]'')"

fun sample_set :: "sample_value \<Rightarrow> string \<Rightarrow> sample_value \<Rightarrow> exn + sample_value" where
  "sample_set SNull k x = Inr (SObject [(k, x)])"
| "sample_set (SObject kvs) k x = Inr (SObject ((k, x) # kvs))"
| "sample_set _ k x = Inl (json_error ''operator[]'')"

fun sample_append :: "sample_value \<Rightarrow> sample_value \<Rightarrow> exn + sample_value" where
  "sample_append SNull x = Inr (SArray [x])"
| "sample_append (SArray xs) x = Inr (SArray (xs @ [x]))"
| "sample_append _ x = Inl (json_error ''append'')"

fun sample_elems :: "sample_value \<Rightarrow> sample_value list" where
  "sample_elems (SArray xs) = xs"
| "sample_elems (SObject kvs) = map snd kvs"
| "sample_elems _ = []"

fun sample_at :: "sample_value \<Rightarrow> nat \<Rightarrow> exn + sample_value" where
  "sample_at SNull i = Inr SNull"
| "sample_at (SArray xs) i = Inr (if i < length xs then xs ! i else SNull)"
| "sample_at _ i = Inl (json_error ''operator[]'')"

fun sample_int :: "sample_value \<Rightarrow> exn + int" where
  "sample_int (SInt i) = (if - (2 ^ 31) \<le> i \<and> i < 2 ^ 31 then Inr i else Inl (json_error ''out of Int range''))"
| "sample_int (SUInt w) = (if uint w < 2 ^ 31 then Inr (uint w) else Inl (json_error ''out of Int range''))"
| "sample_int SNull = Inr 0"
| "sample_int _ = Inl (json_error ''not convertible to Int'')"

fun sample_uint :: "sample_value \<Rightarrow> exn + u32" where
  "sample_uint (SInt i) = (if 0 \<le> i then Inr (word_of_int i) else Inl (json_error ''out of UInt range''))"
| "sample_uint (SUInt w) = Inr w"
| "sample_uint SNull = Inr 0"
| "sample_uint _ = Inl (json_error ''not convertible to UInt'')"

fun sample_double :: "sample_value \<Rightarrow> exn + f64" where
  "sample_double (SReal d) = Inr d"
| "sample_double (SInt i) = Inr (f64_of_int i)"
| "sample_double (SUInt w) = Inr (f64_of_int (uint w))"
| "sample_double SNull = Inr 0"
| "sample_double _ = Inl (json_error ''not convertible to double'')"

fun sample_string :: "sample_value \<Rightarrow> exn + string" where
  "sample_string (SString s) = Inr s"
| "sample_string SNull = Inr []"
| "sample_string _ = Inl (json_error ''not convertible to string'')"

fun sample_bool :: "sample_value \<Rightarrow> exn + bool" where
  "sample_bool (SBool b) = Inr b"
| "sample_bool SNull = Inr False"
| "sample_bool _ = Inl (json_error ''not convertible to bool'')"

definition sample_json :: "sample_value Json" where
  "sample_json = \<lparr>js_null = SNull, js_array = SArray [], js_object = SObject [], js_isMember = sample_member,
     js_get = sample_get, js_set = sample_set, js_append = sample_append, js_elems = sample_elems, js_at = sample_at,
     js_isArray = (\<lambda>v. case v of SArray _ \<Rightarrow> True | _ \<Rightarrow> False),
     js_isObject = (\<lambda>v. case v of SObject _ \<Rightarrow> True | _ \<Rightarrow> False),
     js_isUInt = (\<lambda>v. case v of SUInt _ \<Rightarrow> True | SInt i \<Rightarrow> 0 \<le> i | _ \<Rightarrow> False),
     js_isString = (\<lambda>v. case v of SString _ \<Rightarrow> True | _ \<Rightarrow> False),
     js_isBool = (\<lambda>v. case v of SBool _ \<Rightarrow> True | _ \<Rightarrow> False),
     js_asString = sample_string, js_asInt = sample_int, js_asInt64 = sample_int, js_asUInt = sample_uint,
     js_asBool = sample_bool, js_asDouble = sample_double,
     js_asFloat = (\<lambda>v. attempt (sample_double v) (\<lambda>d. Inr (f32_of_f64 d))), js_string = SString, js_int = SInt,
     js_uint = SUInt, js_double = SReal, js_parse = (\<lambda>s. Inl ''not supported''), js_write = (\<lambda>v. [])\<rparr>"

lemma sample_json_laws: "json_laws sample_json"
proof -
  have "json_object_laws sample_json"
    by (auto simp: json_object_laws_def sample_json_def split: sample_value.split)
  moreover have "json_array_laws sample_json"
    by (simp add: json_array_laws_def sample_json_def split: sample_value.split)
  moreover have "json_scalar_laws sample_json"
    by (auto simp: json_scalar_laws_def sample_json_def)
  ultimately show ?thesis by (simp add: json_laws_def)
qed

end
