(* ===== verification/Json_Config.thy ===== *)
theory Json_Config
  imports Json_Access Float_Facts
begin

text \<open>
  Configurations as JSON (\<open>src/pmu/configure.cpp\<close>): what \<open>loadConfig\<close> makes of a document and what \<open>writeConfig\<close>
  writes.  An \<open>int\<close> is an \<open>int\<close> in the range of the accessors of jsoncpp; a narrowing \<open>static_cast\<close> is \<open>word_of_int\<close>.
  A local \<open>PmuConfig\<close> or \<open>Config\<close> starts with some members indeterminate, for which \<open>default_PmuConfig\<close> and
  \<open>default_Config\<close> have zeros.
\<close>

section \<open>Loading\<close>

text \<open>\<open>std::to_string\<close> of an \<open>int\<close>.\<close>

fun digits :: "nat \<Rightarrow> string" where
  "digits n = (if n < 10 then [char_of (48 + n)] else digits (n div 10) @ [char_of (48 + n mod 10)])"

declare digits.simps [simp del]

definition to_string :: "int \<Rightarrow> string" where
  "to_string i = (if i < 0 then CHR ''-'' # digits (nat (- i)) else digits (nat i))"

text \<open>The names \<open>name\<close>, \<open>name-A\<close> ... or \<open>name-1\<close> ... of \<open>cnt\<close> channels.\<close>

definition phasor_channels :: "string \<Rightarrow> int \<Rightarrow> string list" where
  "phasor_channels name cnt =
     (if cnt = 1 then [name]
      else if cnt = 3 then [name @ ''-A'', name @ ''-B'', name @ ''-C'']
      else if cnt = 4 then [name @ ''-A'', name @ ''-B'', name @ ''-C'', name @ ''-N'']
      else map (\<lambda>ii. (name @ ''-'') @ to_string ii) [1..cnt])"

definition add_phasor :: "PhasorType \<Rightarrow> int \<Rightarrow> string \<Rightarrow> PmuConfig \<Rightarrow> PmuConfig" where
  "add_phasor t scale name pmu = pmu\<lparr>pc_phasorNames := pc_phasorNames pmu @ [name],
     pc_phasorType := pc_phasorType pmu @ [t],
     pc_phasorConversion := pc_phasorConversion pmu @ [word_of_int scale]\<rparr>"

definition phasor_type_json :: "'j Json \<Rightarrow> 'j \<Rightarrow> exn + PhasorType" where
  "phasor_type_json J phz =
     attempt (js_isMember J phz ''type'') (\<lambda>m.
       if \<not> m then Inr PhT_voltage
       else attempt (js_get J phz ''type'') (\<lambda>t.
         if js_isUInt J t then attempt (js_asUInt J t) (\<lambda>w. Inr (phasor_type_of (ucast w)))
         else if js_isString J t then attempt (js_asString J t) (\<lambda>typeString.
           Inr (if typeString \<noteq> ''voltage'' then PhT_current else PhT_voltage))
         else Inr PhT_voltage))"

definition insertPhasorConfig :: "'j Json \<Rightarrow> 'j \<Rightarrow> PmuConfig \<Rightarrow> exn + PmuConfig" where
  "insertPhasorConfig J phz pmu =
     attempt (js_get J phz ''name'') (\<lambda>nm.
     attempt (js_asString J nm) (\<lambda>name.
     attempt (replace_int J phz ''count'' 1) (\<lambda>cnt.
     attempt (phasor_type_json J phz) (\<lambda>t.
     attempt (replace_int J phz ''scale'' 0) (\<lambda>scale.
       Inr (fold (add_phasor t scale) (phasor_channels name cnt) pmu))))))"

definition analog_channels :: "string \<Rightarrow> int \<Rightarrow> string list" where
  "analog_channels name cnt =
     (if cnt = 1 then [name] else map (\<lambda>ii. (name @ ''-'') @ to_string ii) [1..cnt])"

definition add_analog :: "AnalogType \<Rightarrow> int \<Rightarrow> string \<Rightarrow> PmuConfig \<Rightarrow> PmuConfig" where
  "add_analog t scale name pmu = pmu\<lparr>pc_analogNames := pc_analogNames pmu @ [name],
     pc_analogType := pc_analogType pmu @ [t],
     pc_analogConversion := pc_analogConversion pmu @ [word_of_int scale]\<rparr>"

text \<open>The chain of conditionals of the source, as it stands.\<close>

definition analog_type_of_name :: "string \<Rightarrow> AnalogType" where
  "analog_type_of_name typeString =
     (if typeString \<noteq> ''pow'' then AnT_single_point_on_wave
      else if typeString \<noteq> ''peak'' then AnT_peak else AnT_rms)"

definition analog_type_json :: "'j Json \<Rightarrow> 'j \<Rightarrow> exn + AnalogType" where
  "analog_type_json J anlg =
     attempt (js_isMember J anlg ''type'') (\<lambda>m.
       if \<not> m then Inr AnT_single_point_on_wave
       else attempt (js_get J anlg ''type'') (\<lambda>t.
         if js_isUInt J t then attempt (js_asUInt J t) (\<lambda>w. Inr (analog_type_of (ucast w)))
         else if js_isString J t then attempt (js_asString J t) (\<lambda>typeString. Inr (analog_type_of_name typeString))
         else Inr AnT_single_point_on_wave))"

definition insertAnalogConfig :: "'j Json \<Rightarrow> 'j \<Rightarrow> PmuConfig \<Rightarrow> exn + PmuConfig" where
  "insertAnalogConfig J anlg pmu =
     attempt (js_get J anlg ''name'') (\<lambda>nm.
     attempt (js_asString J nm) (\<lambda>name.
     attempt (replace_int J anlg ''count'' 1) (\<lambda>cnt.
     attempt (analog_type_json J anlg) (\<lambda>t.
     attempt (replace_int J anlg ''scale'' 0) (\<lambda>scale.
       Inr (fold (add_analog t scale) (analog_channels name cnt) pmu))))))"

text \<open>\<open>active\<close> and \<open>nominal\<close> may be a truth value for the whole word or the word itself.  The pair is the truth
  value, if it is one, and the word.\<close>

definition digital_active :: "'j Json \<Rightarrow> 'j \<Rightarrow> bool \<Rightarrow> exn + bool \<times> bool \<times> u16" where
  "digital_active J dgtl active =
     attempt (js_isMember J dgtl ''active'') (\<lambda>m.
       if \<not> m then Inr (active, True, 0)
       else attempt (js_get J dgtl ''active'') (\<lambda>v.
         if js_isBool J v then attempt (js_asBool J v) (\<lambda>b. Inr (b, True, 0))
         else attempt (js_asInt J v) (\<lambda>i. Inr (active, False, word_of_int i))))"

text \<open>A truth value given for \<open>nominal\<close> is assigned to \<open>active\<close>, as in the source.\<close>

definition digital_nominal :: "'j Json \<Rightarrow> 'j \<Rightarrow> bool \<Rightarrow> exn + bool \<times> bool \<times> u16" where
  "digital_nominal J dgtl active =
     attempt (js_isMember J dgtl ''nominal'') (\<lambda>m.
       if \<not> m then Inr (active, True, 0)
       else attempt (js_get J dgtl ''nominal'') (\<lambda>v.
         if js_isBool J v then attempt (js_asBool J v) (\<lambda>b. Inr (b, True, 0))
         else attempt (js_asUInt J v) (\<lambda>w. Inr (active, False, ucast w))))"

definition digital_names :: "'j Json \<Rightarrow> 'j \<Rightarrow> PmuConfig \<Rightarrow> exn + PmuConfig" where
  "digital_names J nm = attempt_fold (\<lambda>jj pmu.
     attempt (if js_isArray J nm then attempt (js_at J nm jj) (js_asString J)
              else attempt (js_asString J nm) (\<lambda>s. Inr (s @ to_string (int jj))))
       (\<lambda>s. Inr (pmu\<lparr>pc_digitChannelNames := pc_digitChannelNames pmu @ [s]\<rparr>))) [0..<16]"

definition insertDigitalConfig :: "'j Json \<Rightarrow> 'j \<Rightarrow> PmuConfig \<times> int \<Rightarrow> exn + PmuConfig \<times> int" where
  "insertDigitalConfig J dgtl = (\<lambda>(pmu, currentCnt).
     attempt (js_get J dgtl ''name'') (\<lambda>nm.
     attempt (replace_int J dgtl ''count'' 0) (\<lambda>cnt.
       let cnt = (if js_isArray J nm \<and> cnt = 0 then int (length (js_elems J nm)) else cnt) in
     attempt (digital_active J dgtl True) (\<lambda>(active, activeIsBool, activeVals).
     attempt (digital_nominal J dgtl active) (\<lambda>(active, nominalIsBool, nominalVals).
       if cnt = 16 then
         let currentCnt = (if currentCnt mod 16 \<noteq> 0 then (currentCnt div 16 + 1) * 16 else currentCnt) in
         attempt (digital_names J nm pmu) (\<lambda>pmu.
           Inr (pmu\<lparr>pc_digitalActive := pc_digitalActive pmu @
                      [if activeIsBool then (if active then 0xFF else 0x00) else activeVals],
                    pc_digitalNominal := pc_digitalNominal pmu @
                      [if nominalIsBool then 0xFF else nominalVals]\<rparr>,
                currentCnt + 16))
       else Inr (pmu, currentCnt))))))"

text \<open>A member that is one object or an array of them.\<close>

definition each_of :: "'j Json \<Rightarrow> ('j \<Rightarrow> 's \<Rightarrow> exn + 's) \<Rightarrow> 'j \<Rightarrow> string \<Rightarrow> 's \<Rightarrow> exn + 's" where
  "each_of J f jv key s =
     attempt (js_get J jv key) (\<lambda>v.
       if js_isArray J v then attempt_fold f (js_elems J v) s else f v s)"

definition load_phasors :: "'j Json \<Rightarrow> 'j \<Rightarrow> PmuConfig \<Rightarrow> exn + PmuConfig" where
  "load_phasors J jv pmu =
     attempt (js_isMember J jv ''phasor'') (\<lambda>m.
       if \<not> m then Inr pmu
       else attempt (each_of J (insertPhasorConfig J) jv ''phasor'' pmu) (\<lambda>pmu.
         Inr (pmu\<lparr>pc_phasorCount := of_nat (length (pc_phasorNames pmu))\<rparr>)))"

definition load_analogs :: "'j Json \<Rightarrow> 'j \<Rightarrow> PmuConfig \<Rightarrow> exn + PmuConfig" where
  "load_analogs J jv pmu =
     attempt (js_isMember J jv ''analog'') (\<lambda>m.
       if \<not> m then Inr pmu
       else attempt (each_of J (insertAnalogConfig J) jv ''analog'' pmu) (\<lambda>pmu.
         Inr (pmu\<lparr>pc_analogCount := of_nat (length (pc_analogNames pmu))\<rparr>)))"

definition load_digitals :: "'j Json \<Rightarrow> 'j \<Rightarrow> PmuConfig \<Rightarrow> exn + PmuConfig" where
  "load_digitals J jv pmu =
     attempt (js_isMember J jv ''digital'') (\<lambda>m.
       if \<not> m then Inr pmu
       else attempt (each_of J (insertDigitalConfig J) jv ''digital'' (pmu, 0)) (\<lambda>(pmu, cnt).
         Inr (pmu\<lparr>pc_digitalWordCount := of_nat (length (pc_digitalNominal pmu))\<rparr>)))"

definition load_format :: "'j Json \<Rightarrow> 'j \<Rightarrow> string \<Rightarrow> exn + 1 word" where
  "load_format J jv key =
     attempt (replace_string J jv key ''floating_point'') (\<lambda>format.
       Inr (if format = ''integer'' then integer_format else floating_point_format))"

definition load_id :: "'j Json \<Rightarrow> 'j \<Rightarrow> exn + int" where
  "load_id J jv = attempt (replace_int J jv ''id'' 0) (\<lambda>data. replace_int J jv ''idcode'' data)"

definition loadPmuConfigJson :: "'j Json \<Rightarrow> 'j \<Rightarrow> exn + PmuConfig" where
  "loadPmuConfigJson J jv =
     attempt (replace_string J jv ''name'' []) (\<lambda>stationName.
     attempt (load_id J jv) (\<lambda>data.
     attempt (replace_int J jv ''cfgcnt'' 0) (\<lambda>cfgcnt.
     attempt (replace_float J jv ''lat'' 0) (\<lambda>lat.
     attempt (replace_float J jv ''lon'' 0) (\<lambda>lon.
     attempt (replace_float J jv ''elev'' 0) (\<lambda>elev.
     attempt (load_format J jv ''phasor_format'') (\<lambda>phasorFormat.
     attempt (load_format J jv ''analog_format'') (\<lambda>analogFormat.
     attempt (load_format J jv ''frequency_format'') (\<lambda>freqFormat.
     attempt (replace_string J jv ''phasor_coordinates'' ''rectangular'') (\<lambda>format.
     attempt (replace_float J jv ''nominal_frequency'' f32_60) (\<lambda>nfreq.
     attempt (replace_float J jv ''nominalfrequency'' nfreq) (\<lambda>nfreq.
     attempt (replace_float J jv ''fnom'' nfreq) (\<lambda>nfreq.
       let pmu = default_PmuConfig\<lparr>pc_stationName := stationName, pc_sourceID := word_of_int data,
             pc_changeCount := word_of_int cfgcnt, pc_lat := lat, pc_lon := lon, pc_elev := elev,
             pc_phasorFormat := phasorFormat, pc_analogFormat := analogFormat, pc_freqFormat := freqFormat,
             pc_phasorCoordinates := (if format = ''polar'' then polar_phasor else rectangular_phasor),
             pc_nominalFrequency := nfreq\<rparr> in
     attempt (load_phasors J jv pmu) (\<lambda>pmu.
     attempt (load_analogs J jv pmu) (load_digitals J jv)))))))))))))))"

definition loadConfigJson :: "'j Json \<Rightarrow> 'j \<Rightarrow> exn + Config" where
  "loadConfigJson J jv =
     attempt (js_isMember J jv ''config'') (\<lambda>m.
     attempt (if m then js_get J jv ''config'' else Inr jv) (\<lambda>base.
     attempt (load_id J base) (\<lambda>idcode.
     attempt (replace_int J base ''datarate'' 30) (\<lambda>data.
     attempt (replace_int J base ''data_rate'' data) (\<lambda>dataRate.
     attempt (replace_int J base ''time_base'' 1000000) (\<lambda>data.
     attempt (replace_int J base ''timebase'' data) (\<lambda>timeBase.
     attempt (js_get J base ''pmu'') (\<lambda>pmu.
       let newConfig = default_Config\<lparr>cfg_idcode := word_of_int idcode, cfg_dataRate := word_of_int dataRate,
             cfg_timeBase := word_of_int timeBase\<rparr> in
       if js_isArray J pmu then
         attempt_fold (\<lambda>pmucfg newConfig. attempt (loadPmuConfigJson J pmucfg) (\<lambda>p.
           Inr (newConfig\<lparr>cfg_pmus := cfg_pmus newConfig @ [p]\<rparr>))) (js_elems J pmu) newConfig
       else attempt (loadPmuConfigJson J pmu) (\<lambda>p.
         let p = (if pc_sourceID p = 0 then p\<lparr>pc_sourceID := cfg_idcode newConfig\<rparr> else p) in
         Inr (newConfig\<lparr>cfg_pmus := [p]\<rparr>))))))))))"

definition loadConfigJson_file :: "'j Json \<Rightarrow> (string \<rightharpoonup> string) \<Rightarrow> string \<Rightarrow> exn + Config" where
  "loadConfigJson_file J files configStr = attempt (loadJson J files configStr) (loadConfigJson J)"

definition loadConfigCSV :: "string \<Rightarrow> Config" where
  "loadConfigCSV configStr = default_Config"

definition loadConfig :: "'j Json \<Rightarrow> (string \<rightharpoonup> string) \<Rightarrow> string \<Rightarrow> exn + Config" where
  "loadConfig J files configStr =
     (if length configStr < 5 then Inr default_Config
      else attempt (hasJsonExtension configStr) (\<lambda>ext.
        attempt (if ext \<or> hd configStr = CHR ''{'' then loadConfigJson_file J files configStr
                 else Inr default_Config) (\<lambda>config.
        attempt (substr configStr (size_sub (length configStr) 3)) (\<lambda>ext.
          Inr (if ext = ''csv'' \<or> ext = ''CSV'' then loadConfigCSV configStr else config)))))"

section \<open>Writing\<close>

definition set_members :: "'j Json \<Rightarrow> (string \<times> 'j) list \<Rightarrow> 'j \<Rightarrow> exn + 'j" where
  "set_members J = attempt_fold (\<lambda>(k, x) v. js_set J v k x)"

text \<open>\<open>v[key].append(x)\<close>, and \<open>if (!v.isMember(key)) v[key] = Json::arrayValue\<close>.\<close>

definition append_member :: "'j Json \<Rightarrow> string \<Rightarrow> 'j \<Rightarrow> 'j \<Rightarrow> exn + 'j" where
  "append_member J key x v =
     attempt (js_get J v key) (\<lambda>a. attempt (js_append J a x) (js_set J v key))"

definition ensure_array :: "'j Json \<Rightarrow> string \<Rightarrow> 'j \<Rightarrow> exn + 'j" where
  "ensure_array J key v =
     attempt (js_isMember J v key) (\<lambda>m. if m then Inr v else js_set J v key (js_array J))"

definition format_name :: "1 word \<Rightarrow> string" where
  "format_name f = (if f = integer_format then ''integer'' else ''floating_point'')"

definition phasor_json :: "'j Json \<Rightarrow> PmuConfig \<Rightarrow> nat \<Rightarrow> exn + 'j" where
  "phasor_json J pmu ii =
     attempt (defined (idx (pc_phasorNames pmu) ii)) (\<lambda>name.
     attempt (defined (idx (pc_phasorConversion pmu) ii)) (\<lambda>scale.
     attempt (defined (idx (pc_phasorType pmu) ii)) (\<lambda>t.
       set_members J [(''name'', js_string J name), (''scale'', js_uint J scale),
         (''type'', case t of PhT_voltage \<Rightarrow> js_string J ''voltage'' | PhT_current \<Rightarrow> js_string J ''current''
            | _ \<Rightarrow> js_uint J (ucast (phasor_type_code t)))] (js_null J))))"

definition analog_json :: "'j Json \<Rightarrow> PmuConfig \<Rightarrow> nat \<Rightarrow> exn + 'j" where
  "analog_json J pmu ii =
     attempt (defined (idx (pc_analogNames pmu) ii)) (\<lambda>name.
     attempt (defined (idx (pc_analogConversion pmu) ii)) (\<lambda>scale.
     attempt (defined (idx (pc_analogType pmu) ii)) (\<lambda>t.
       set_members J [(''name'', js_string J name), (''scale'', js_int J (sint scale)),
         (''type'', case t of AnT_single_point_on_wave \<Rightarrow> js_string J ''pow'' | AnT_rms \<Rightarrow> js_string J ''rms''
            | AnT_peak \<Rightarrow> js_string J ''peak'' | _ \<Rightarrow> js_uint J (ucast (analog_type_code t)))] (js_null J))))"

definition digital_json :: "'j Json \<Rightarrow> PmuConfig \<Rightarrow> nat \<Rightarrow> exn + 'j" where
  "digital_json J pmu ii =
     attempt (js_set J (js_null J) ''name'' (js_array J)) (\<lambda>digital.
     attempt (attempt_fold (\<lambda>jj digital. attempt (defined (idx (pc_digitChannelNames pmu) (ii * 16 + jj))) (\<lambda>n.
        append_member J ''name'' (js_string J n) digital)) [0..<16] digital) (\<lambda>digital.
     attempt (defined (idx (pc_digitalActive pmu) ii)) (\<lambda>active.
     attempt (defined (idx (pc_digitalNominal pmu) ii)) (\<lambda>nominal.
       set_members J [(''active'', js_int J (uint active)), (''nominal'', js_int J (uint nominal))] digital))))"

text \<open>An array of \<open>n\<close> objects under \<open>key\<close>, left out when \<open>n\<close> is 0.\<close>

definition add_units :: "'j Json \<Rightarrow> (nat \<Rightarrow> exn + 'j) \<Rightarrow> string \<Rightarrow> nat \<Rightarrow> 'j \<Rightarrow> exn + 'j" where
  "add_units J unit_json key n pbase =
     (if n = 0 then Inr pbase
      else attempt (js_set J pbase key (js_array J)) (\<lambda>pbase.
        attempt_fold (\<lambda>ii pbase. attempt (unit_json ii) (\<lambda>u. append_member J key u pbase)) [0..<n] pbase))"

definition pmu_json :: "'j Json \<Rightarrow> PmuConfig \<Rightarrow> exn + 'j" where
  "pmu_json J pmu =
     attempt (set_members J [(''name'', js_string J (pc_stationName pmu)),
       (''idcode'', js_int J (uint (pc_sourceID pmu))), (''cfgcnt'', js_int J (uint (pc_changeCount pmu))),
       (''phasor_format'', js_string J (format_name (pc_phasorFormat pmu))),
       (''analog_format'', js_string J (format_name (pc_analogFormat pmu))),
       (''frequency_format'', js_string J (format_name (pc_freqFormat pmu))),
       (''phasor_coordinates'', js_string J (if pc_phasorCoordinates pmu = polar_phasor then ''polar'' else ''rectangular'')),
       (''nominal_frequency'', js_double J (f64_of_f32 (pc_nominalFrequency pmu)))] (js_null J)) (\<lambda>pbase.
     attempt (add_units J (phasor_json J pmu) ''phasor'' (unat (pc_phasorCount pmu)) pbase) (\<lambda>pbase.
     attempt (add_units J (analog_json J pmu) ''analog'' (unat (pc_analogCount pmu)) pbase) (\<lambda>pbase.
       add_units J (digital_json J pmu) ''digital'' (unat (pc_digitalWordCount pmu)) pbase)))"

definition addPmuJson :: "'j Json \<Rightarrow> PmuConfig \<Rightarrow> 'j \<Rightarrow> exn + 'j" where
  "addPmuJson J pmu jv =
     attempt (ensure_array J ''pmu'' jv) (\<lambda>jv.
     attempt (pmu_json J pmu) (\<lambda>pbase. append_member J ''pmu'' pbase jv))"

definition config_json :: "'j Json \<Rightarrow> Config \<Rightarrow> exn + 'j" where
  "config_json J config =
     attempt (set_members J [(''idcode'', js_int J (uint (cfg_idcode config))),
       (''data_rate'', js_int J (sint (cfg_dataRate config))),
       (''time_base'', js_int J (sint (cfg_timeBase config)))] (js_null J)) (\<lambda>base.
     attempt (attempt_fold (addPmuJson J) (cfg_pmus config) base) (\<lambda>base.
       js_set J (js_null J) ''config'' base))"

text \<open>Files: \<open>writable\<close> says which paths \<open>std::ofstream\<close> can open.\<close>

definition write_file :: "(string \<Rightarrow> bool) \<Rightarrow> string \<Rightarrow> string \<Rightarrow> (string \<rightharpoonup> string) \<Rightarrow> (string \<rightharpoonup> string)" where
  "write_file writable path content files =
     (if writable path then files(path \<mapsto> content @ [CHR 0x0A]) else files)"

definition writeConfigJson :: "'j Json \<Rightarrow> (string \<Rightarrow> bool) \<Rightarrow> string \<Rightarrow> Config \<Rightarrow> (string \<rightharpoonup> string) \<Rightarrow> exn + (string \<rightharpoonup> string)" where
  "writeConfigJson J writable configFile config files =
     attempt (config_json J config) (\<lambda>doc.
       Inr (write_file writable configFile (generateJsonString J doc) files))"

definition writeConfigCSV :: "string \<Rightarrow> Config \<Rightarrow> (string \<rightharpoonup> string) \<Rightarrow> exn + (string \<rightharpoonup> string)" where
  "writeConfigCSV configFile config files = Inr files"

definition writeConfig :: "'j Json \<Rightarrow> (string \<Rightarrow> bool) \<Rightarrow> string \<Rightarrow> Config \<Rightarrow> (string \<rightharpoonup> string) \<Rightarrow> exn + (string \<rightharpoonup> string)" where
  "writeConfig J writable configFile config files =
     attempt (hasJsonExtension configFile) (\<lambda>json.
       if json then writeConfigJson J writable configFile config files
       else attempt (substr configFile (size_sub (length configFile) 3)) (\<lambda>ext.
         if ext = ''csv'' \<or> ext = ''CSV'' then writeConfigCSV configFile config files
         else writeConfigJson J writable configFile config files))"

end
