(* ===== verification/Json_Roundtrip.thy ===== *)
theory Json_Roundtrip
  imports Json_Config
begin

text \<open>
  What a configuration becomes when it is written as JSON and loaded again (\<open>src/pmu/configure.cpp\<close>).  JSON values are
  described by what they show: an object by the map of its members, an array by the list of its elements.
\<close>

section \<open>Objects and arrays\<close>

definition shows_object :: "'j Json \<Rightarrow> 'j \<Rightarrow> (string \<rightharpoonup> 'j) \<Rightarrow> bool" where
  "shows_object J v f \<longleftrightarrow> (js_isObject J v \<or> v = js_null J) \<and>
     (\<forall>k. js_isMember J v k = Inr (f k \<noteq> None) \<and>
          js_get J v k = Inr (case f k of None \<Rightarrow> js_null J | Some x \<Rightarrow> x))"

definition shows_array :: "'j Json \<Rightarrow> 'j \<Rightarrow> 'j list \<Rightarrow> bool" where
  "shows_array J v xs \<longleftrightarrow> js_isArray J v \<and> js_elems J v = xs"

lemma shows_null: "json_laws J \<Longrightarrow> shows_object J (js_null J) Map.empty"
  by (simp add: json_laws_def json_object_laws_def shows_object_def)

lemma shows_empty: "json_laws J \<Longrightarrow> shows_object J (js_object J) Map.empty"
  by (simp add: json_laws_def json_object_laws_def shows_object_def)

lemma shows_empty_array: "json_laws J \<Longrightarrow> shows_array J (js_array J) []"
  by (simp add: json_laws_def json_array_laws_def shows_array_def)

lemma shows_object_not_array: "json_laws J \<Longrightarrow> shows_object J v f \<Longrightarrow> \<not> js_isArray J v"
  by (auto simp: json_laws_def json_array_laws_def shows_object_def)

lemma set_shows:
  assumes "json_laws J" "shows_object J v f"
  shows "\<exists>v'. js_set J v k x = Inr v' \<and> shows_object J v' (f(k \<mapsto> x)) \<and> js_isObject J v'"
proof -
  obtain v' where "js_set J v k x = Inr v'" "js_isObject J v'"
    "\<forall>k'. js_isMember J v' k' = (if k' = k then Inr True else js_isMember J v k') \<and>
      js_get J v' k' = (if k' = k then Inr x else js_get J v k')"
  proof -
    have "js_isObject J v \<or> v = js_null J" using assms(2) by (simp add: shows_object_def)
    moreover have "json_object_laws J" using assms(1) by (simp add: json_laws_def)
    ultimately show thesis using that unfolding json_object_laws_def by blast
  qed
  then show ?thesis using assms(2) by (intro exI[of _ v']) (auto simp: shows_object_def)
qed

lemma set_members_shows:
  assumes "json_laws J" "shows_object J v f"
  shows "\<exists>v'. set_members J kxs v = Inr v' \<and> shows_object J v' (fold (\<lambda>(k, x) f. f(k \<mapsto> x)) kxs f)"
  using assms(2)
proof (induction kxs arbitrary: v f)
  case (Cons kx kxs)
  obtain k x where kx: "kx = (k, x)" by fastforce
  obtain v1 where v1: "js_set J v k x = Inr v1" "shows_object J v1 (f(k \<mapsto> x))"
    using set_shows[OF assms(1) Cons.prems] by blast
  with Cons.IH[OF v1(2)] show ?case by (simp add: set_members_def kx)
qed (simp add: set_members_def)

lemma append_member_shows:
  assumes "json_laws J" "shows_object J v f" "f key = Some a" "shows_array J a xs"
  shows "\<exists>v' a'. append_member J key x v = Inr v' \<and> shows_object J v' (f(key \<mapsto> a')) \<and> shows_array J a' (xs @ [x])"
proof -
  obtain a' where a': "js_append J a x = Inr a'" "shows_array J a' (xs @ [x])"
    using assms(1,4) unfolding json_laws_def json_array_laws_def shows_array_def by metis
  obtain v' where "js_set J v key a' = Inr v'" "shows_object J v' (f(key \<mapsto> a'))"
    using set_shows[OF assms(1,2)] by blast
  then show ?thesis using a' assms(2,3) by (auto simp: append_member_def shows_object_def)
qed

lemma append_each_shows:
  assumes "json_laws J" "shows_object J v f" "f key = Some a" "shows_array J a xs"
    and "\<And>i. i \<in> set is \<Longrightarrow> unit_json i = Inr (u i)"
  shows "\<exists>v' a'. attempt_fold (\<lambda>i v. attempt (unit_json i) (\<lambda>u. append_member J key u v)) is v = Inr v' \<and>
    shows_object J v' (f(key \<mapsto> a')) \<and> shows_array J a' (xs @ map u is)"
  using assms(2-5)
proof (induction "is" arbitrary: v f a xs)
  case Nil
  then show ?case by (intro exI[of _ v] exI[of _ a]) (simp add: fun_upd_idem)
next
  case (Cons i "is")
  obtain v1 a1 where v1: "append_member J key (u i) v = Inr v1" "shows_object J v1 (f(key \<mapsto> a1))"
      "shows_array J a1 (xs @ [u i])"
    using append_member_shows[OF assms(1) Cons.prems(1-3)] by blast
  have "(f(key \<mapsto> a1)) key = Some a1" by simp
  from Cons.IH[OF v1(2) this v1(3)] Cons.prems(4) obtain v' a' where
    "attempt_fold (\<lambda>i v. attempt (unit_json i) (\<lambda>u. append_member J key u v)) is v1 = Inr v'"
    "shows_object J v' (f(key \<mapsto> a1, key \<mapsto> a'))" "shows_array J a' ((xs @ [u i]) @ map u is)"
    by (metis list.set_intros(2))
  moreover have "f(key \<mapsto> a1, key \<mapsto> a') = f(key \<mapsto> a')" by (rule fun_upd_upd)
  ultimately show ?case using v1(1) Cons.prems(4)[of i] by - (rule exI[of _ v'], rule exI[of _ a'], simp add: fun_upd_def)
qed

section \<open>Reading members\<close>

lemma replace_shows:
  assumes "shows_object J v f"
  shows "replaceIfMember J conv v key d = (case f key of None \<Rightarrow> Inr d | Some x \<Rightarrow> conv x)"
  using assms by (auto simp: replaceIfMember_def getOrDefault_def shows_object_def split: option.split)

lemmas replace_defs = replace_string_def replace_bool_def replace_int_def replace_uint_def replace_int16_def
  replace_double_def replace_float_def

lemma member_shows: "shows_object J v f \<Longrightarrow> js_isMember J v key = Inr (f key \<noteq> None)"
  and get_shows: "shows_object J v f \<Longrightarrow> js_get J v key = Inr (case f key of None \<Rightarrow> js_null J | Some x \<Rightarrow> x)"
  by (simp_all add: shows_object_def)

lemma scalars:
  assumes "json_laws J"
  shows "js_asString J (js_string J s) = Inr s" "js_isString J (js_string J s)" "\<not> js_isUInt J (js_string J s)"
    "js_asUInt J (js_uint J w) = Inr w" "js_isUInt J (js_uint J w)" "\<not> js_isBool J (js_uint J w)"
    "uint w < 2 ^ 31 \<Longrightarrow> js_asInt J (js_uint J w) = Inr (uint w)" "\<not> js_isBool J (js_int J i)"
    "- (2 ^ 31) \<le> i \<Longrightarrow> i < 2 ^ 31 \<Longrightarrow> js_asInt J (js_int J i) = Inr i"
    "0 \<le> i \<Longrightarrow> i < 2 ^ 31 \<Longrightarrow> js_asUInt J (js_int J i) = Inr (word_of_int i)"
    "js_asDouble J (js_double J d) = Inr d" "js_asFloat J (js_double J d) = Inr (f32_of_f64 d)"
    "js_asDouble J (js_null J) = Inr 0" "js_asString J (js_null J) = Inr []"
    "2 ^ 31 \<le> uint w \<Longrightarrow> \<exists>m. js_asInt J (js_uint J w) = Inl (json_error m)"
  using assms by (simp_all add: json_laws_def json_scalar_laws_def)

lemma small_uint:
  "uint (w :: u16) < 2 ^ 31" "uint (ucast (c :: u8) :: u32) = uint c" "uint (c :: u8) < 2 ^ 31"
proof -
  have "uint w < 65536" "uint c < 256"
    using unsigned_less[of w, where 'a = int] unsigned_less[of c, where 'a = int] by simp_all
  then show "uint (w :: u16) < 2 ^ 31" "uint (ucast (c :: u8) :: u32) = uint c" "uint (c :: u8) < 2 ^ 31"
    by (simp_all add: unsigned_ucast_eq take_bit_int_eq_self)
qed

lemma ucast_u16_back [simp]: "ucast (ucast (w :: u16) :: u32) = w"
  by (rule unsigned_word_eqI[where 'a = int]) (simp add: unsigned_ucast_eq take_bit_word_eq_self)

lemma words16:
  assumes "json_laws J"
  shows "js_asInt J (js_int J (uint (w :: u16))) = Inr (uint w)"
    "js_asUInt J (js_int J (uint (w :: u16))) = Inr (ucast w)" "\<not> js_isBool J (js_int J i)"
proof -
  have "- (2 ^ 31) \<le> uint w" by (rule order_trans[of _ 0]) simp_all
  then show "js_asInt J (js_int J (uint w)) = Inr (uint w)"
    using scalars(9)[OF assms] small_uint(1)[of w] by blast
  show "js_asUInt J (js_int J (uint w)) = Inr (ucast w)"
    using scalars(10)[OF assms, of "uint w"] small_uint(1)[of w] by (simp del: power_numeral)
  show "\<not> js_isBool J (js_int J i)" using scalars(8)[OF assms] by blast
qed

section \<open>Channels\<close>

definition reloaded_phasor_type :: "PhasorType \<Rightarrow> PhasorType" where
  "reloaded_phasor_type t = phasor_type_of (phasor_type_code t)"

text \<open>The loader does not read the names of analog types as the writer means them.\<close>

definition reloaded_analog_type :: "AnalogType \<Rightarrow> AnalogType" where
  "reloaded_analog_type t = (case t of AnT_single_point_on_wave \<Rightarrow> AnT_peak
     | AnT_rms \<Rightarrow> AnT_single_point_on_wave | AnT_peak \<Rightarrow> AnT_single_point_on_wave
     | _ \<Rightarrow> analog_type_of (analog_type_code t))"

lemma ucast_u8_back [simp]: "ucast (ucast (c :: u8) :: u32) = c"
  by (rule unsigned_word_eqI[where 'a = int]) (simp add: unsigned_ucast_eq small_uint(2) take_bit_word_eq_self)

lemma phasor_json_reloads:
  assumes "json_laws J" "ii < length (pc_phasorNames p)" "ii < length (pc_phasorConversion p)"
    "ii < length (pc_phasorType p)" "uint (pc_phasorConversion p ! ii) < 2 ^ 31"
  shows "\<exists>u. phasor_json J p ii = Inr u \<and> (\<forall>q. insertPhasorConfig J u q =
    Inr (add_phasor (reloaded_phasor_type (pc_phasorType p ! ii)) (uint (pc_phasorConversion p ! ii)) (pc_phasorNames p ! ii) q))"
proof -
  let ?t = "pc_phasorType p ! ii"
  let ?type = "case ?t of PhT_voltage \<Rightarrow> js_string J ''voltage'' | PhT_current \<Rightarrow> js_string J ''current''
    | _ \<Rightarrow> js_uint J (ucast (phasor_type_code ?t))"
  obtain u where u: "phasor_json J p ii = Inr u" "shows_object J u
      (Map.empty(''name'' \<mapsto> js_string J (pc_phasorNames p ! ii), ''scale'' \<mapsto> js_uint J (pc_phasorConversion p ! ii),
         ''type'' \<mapsto> ?type))"
    using set_members_shows[OF assms(1) shows_null[OF assms(1)], of
        "[(''name'', js_string J (pc_phasorNames p ! ii)), (''scale'', js_uint J (pc_phasorConversion p ! ii)), (''type'', ?type)]"]
      assms(2-4) by (auto simp: phasor_json_def idx_def)
  have "phasor_type_json J u = Inr (reloaded_phasor_type ?t)"
    using scalars[OF assms(1)]
    by (cases ?t) (simp_all add: phasor_type_json_def member_shows[OF u(2)] get_shows[OF u(2)] reloaded_phasor_type_def
        phasor_type_of_def)
  then show ?thesis using u scalars[OF assms(1)] assms(5)
    by (auto simp: insertPhasorConfig_def get_shows[OF u(2)] replace_defs replace_shows[OF u(2)] phasor_channels_def)
qed

lemma analog_json_reloads:
  assumes "json_laws J" "ii < length (pc_analogNames p)" "ii < length (pc_analogConversion p)" "ii < length (pc_analogType p)"
  shows "\<exists>u. analog_json J p ii = Inr u \<and> (\<forall>q. insertAnalogConfig J u q =
    Inr (add_analog (reloaded_analog_type (pc_analogType p ! ii)) (sint (pc_analogConversion p ! ii)) (pc_analogNames p ! ii) q))"
proof -
  let ?t = "pc_analogType p ! ii"
  let ?type = "case ?t of AnT_single_point_on_wave \<Rightarrow> js_string J ''pow'' | AnT_rms \<Rightarrow> js_string J ''rms''
    | AnT_peak \<Rightarrow> js_string J ''peak'' | _ \<Rightarrow> js_uint J (ucast (analog_type_code ?t))"
  let ?scale = "sint (pc_analogConversion p ! ii)"
  obtain u where u: "analog_json J p ii = Inr u" "shows_object J u
      (Map.empty(''name'' \<mapsto> js_string J (pc_analogNames p ! ii), ''scale'' \<mapsto> js_int J ?scale, ''type'' \<mapsto> ?type))"
    using set_members_shows[OF assms(1) shows_null[OF assms(1)], of
        "[(''name'', js_string J (pc_analogNames p ! ii)), (''scale'', js_int J ?scale), (''type'', ?type)]"]
      assms(2-4) by (auto simp: analog_json_def idx_def)
  have "- (2 ^ 31) \<le> ?scale" "?scale < 2 ^ 31"
    using sint_greater_eq[of "pc_analogConversion p ! ii"] sint_less[of "pc_analogConversion p ! ii"] by simp_all
  moreover have "analog_type_json J u = Inr (reloaded_analog_type ?t)"
    using scalars[OF assms(1)]
    by (cases ?t) (simp_all add: analog_type_json_def member_shows[OF u(2)] get_shows[OF u(2)] reloaded_analog_type_def
        analog_type_of_def analog_type_of_name_def)
  ultimately show ?thesis using u scalars[OF assms(1)]
    by (auto simp: insertAnalogConfig_def get_shows[OF u(2)] replace_defs replace_shows[OF u(2)] analog_channels_def)
qed

definition add_digital :: "PmuConfig \<Rightarrow> nat \<Rightarrow> PmuConfig \<times> int \<Rightarrow> PmuConfig \<times> int" where
  "add_digital p ii = (\<lambda>(q, cnt). (q\<lparr>
     pc_digitChannelNames := pc_digitChannelNames q @ map (\<lambda>jj. pc_digitChannelNames p ! (ii * 16 + jj)) [0..<16],
     pc_digitalActive := pc_digitalActive q @ [pc_digitalActive p ! ii],
     pc_digitalNominal := pc_digitalNominal q @ [pc_digitalNominal p ! ii]\<rparr>,
     (if cnt mod 16 \<noteq> 0 then (cnt div 16 + 1) * 16 else cnt) + 16))"

lemma digital_names_array:
  assumes "json_laws J" "shows_array J nm (map (\<lambda>jj. js_string J (f jj)) [0..<16])"
  shows "digital_names J nm q = Inr (q\<lparr>pc_digitChannelNames := pc_digitChannelNames q @ map f [0..<16]\<rparr>)"
proof -
  have at: "js_at J nm i = Inr (js_string J (f i))" if "i < 16" for i
    using assms that unfolding json_laws_def json_array_laws_def shows_array_def by simp
  have "fold (\<lambda>jj q. q\<lparr>pc_digitChannelNames := pc_digitChannelNames q @ [f jj]\<rparr>) is q =
      q\<lparr>pc_digitChannelNames := pc_digitChannelNames q @ map f is\<rparr>" for "is" and q :: PmuConfig
    by (induction "is" arbitrary: q) simp_all
  moreover have "digital_names J nm q =
      Inr (fold (\<lambda>jj q. q\<lparr>pc_digitChannelNames := pc_digitChannelNames q @ [f jj]\<rparr>) [0..<16] q)"
    unfolding digital_names_def
    using assms(2) scalars(1)[OF assms(1)] by (intro attempt_fold_ok) (simp add: at shows_array_def)
  ultimately show ?thesis by simp
qed

lemma digital_json_reloads:
  assumes "json_laws J" "length (pc_digitChannelNames p) = 16 * n" "length (pc_digitalActive p) = n"
    "length (pc_digitalNominal p) = n" "ii < n"
  shows "\<exists>u. digital_json J p ii = Inr u \<and> (\<forall>s. insertDigitalConfig J u s = Inr (add_digital p ii s))"
proof -
  let ?f = "\<lambda>jj. pc_digitChannelNames p ! (ii * 16 + jj)"
  let ?a = "pc_digitalActive p ! ii" and ?n = "pc_digitalNominal p ! ii"
  have inside: "ii * 16 + jj < length (pc_digitChannelNames p)" if "jj < 16" for jj using assms(2,5) that by simp
  obtain u0 where u0: "js_set J (js_null J) ''name'' (js_array J) = Inr u0" "shows_object J u0 [''name'' \<mapsto> js_array J]"
    using set_shows[OF assms(1) shows_null[OF assms(1)]] by blast
  obtain u1 nm where u1: "attempt_fold (\<lambda>jj digital. attempt (defined (idx (pc_digitChannelNames p) (ii * 16 + jj))) (\<lambda>n.
        append_member J ''name'' (js_string J n) digital)) [0..<16] u0 = Inr u1"
      "shows_object J u1 [''name'' \<mapsto> nm]" "shows_array J nm (map (\<lambda>jj. js_string J (?f jj)) [0..<16])"
  proof -
    have "attempt_fold (\<lambda>jj digital. attempt (defined (idx (pc_digitChannelNames p) (ii * 16 + jj))) (\<lambda>n.
          append_member J ''name'' (js_string J n) digital)) [0..<16] u0 =
        attempt_fold (\<lambda>jj digital. attempt (Inr (js_string J (?f jj))) (\<lambda>u. append_member J ''name'' u digital)) [0..<16] u0"
      by (intro attempt_fold_cong) (simp add: inside)
    with append_each_shows[OF assms(1) u0(2) _ shows_empty_array[OF assms(1)], of "''name''" "[0..<16]"
        "\<lambda>jj. Inr (js_string J (?f jj))" "\<lambda>jj. js_string J (?f jj)"] that show thesis by auto
  qed
  obtain u where u: "set_members J [(''active'', js_int J (uint ?a)), (''nominal'', js_int J (uint ?n))] u1 = Inr u"
      "shows_object J u [''name'' \<mapsto> nm, ''active'' \<mapsto> js_int J (uint ?a), ''nominal'' \<mapsto> js_int J (uint ?n)]"
    using set_members_shows[OF assms(1) u1(2), of "[(''active'', js_int J (uint ?a)), (''nominal'', js_int J (uint ?n))]"]
    by auto
  have json: "digital_json J p ii = Inr u"
    using u0(1) u1(1) u(1) assms(3-5) by (simp add: digital_json_def)
  have "insertDigitalConfig J u s = Inr (add_digital p ii s)" for s
    using u1(3) digital_names_array[OF assms(1) u1(3)]
    by (cases s) (simp add: insertDigitalConfig_def digital_active_def digital_nominal_def member_shows[OF u(2)]
        get_shows[OF u(2)] replace_defs replace_shows[OF u(2)] shows_array_def add_digital_def Let_def words16[OF assms(1)])
  then show ?thesis using json by blast
qed

section \<open>Lists of channels\<close>

definition shows_units :: "'j Json \<Rightarrow> (string \<rightharpoonup> 'j) \<Rightarrow> string \<Rightarrow> 'j list \<Rightarrow> bool" where
  "shows_units J f key us \<longleftrightarrow>
     (if us = [] then f key = None else \<exists>a. f key = Some a \<and> shows_array J a us)"

lemma add_units_shows:
  assumes "json_laws J" "shows_object J v f" "f key = None" "\<And>i. i < n \<Longrightarrow> unit_json i = Inr (u i)"
  shows "\<exists>v' f'. add_units J unit_json key n v = Inr v' \<and> shows_object J v' f' \<and>
    (\<forall>k. k \<noteq> key \<longrightarrow> f' k = f k) \<and> shows_units J f' key (map u [0..<n])"
proof (cases "n = 0")
  case True
  then show ?thesis using assms(2,3) by (auto simp: add_units_def shows_units_def)
next
  case False
  obtain v1 where v1: "js_set J v key (js_array J) = Inr v1" "shows_object J v1 (f(key \<mapsto> js_array J))"
    using set_shows[OF assms(1,2)] by blast
  have key: "(f(key \<mapsto> js_array J)) key = Some (js_array J)" by simp
  have "\<And>i. i \<in> set [0..<n] \<Longrightarrow> unit_json i = Inr (u i)" using assms(4) by simp
  then obtain v2 a where
    "attempt_fold (\<lambda>i v. attempt (unit_json i) (\<lambda>u. append_member J key u v)) [0..<n] v1 = Inr v2"
    "shows_object J v2 (f(key \<mapsto> js_array J, key \<mapsto> a))" "shows_array J a ([] @ map u [0..<n])"
    using append_each_shows[OF assms(1) v1(2) key shows_empty_array[OF assms(1)]] by blast
  then show ?thesis using v1(1) False
    by (intro exI[of _ v2] exI[of _ "f(key \<mapsto> js_array J, key \<mapsto> a)"]) (simp add: add_units_def shows_units_def)
qed

lemma add_units_obtain:
  assumes "json_laws J" "shows_object J v f" "f key = None" "\<And>i. i < n \<Longrightarrow> unit_json i = Inr (u i)"
  obtains v' f' where "add_units J unit_json key n v = Inr v'" "shows_object J v' f'"
    "\<forall>k. k \<noteq> key \<longrightarrow> f' k = f k" "shows_units J f' key (map u [0..<n])"
  using add_units_shows[of J v f key n unit_json u, OF assms] by blast

lemma each_of_units:
  assumes "shows_object J v f" "shows_units J f key (map u [0..<n])" "0 < n"
    and "\<And>i s. i < n \<Longrightarrow> load (u i) s = Inr (g i s)"
  shows "each_of J load v key s = Inr (fold g [0..<n] s)"
proof -
  obtain a where a: "f key = Some a" "shows_array J a (map u [0..<n])"
    using assms(2,3) by (auto simp: shows_units_def)
  have "attempt_fold load (map u xs) s = attempt_fold (\<lambda>i. load (u i)) xs s" for xs
    by (induction xs arbitrary: s) (simp_all add: attempt_def split: sum.split)
  moreover have "attempt_fold (\<lambda>i. load (u i)) [0..<n] s = Inr (fold g [0..<n] s)"
    using assms(4) by (intro attempt_fold_ok) simp
  ultimately show ?thesis using a by (simp add: each_of_def get_shows[OF assms(1)] shows_array_def)
qed

lemma map_nth_upto: "n = length xs \<Longrightarrow> map (\<lambda>i. f (xs ! i)) [0..<n] = map f xs"
  by (intro nth_equalityI) simp_all

lemma fold_add_phasor: "fold (\<lambda>i. add_phasor (t i) (s i) (m i)) is q =
    q\<lparr>pc_phasorNames := pc_phasorNames q @ map m is, pc_phasorType := pc_phasorType q @ map t is,
      pc_phasorConversion := pc_phasorConversion q @ map (\<lambda>i. word_of_int (s i)) is\<rparr>"
  by (induction "is" arbitrary: q) (simp_all add: add_phasor_def)

lemma fold_add_analog: "fold (\<lambda>i. add_analog (t i) (s i) (m i)) is q =
    q\<lparr>pc_analogNames := pc_analogNames q @ map m is, pc_analogType := pc_analogType q @ map t is,
      pc_analogConversion := pc_analogConversion q @ map (\<lambda>i. word_of_int (s i)) is\<rparr>"
  by (induction "is" arbitrary: q) (simp_all add: add_analog_def)

lemma fold_add_digital: "fst (fold (add_digital p) is (q, c)) =
    q\<lparr>pc_digitChannelNames := pc_digitChannelNames q @
        concat (map (\<lambda>ii. map (\<lambda>jj. pc_digitChannelNames p ! (ii * 16 + jj)) [0..<16]) is),
      pc_digitalActive := pc_digitalActive q @ map (\<lambda>ii. pc_digitalActive p ! ii) is,
      pc_digitalNominal := pc_digitalNominal q @ map (\<lambda>ii. pc_digitalNominal p ! ii) is\<rparr>"
  by (induction "is" arbitrary: q c) (simp_all add: add_digital_def)

lemma concat_words: "concat (map (\<lambda>ii. map (\<lambda>jj. f (ii * 16 + jj)) [0..<16]) [0..<n]) = map f [0..<16 * n]"
proof (induction n)
  case (Suc n)
  have "[0..<16 * Suc n] = [0..<16 * n] @ [16 * n..<16 * n + 16]"
    using upt_add_eq_append[of 0 "16 * n" 16] by (simp add: add.commute)
  moreover have "map f [16 * n..<16 * n + 16] = map (\<lambda>jj. f (n * 16 + jj)) [0..<16]"
    by (intro nth_equalityI) (simp_all add: mult.commute)
  ultimately show ?case using Suc by simp
qed simp

section \<open>One PMU\<close>

text \<open>The counts agree with the lists, and every scale can be read back as an \<open>int\<close>.\<close>

definition json_storable :: "PmuConfig \<Rightarrow> bool" where
  "json_storable p \<longleftrightarrow>
     length (pc_phasorNames p) = unat (pc_phasorCount p) \<and> length (pc_phasorType p) = unat (pc_phasorCount p) \<and>
     length (pc_phasorConversion p) = unat (pc_phasorCount p) \<and> (\<forall>c \<in> set (pc_phasorConversion p). uint c < 2 ^ 31) \<and>
     length (pc_analogNames p) = unat (pc_analogCount p) \<and> length (pc_analogType p) = unat (pc_analogCount p) \<and>
     length (pc_analogConversion p) = unat (pc_analogCount p) \<and>
     length (pc_digitChannelNames p) = 16 * unat (pc_digitalWordCount p) \<and>
     length (pc_digitalActive p) = unat (pc_digitalWordCount p) \<and>
     length (pc_digitalNominal p) = unat (pc_digitalWordCount p) \<and> f32_quiet (pc_nominalFrequency p)"

text \<open>What is left of a PMU configuration: the class, the position, the activity, the window and the group delay are
  not written.\<close>

definition reloaded_pmu :: "PmuConfig \<Rightarrow> PmuConfig" where
  "reloaded_pmu p = p\<lparr>pc_pmuClass := 0, pc_lat := 0, pc_lon := 0, pc_elev := 0, pc_active := True, pc_window := 0,
     pc_grpDelay := 0, pc_phasorType := map reloaded_phasor_type (pc_phasorType p),
     pc_analogType := map reloaded_analog_type (pc_analogType p)\<rparr>"

lemma load_phasors_units:
  assumes "shows_object J v f" "shows_units J f ''phasor'' (map u [0..<n])"
    and "\<And>i q. i < n \<Longrightarrow> insertPhasorConfig J (u i) q = Inr (add_phasor (t i) (s i) (m i) q)"
    and "pc_phasorNames q = []" "pc_phasorType q = []" "pc_phasorConversion q = []" "pc_phasorCount q = 0"
  shows "load_phasors J v q = Inr (q\<lparr>pc_phasorNames := map m [0..<n], pc_phasorType := map t [0..<n],
    pc_phasorConversion := map (\<lambda>i. word_of_int (s i)) [0..<n], pc_phasorCount := of_nat n\<rparr>)"
proof (cases "n = 0")
  case True
  then show ?thesis using assms by (cases q) (simp add: load_phasors_def member_shows[OF assms(1)] shows_units_def)
next
  case False
  with assms(2) have "f ''phasor'' \<noteq> None" by (auto simp: shows_units_def)
  moreover have "each_of J (insertPhasorConfig J) v ''phasor'' q = Inr (fold (\<lambda>i. add_phasor (t i) (s i) (m i)) [0..<n] q)"
    using False assms(3) by (intro each_of_units[OF assms(1,2)]) simp_all
  ultimately show ?thesis using assms(4-6)
    by (simp add: load_phasors_def member_shows[OF assms(1)] fold_add_phasor)
qed

lemma load_analogs_units:
  assumes "shows_object J v f" "shows_units J f ''analog'' (map u [0..<n])"
    and "\<And>i q. i < n \<Longrightarrow> insertAnalogConfig J (u i) q = Inr (add_analog (t i) (s i) (m i) q)"
    and "pc_analogNames q = []" "pc_analogType q = []" "pc_analogConversion q = []" "pc_analogCount q = 0"
  shows "load_analogs J v q = Inr (q\<lparr>pc_analogNames := map m [0..<n], pc_analogType := map t [0..<n],
    pc_analogConversion := map (\<lambda>i. word_of_int (s i)) [0..<n], pc_analogCount := of_nat n\<rparr>)"
proof (cases "n = 0")
  case True
  then show ?thesis using assms by (cases q) (simp add: load_analogs_def member_shows[OF assms(1)] shows_units_def)
next
  case False
  with assms(2) have "f ''analog'' \<noteq> None" by (auto simp: shows_units_def)
  moreover have "each_of J (insertAnalogConfig J) v ''analog'' q = Inr (fold (\<lambda>i. add_analog (t i) (s i) (m i)) [0..<n] q)"
    using False assms(3) by (intro each_of_units[OF assms(1,2)]) simp_all
  ultimately show ?thesis using assms(4-6)
    by (simp add: load_analogs_def member_shows[OF assms(1)] fold_add_analog)
qed

lemma load_digitals_units:
  assumes "shows_object J v f" "shows_units J f ''digital'' (map u [0..<n])"
    and "\<And>i s. i < n \<Longrightarrow> insertDigitalConfig J (u i) s = Inr (add_digital p i s)"
    and "pc_digitChannelNames q = []" "pc_digitalActive q = []" "pc_digitalNominal q = []" "pc_digitalWordCount q = 0"
    and "length (pc_digitChannelNames p) = 16 * n" "length (pc_digitalActive p) = n" "length (pc_digitalNominal p) = n"
  shows "load_digitals J v q = Inr (q\<lparr>pc_digitChannelNames := pc_digitChannelNames p,
    pc_digitalActive := pc_digitalActive p, pc_digitalNominal := pc_digitalNominal p, pc_digitalWordCount := of_nat n\<rparr>)"
proof (cases "n = 0")
  case True
  then show ?thesis using assms by (cases q) (simp add: load_digitals_def member_shows[OF assms(1)] shows_units_def)
next
  case False
  obtain q' c where q': "fold (add_digital p) [0..<n] (q, 0) = (q', c)" by fastforce
  have "q' = q\<lparr>pc_digitChannelNames := pc_digitChannelNames p,
      pc_digitalActive := pc_digitalActive p, pc_digitalNominal := pc_digitalNominal p\<rparr>"
    using fold_add_digital[of p "[0..<n]" q 0] assms(4-6,8-10) map_nth_upto[of n "pc_digitalActive p" "\<lambda>x. x"]
      map_nth_upto[of n "pc_digitalNominal p" "\<lambda>x. x"] map_nth_upto[of "16 * n" "pc_digitChannelNames p" "\<lambda>x. x"]
    by (simp add: q' concat_words[of "\<lambda>i. pc_digitChannelNames p ! i"])
  moreover from False assms(2) have "f ''digital'' \<noteq> None" by (auto simp: shows_units_def)
  moreover have "each_of J (insertDigitalConfig J) v ''digital'' (q, 0) = Inr (fold (add_digital p) [0..<n] (q, 0))"
    using False assms(3) by (intro each_of_units[OF assms(1,2)]) simp_all
  ultimately show ?thesis using assms(10) q'
    by (simp add: load_digitals_def member_shows[OF assms(1)])
qed

definition pmu_members :: "'j Json \<Rightarrow> PmuConfig \<Rightarrow> (string \<times> 'j) list" where
  "pmu_members J pmu = [(''name'', js_string J (pc_stationName pmu)),
     (''idcode'', js_int J (uint (pc_sourceID pmu))), (''cfgcnt'', js_int J (uint (pc_changeCount pmu))),
     (''phasor_format'', js_string J (format_name (pc_phasorFormat pmu))),
     (''analog_format'', js_string J (format_name (pc_analogFormat pmu))),
     (''frequency_format'', js_string J (format_name (pc_freqFormat pmu))),
     (''phasor_coordinates'', js_string J (if pc_phasorCoordinates pmu = polar_phasor then ''polar'' else ''rectangular'')),
     (''nominal_frequency'', js_double J (f64_of_f32 (pc_nominalFrequency pmu)))]"

lemma pmu_json_shows:
  assumes "json_laws J"
    and "\<And>i. i < unat (pc_phasorCount p) \<Longrightarrow> phasor_json J p i = Inr (up i)"
    and "\<And>i. i < unat (pc_analogCount p) \<Longrightarrow> analog_json J p i = Inr (ua i)"
    and "\<And>i. i < unat (pc_digitalWordCount p) \<Longrightarrow> digital_json J p i = Inr (ud i)"
  shows "\<exists>v f. pmu_json J p = Inr v \<and> shows_object J v f \<and>
    (\<forall>k. k \<noteq> ''phasor'' \<and> k \<noteq> ''analog'' \<and> k \<noteq> ''digital'' \<longrightarrow> f k = map_of (pmu_members J p) k) \<and>
    shows_units J f ''phasor'' (map up [0..<unat (pc_phasorCount p)]) \<and>
    shows_units J f ''analog'' (map ua [0..<unat (pc_analogCount p)]) \<and>
    shows_units J f ''digital'' (map ud [0..<unat (pc_digitalWordCount p)])"
proof -
  obtain v0 where v0: "set_members J (pmu_members J p) (js_null J) = Inr v0"
      "shows_object J v0 (fold (\<lambda>(k, x) f. f(k \<mapsto> x)) (pmu_members J p) Map.empty)"
    using set_members_shows[OF assms(1) shows_null[OF assms(1)]] by blast
  define f0 where "f0 = map_of (pmu_members J p)"
  have "fold (\<lambda>(k, x) f. f(k \<mapsto> x)) (pmu_members J p) Map.empty = f0" by (auto simp: f0_def pmu_members_def)
  with v0(2) have f0: "shows_object J v0 f0" by simp
  have free: "f0 ''phasor'' = None" "f0 ''analog'' = None" "f0 ''digital'' = None"
    by (simp_all add: f0_def pmu_members_def)
  obtain v1 f1 where v1: "add_units J (phasor_json J p) ''phasor'' (unat (pc_phasorCount p)) v0 = Inr v1" "shows_object J v1 f1"
      "\<forall>k. k \<noteq> ''phasor'' \<longrightarrow> f1 k = f0 k" "shows_units J f1 ''phasor'' (map up [0..<unat (pc_phasorCount p)])"
    using add_units_obtain[OF assms(1) f0 free(1) assms(2)] .
  have none2: "f1 ''analog'' = None" using v1(3) free(2) by simp
  obtain v2 f2 where v2: "add_units J (analog_json J p) ''analog'' (unat (pc_analogCount p)) v1 = Inr v2" "shows_object J v2 f2"
      "\<forall>k. k \<noteq> ''analog'' \<longrightarrow> f2 k = f1 k" "shows_units J f2 ''analog'' (map ua [0..<unat (pc_analogCount p)])"
    using add_units_obtain[OF assms(1) v1(2) none2 assms(3)] .
  have none3: "f2 ''digital'' = None" using v1(3) v2(3) free(3) by simp
  obtain v3 f3 where v3: "add_units J (digital_json J p) ''digital'' (unat (pc_digitalWordCount p)) v2 = Inr v3"
      "shows_object J v3 f3" "\<forall>k. k \<noteq> ''digital'' \<longrightarrow> f3 k = f2 k"
      "shows_units J f3 ''digital'' (map ud [0..<unat (pc_digitalWordCount p)])"
    using add_units_obtain[OF assms(1) v2(2) none3 assms(4)] .
  have "pmu_json J p = Inr v3"
    using v0(1) v1(1) v2(1) v3(1) by (simp add: pmu_json_def pmu_members_def)
  moreover have "f3 k = map_of (pmu_members J p) k" if "k \<noteq> ''phasor'' \<and> k \<noteq> ''analog'' \<and> k \<noteq> ''digital''" for k
    using that v1(3) v2(3) v3(3) by (simp add: f0_def)
  moreover have "shows_units J f3 ''phasor'' us" if "shows_units J f1 ''phasor'' us" for us
    using that v2(3) v3(3) by (simp add: shows_units_def)
  moreover have "shows_units J f3 ''analog'' us" if "shows_units J f2 ''analog'' us" for us
    using that v3(3) by (simp add: shows_units_def)
  ultimately show ?thesis using v1(4) v2(4) v3(2,4) by blast
qed

lemma format_name_reloads: "(if format_name f = ''integer'' then integer_format else floating_point_format) = f"
  using bit1_cases[of f] by (auto simp: format_name_def)

lemma pmu_json_reloads:
  assumes "json_laws J" "json_storable p"
  shows "\<exists>v. pmu_json J p = Inr v \<and> loadPmuConfigJson J v = Inr (reloaded_pmu p)"
proof -
  let ?n = "unat (pc_phasorCount p)" and ?a = "unat (pc_analogCount p)" and ?d = "unat (pc_digitalWordCount p)"
  have store: "length (pc_phasorNames p) = ?n" "length (pc_phasorType p) = ?n" "length (pc_phasorConversion p) = ?n"
      "length (pc_analogNames p) = ?a" "length (pc_analogType p) = ?a" "length (pc_analogConversion p) = ?a"
      "length (pc_digitChannelNames p) = 16 * ?d" "length (pc_digitalActive p) = ?d" "length (pc_digitalNominal p) = ?d"
      "f32_quiet (pc_nominalFrequency p)" "\<And>i. i < ?n \<Longrightarrow> uint (pc_phasorConversion p ! i) < 2 ^ 31"
    using assms(2) by (simp_all add: json_storable_def)
  have "\<exists>u. i < ?n \<longrightarrow> phasor_json J p i = Inr u \<and> (\<forall>q. insertPhasorConfig J u q =
      Inr (add_phasor (reloaded_phasor_type (pc_phasorType p ! i)) (uint (pc_phasorConversion p ! i)) (pc_phasorNames p ! i) q))" for i
    using phasor_json_reloads[OF assms(1), of i p] store by auto
  then obtain up where up: "\<And>i. i < ?n \<Longrightarrow> phasor_json J p i = Inr (up i)" "\<And>i q. i < ?n \<Longrightarrow> insertPhasorConfig J (up i) q =
      Inr (add_phasor (reloaded_phasor_type (pc_phasorType p ! i)) (uint (pc_phasorConversion p ! i)) (pc_phasorNames p ! i) q)"
    by metis
  have "\<exists>u. i < ?a \<longrightarrow> analog_json J p i = Inr u \<and> (\<forall>q. insertAnalogConfig J u q =
      Inr (add_analog (reloaded_analog_type (pc_analogType p ! i)) (sint (pc_analogConversion p ! i)) (pc_analogNames p ! i) q))" for i
    using analog_json_reloads[OF assms(1), of i p] store by auto
  then obtain ua where ua: "\<And>i. i < ?a \<Longrightarrow> analog_json J p i = Inr (ua i)" "\<And>i q. i < ?a \<Longrightarrow> insertAnalogConfig J (ua i) q =
      Inr (add_analog (reloaded_analog_type (pc_analogType p ! i)) (sint (pc_analogConversion p ! i)) (pc_analogNames p ! i) q)"
    by metis
  have "\<exists>u. i < ?d \<longrightarrow> digital_json J p i = Inr u \<and> (\<forall>s. insertDigitalConfig J u s = Inr (add_digital p i s))" for i
    using digital_json_reloads[OF assms(1) store(7-9), of i] by auto
  then obtain ud where ud: "\<And>i. i < ?d \<Longrightarrow> digital_json J p i = Inr (ud i)"
      "\<And>i s. i < ?d \<Longrightarrow> insertDigitalConfig J (ud i) s = Inr (add_digital p i s)"
    by metis
  obtain v f where v: "pmu_json J p = Inr v" "shows_object J v f"
      "\<And>k. k \<noteq> ''phasor'' \<Longrightarrow> k \<noteq> ''analog'' \<Longrightarrow> k \<noteq> ''digital'' \<Longrightarrow> f k = map_of (pmu_members J p) k"
      "shows_units J f ''phasor'' (map up [0..<?n])" "shows_units J f ''analog'' (map ua [0..<?a])"
      "shows_units J f ''digital'' (map ud [0..<?d])"
    using pmu_json_shows[OF assms(1) up(1) ua(1) ud(1)] by metis
  note units = load_phasors_units[OF v(2,4) up(2)] load_analogs_units[OF v(2,5) ua(2)]
    load_digitals_units[OF v(2,6) ud(2) _ _ _ _ store(7-9)]
  have lists: "map (\<lambda>i. word_of_int (uint (pc_phasorConversion p ! i))) [0..<?n] = pc_phasorConversion p"
      "map (\<lambda>i. word_of_int (sint (pc_analogConversion p ! i))) [0..<?a] = pc_analogConversion p"
    using store(3,6) by (simp_all add: list_eq_iff_nth_eq)
  define q where "q = default_PmuConfig\<lparr>pc_stationName := pc_stationName p, pc_sourceID := pc_sourceID p,
    pc_changeCount := pc_changeCount p, pc_phasorFormat := pc_phasorFormat p, pc_analogFormat := pc_analogFormat p,
    pc_freqFormat := pc_freqFormat p, pc_phasorCoordinates := pc_phasorCoordinates p,
    pc_nominalFrequency := pc_nominalFrequency p\<rparr>"
  have coordinates: "(if (if c = polar_phasor then ''polar'' else ''rectangular'') = ''polar'' then polar_phasor
      else rectangular_phasor) = c" for c :: "1 word"
    using bit1_cases[of c] by auto
  have q0: "q\<lparr>pc_lat := 0, pc_lon := 0, pc_elev := 0\<rparr> = q" by (simp add: q_def default_PmuConfig_def)
  have "loadPmuConfigJson J v = attempt (load_phasors J v q) (\<lambda>pmu. attempt (load_analogs J v pmu) (load_digitals J v))"
    unfolding q_def
    by (simp add: loadPmuConfigJson_def replace_defs replace_shows[OF v(2)] v(3) pmu_members_def load_id_def
        load_format_def scalars[OF assms(1)] words16[OF assms(1)] format_name_reloads coordinates f32_widen_narrow[OF store(10)]
        default_PmuConfig_def del: if_split)
  then have "loadPmuConfigJson J v = Inr (reloaded_pmu p)"
    using store by (simp add: units q_def default_PmuConfig_def lists map_nth_upto reloaded_pmu_def
        map_nth_upto[of _ _ "\<lambda>x. x", simplified])
  then show ?thesis using v(1) by blast
qed

section \<open>Growing arrays\<close>

text \<open>The writers create the array under a key when it is missing and append to it.\<close>

lemma grow_array:
  assumes "json_laws J" "shows_object J v f" "shows_units J f key us"
  shows "\<exists>v' f'. attempt (ensure_array J key v) (append_member J key u) = Inr v' \<and> shows_object J v' f' \<and>
    shows_units J f' key (us @ [u]) \<and> (\<forall>k. k \<noteq> key \<longrightarrow> f' k = f k)"
proof -
  obtain v1 f1 a where v1: "ensure_array J key v = Inr v1" "shows_object J v1 f1" "f1 key = Some a" "shows_array J a us"
      "\<forall>k. k \<noteq> key \<longrightarrow> f1 k = f k"
  proof (cases "us = []")
    case True
    then have none: "f key = None" using assms(3) by (simp add: shows_units_def)
    obtain v1 where "js_set J v key (js_array J) = Inr v1" "shows_object J v1 (f(key \<mapsto> js_array J))"
      using set_shows[OF assms(1,2)] by blast
    then show thesis using that[of v1 "f(key \<mapsto> js_array J)" "js_array J"] none True shows_empty_array[OF assms(1)]
      by (simp add: ensure_array_def member_shows[OF assms(2)])
  next
    case False
    then obtain a where "f key = Some a" "shows_array J a us" using assms(3) by (auto simp: shows_units_def)
    then show thesis using that[of v f a] assms(2) by (simp add: ensure_array_def member_shows[OF assms(2)])
  qed
  obtain v' a' where v': "append_member J key u v1 = Inr v'" "shows_object J v' (f1(key \<mapsto> a'))" "shows_array J a' (us @ [u])"
    using append_member_shows[OF assms(1) v1(2-4)] by blast
  then show ?thesis using v1(1,5)
    by (intro exI[of _ v'] exI[of _ "f1(key \<mapsto> a')"]) (simp add: shows_units_def)
qed

lemma grow_array_each:
  assumes "json_laws J" "shows_object J v f" "shows_units J f key us"
    and "\<And>x v. x \<in> set xs \<Longrightarrow> step x v = attempt (ensure_array J key v) (append_member J key (u x))"
  shows "\<exists>v' f'. attempt_fold step xs v = Inr v' \<and> shows_object J v' f' \<and> shows_units J f' key (us @ map u xs) \<and>
    (\<forall>k. k \<noteq> key \<longrightarrow> f' k = f k)"
  using assms(2-)
proof (induction xs arbitrary: v f us)
  case Nil
  then show ?case by auto
next
  case (Cons x xs)
  obtain v1 f1 where v1: "attempt (ensure_array J key v) (append_member J key (u x)) = Inr v1" "shows_object J v1 f1"
      "shows_units J f1 key (us @ [u x])" "\<forall>k. k \<noteq> key \<longrightarrow> f1 k = f k"
    using grow_array[OF assms(1) Cons.prems(1,2)] by blast
  have tl: "\<And>y v. y \<in> set xs \<Longrightarrow> step y v = attempt (ensure_array J key v) (append_member J key (u y))"
    using Cons.prems(3) by simp
  have "step x v = Inr v1" using Cons.prems(3)[of x v] v1(1) by simp
  with Cons.IH[OF v1(2,3) tl] v1(4) show ?case by simp
qed

lemma load_each:
  assumes "\<And>x. x \<in> set xs \<Longrightarrow> load (u x) = Inr (g x)"
  shows "attempt_fold (\<lambda>j s. attempt (load j) (\<lambda>y. Inr (add y s))) (map u xs) s = Inr (fold (\<lambda>x. add (g x)) xs s)"
  using assms by (induction xs arbitrary: s) simp_all

section \<open>A configuration\<close>

definition reloaded_config :: "Config \<Rightarrow> Config" where
  "reloaded_config c = c\<lparr>cfg_soc := 0, cfg_fracsec := 0, cfg_pmus := map reloaded_pmu (cfg_pmus c)\<rparr>"

lemma fold_add_pmu: "fold (\<lambda>x c. c\<lparr>cfg_pmus := cfg_pmus c @ [g x]\<rparr>) xs c = c\<lparr>cfg_pmus := cfg_pmus c @ map g xs\<rparr>"
  by (induction xs arbitrary: c) simp_all

lemma sint_range: "- (2 ^ 31) \<le> sint (w :: u16)" "sint w < 2 ^ 31" "- (2 ^ 31) \<le> sint (x :: u32)" "sint x < 2 ^ 31"
  using sint_greater_eq[of w] sint_less[of w] sint_greater_eq[of x] sint_less[of x] by simp_all


definition stored_pmu :: PmuConfig where
  "stored_pmu = default_PmuConfig\<lparr>pc_stationName := ''bus'', pc_sourceID := 7, pc_phasorCount := 1, pc_phasorNames := [''VA''],
     pc_phasorType := [PhT_voltage], pc_phasorConversion := [915527], pc_analogCount := 1, pc_analogNames := [''P''],
     pc_analogType := [AnT_rms], pc_analogConversion := [1], pc_digitalWordCount := 1,
     pc_digitChannelNames := replicate 16 ''D'', pc_digitalActive := [0xFFFF], pc_digitalNominal := [0]\<rparr>"


end
