(* ===== verification/Json_Text.thy ===== *)
theory Json_Text
  imports Json_Access
begin

text \<open>
  What jsoncpp's reader makes of the text its writer produced.  The two are parameters (\<open>Json_Access\<close>), and what the
  reader returns is in general not the value that was written: an unsigned number that fits an \<open>int\<close> comes
  back as a signed one, and a number that is not finite is written as a text that is no number.  \<open>json_text_laws\<close> states
  what is documented: the text of a value built from numbers of 32 bits, finite doubles, arrays and objects
  whose keys are printable ASCII, nested less deep than the limit of the reader, is accepted, also with a newline behind
  it, and every access that works on the value works on the result and gives the same.

  The last sections hold an instance with a writer and a reader that are functions on strings.
\<close>

section \<open>The law\<close>

text \<open>\<open>v'\<close> answers every access as \<open>v\<close> does.\<close>

coinductive same_json :: "'j Json \<Rightarrow> 'j \<Rightarrow> 'j \<Rightarrow> bool" for J where
  same_json: "\<lbrakk>\<And>k. kept (js_isMember J v k) (js_isMember J v' k);
     \<And>k x. js_get J v k = Inr x \<Longrightarrow> \<exists>x'. js_get J v' k = Inr x' \<and> same_json J x x';
     \<And>i x. js_at J v i = Inr x \<Longrightarrow> \<exists>x'. js_at J v' i = Inr x' \<and> same_json J x x';
     list_all2 (same_json J) (js_elems J v) (js_elems J v');
     js_isArray J v' = js_isArray J v; js_isObject J v' = js_isObject J v; js_isUInt J v' = js_isUInt J v;
     js_isString J v' = js_isString J v; js_isBool J v' = js_isBool J v;
     kept (js_asString J v) (js_asString J v'); kept (js_asInt J v) (js_asInt J v');
     kept (js_asInt64 J v) (js_asInt64 J v'); kept (js_asUInt J v) (js_asUInt J v');
     kept (js_asBool J v) (js_asBool J v'); kept (js_asDouble J v) (js_asDouble J v');
     kept (js_asFloat J v) (js_asFloat J v')\<rbrakk> \<Longrightarrow> same_json J v v'"

text \<open>A value of at most \<open>n\<close> arrays and objects inside each other and a scalar or an empty one at the bottom.\<close>

definition plain_key :: "string \<Rightarrow> bool" where
  "plain_key k \<longleftrightarrow> list_all (\<lambda>c. 32 \<le> (of_char c :: nat) \<and> (of_char c :: nat) < 127) k"

definition f64_finite :: "f64 \<Rightarrow> bool" where
  "f64_finite d \<longleftrightarrow> f64_mag d < top64"

inductive printable :: "'j Json \<Rightarrow> nat \<Rightarrow> 'j \<Rightarrow> bool" for J where
  null: "printable J n (js_null J)"
| array: "printable J n (js_array J)"
| object: "printable J n (js_object J)"
| int: "- (2 ^ 31) \<le> i \<Longrightarrow> i < 2 ^ 31 \<Longrightarrow> printable J n (js_int J i)"
| uint: "printable J n (js_uint J w)"
| double: "f64_finite d \<Longrightarrow> printable J n (js_double J d)"
| set: "printable J (Suc n) v \<Longrightarrow> plain_key k \<Longrightarrow> printable J n x \<Longrightarrow> js_set J v k x = Inr v' \<Longrightarrow> printable J (Suc n) v'"
| append: "printable J (Suc n) v \<Longrightarrow> printable J n x \<Longrightarrow> js_append J v x = Inr v' \<Longrightarrow> printable J (Suc n) v'"
| member: "printable J (Suc n) v \<Longrightarrow> js_get J v k = Inr x \<Longrightarrow> printable J n x"

definition json_text_laws :: "'j Json \<Rightarrow> bool" where
  "json_text_laws J \<longleftrightarrow> (\<forall>n v. n < 1000 \<longrightarrow> printable J n v \<longrightarrow>
     (\<exists>v'. js_parse J (js_write J v @ [CHR 0x0A]) = Inr v' \<and> same_json J v v'))"

section \<open>Accesses\<close>

lemma same_get: "same_json J v v' \<Longrightarrow> js_get J v k = Inr x \<Longrightarrow> \<exists>x'. js_get J v' k = Inr x' \<and> same_json J x x'"
  by (erule same_json.cases) blast

lemma same_at: "same_json J v v' \<Longrightarrow> js_at J v i = Inr x \<Longrightarrow> \<exists>x'. js_at J v' i = Inr x' \<and> same_json J x x'"
  by (erule same_json.cases) blast

lemma same_flags:
  assumes "same_json J v v'"
  shows "js_isArray J v' = js_isArray J v" "js_isObject J v' = js_isObject J v" "js_isUInt J v' = js_isUInt J v"
    "js_isString J v' = js_isString J v" "js_isBool J v' = js_isBool J v"
    and same_elems: "list_all2 (same_json J) (js_elems J v) (js_elems J v')"
    and same_length: "length (js_elems J v') = length (js_elems J v)"
  using assms by (auto elim!: same_json.cases dest: list_all2_lengthD)

lemma kept_accesses [kept_intros]:
  assumes "same_json J v v'"
  shows "kept (js_isMember J v k) (js_isMember J v' k)" "kept (js_asString J v) (js_asString J v')"
    "kept (js_asInt J v) (js_asInt J v')" "kept (js_asInt64 J v) (js_asInt64 J v')" "kept (js_asUInt J v) (js_asUInt J v')"
    "kept (js_asBool J v) (js_asBool J v')" "kept (js_asDouble J v) (js_asDouble J v')"
    "kept (js_asFloat J v) (js_asFloat J v')"
  using assms by (auto elim: same_json.cases)

lemma kept_get:
  assumes "same_json J v v'" "\<And>x x'. same_json J x x' \<Longrightarrow> kept (f x) (f' x')"
  shows "kept (attempt (js_get J v k) f) (attempt (js_get J v' k) f')"
  using same_get[OF assms(1)] assms(2) by (fastforce simp: kept_def attempt_eq_Inr)

lemma kept_at:
  assumes "same_json J v v'" "\<And>x x'. same_json J x x' \<Longrightarrow> kept (f x) (f' x')"
  shows "kept (attempt (js_at J v i) f) (attempt (js_at J v' i) f')"
  using same_at[OF assms(1)] assms(2) by (fastforce simp: kept_def attempt_eq_Inr)

lemma kept_replace:
  assumes "same_json J v v'" "\<And>x x'. same_json J x x' \<Longrightarrow> kept (conv x) (conv x')"
  shows "kept (replaceIfMember J conv v key d) (replaceIfMember J conv v' key d)"
  unfolding replaceIfMember_def getOrDefault_def
  by (intro kept_attempt kept_if kept_get assms kept_accesses kept_refl)

section \<open>An instance: the writer\<close>

fun write_nat :: "nat \<Rightarrow> string" where
  "write_nat n = (if n = 0 then ''.'' else (if odd n then CHR ''1'' else CHR ''0'') # write_nat (n div 2))"

declare write_nat.simps [simp del]

definition write_string :: "string \<Rightarrow> string" where
  "write_string s = write_nat (length s) @ s"

text \<open>A number is written the same way whether its type is signed or not.\<close>

fun write_text :: "sample_value \<Rightarrow> string" where
  "write_text SNull = ''n''"
| "write_text (SBool b) = (if b then ''t'' else ''f'')"
| "write_text (SInt i) = (if i < 0 then CHR ''-'' # write_nat (nat (- i)) else CHR ''+'' # write_nat (nat i))"
| "write_text (SUInt w) = CHR ''+'' # write_nat (unat w)"
| "write_text (SReal d) = CHR ''d'' # write_nat (unat d)"
| "write_text (SString s) = CHR ''s'' # write_string s"
| "write_text (SArray xs) = CHR ''['' # write_nat (length xs) @ concat (map write_text xs)"
| "write_text (SObject kvs) = CHR ''{'' # write_nat (length kvs) @ concat (map (\<lambda>(k, v). write_string k @ write_text v) kvs)"

section \<open>An instance: the reader\<close>

fun read_nat :: "string \<Rightarrow> (nat \<times> string) option" where
  "read_nat [] = None"
| "read_nat (c # s) =
     (if c = CHR ''.'' then Some (0, s)
      else if c = CHR ''0'' then map_option (\<lambda>(n, s). (2 * n, s)) (read_nat s)
      else if c = CHR ''1'' then map_option (\<lambda>(n, s). (2 * n + 1, s)) (read_nat s) else None)"

definition read_string :: "string \<Rightarrow> (string \<times> string) option" where
  "read_string s = Option.bind (read_nat s) (\<lambda>(n, s). if n \<le> length s then Some (take n s, drop n s) else None)"

fun read_many :: "(string \<Rightarrow> ('a \<times> string) option) \<Rightarrow> nat \<Rightarrow> string \<Rightarrow> ('a list \<times> string) option" where
  "read_many rd 0 s = Some ([], s)"
| "read_many rd (Suc n) s = Option.bind (rd s) (\<lambda>(x, s). map_option (\<lambda>(xs, s). (x # xs, s)) (read_many rd n s))"

definition read_member :: "(string \<Rightarrow> (sample_value \<times> string) option) \<Rightarrow> string \<Rightarrow> ((string \<times> sample_value) \<times> string) option" where
  "read_member rd s = Option.bind (read_string s) (\<lambda>(k, s). map_option (\<lambda>(v, s). ((k, v), s)) (rd s))"

text \<open>The smallest type that holds a number is the one it is read as, signed ones first.\<close>

definition read_number :: "nat \<Rightarrow> sample_value" where
  "read_number n = (if 2 ^ 31 \<le> n \<and> n < 2 ^ 32 then SUInt (of_nat n) else SInt (int n))"

fun read_text :: "nat \<Rightarrow> string \<Rightarrow> (sample_value \<times> string) option" where
  "read_text 0 s = None"
| "read_text (Suc fuel) [] = None"
| "read_text (Suc fuel) (c # s) =
     (if c = CHR ''n'' then Some (SNull, s)
      else if c = CHR ''t'' then Some (SBool True, s)
      else if c = CHR ''f'' then Some (SBool False, s)
      else if c = CHR ''+'' then map_option (\<lambda>(n, s). (read_number n, s)) (read_nat s)
      else if c = CHR ''-'' then map_option (\<lambda>(n, s). (SInt (- int n), s)) (read_nat s)
      else if c = CHR ''d'' then map_option (\<lambda>(n, s). (SReal (of_nat n), s)) (read_nat s)
      else if c = CHR ''s'' then map_option (\<lambda>(t, s). (SString t, s)) (read_string s)
      else if c = CHR ''['' then Option.bind (read_nat s) (\<lambda>(n, s).
        map_option (\<lambda>(xs, s). (SArray xs, s)) (read_many (read_text fuel) n s))
      else if c = CHR ''{'' then Option.bind (read_nat s) (\<lambda>(n, s).
        map_option (\<lambda>(kvs, s). (SObject kvs, s)) (read_many (read_member (read_text fuel)) n s))
      else None)"

definition parse_text :: "string \<Rightarrow> string + sample_value" where
  "parse_text s = (case read_text (length s) s of
     Some (v, rest) \<Rightarrow> if rest = [] \<or> rest = [CHR 0x0A] then Inr v else Inl ''extra characters''
   | None \<Rightarrow> Inl ''syntax error'')"

definition text_json :: "sample_value Json" where
  "text_json = sample_json\<lparr>js_parse := parse_text, js_write := write_text\<rparr>"

text \<open>What is read for a value that was written.\<close>

fun reread :: "sample_value \<Rightarrow> sample_value" where
  "reread (SInt i) = (if i < 0 then SInt i else read_number (nat i))"
| "reread (SUInt w) = read_number (unat w)"
| "reread (SArray xs) = SArray (map reread xs)"
| "reread (SObject kvs) = SObject (map (\<lambda>(k, v). (k, reread v)) kvs)"
| "reread v = v"

lemma read_write_nat: "read_nat (write_nat n @ s) = Some (n, s)"
proof (induction n rule: write_nat.induct)
  case (1 n)
  show ?case
  proof (cases "n = 0")
    case True
    then show ?thesis by (simp add: write_nat.simps[of 0])
  next
    case False
    with 1 show ?thesis by (auto simp: write_nat.simps[of n])
  qed
qed

lemma read_write_string: "read_string (write_string k @ s) = Some (k, s)"
  by (simp add: read_string_def write_string_def read_write_nat)

lemma read_many_written:
  assumes "\<And>x s. x \<in> set xs \<Longrightarrow> rd (wr x @ s) = Some (g x, s)"
  shows "read_many rd (length xs) (concat (map wr xs) @ s) = Some (map g xs, s)"
  using assms by (induction xs arbitrary: s) simp_all

lemma write_text_part:
  "x \<in> set xs \<Longrightarrow> length (write_text x) < length (write_text (SArray xs))"
  "(k, v) \<in> set kvs \<Longrightarrow> length (write_text v) < length (write_text (SObject kvs))"
proof -
  have sum: "y \<in> set ys \<Longrightarrow> length (f y) \<le> length (concat (map f ys))" for y :: 'b and ys and f :: "'b \<Rightarrow> string"
    by (induction ys) auto
  show "x \<in> set xs \<Longrightarrow> length (write_text x) < length (write_text (SArray xs))"
    using sum[of x xs write_text] by simp
  show "(k, v) \<in> set kvs \<Longrightarrow> length (write_text v) < length (write_text (SObject kvs))"
    using sum[of "(k, v)" kvs "\<lambda>(k, v). write_string k @ write_text v"] by simp
qed

lemma read_write_text: "length (write_text v) \<le> fuel \<Longrightarrow> read_text fuel (write_text v @ s) = Some (reread v, s)"
proof (induction v arbitrary: fuel s)
  case (SArray xs)
  then obtain f where f: "fuel = Suc f" by (cases fuel) auto
  have "read_text f (write_text x @ s) = Some (reread x, s)" if "x \<in> set xs" for x s
    using SArray.IH[OF that] SArray.prems write_text_part(1)[OF that] f by simp
  then show ?case by (simp add: f read_write_nat read_many_written[where wr = write_text and g = reread])
next
  case (SObject kvs)
  then obtain f where f: "fuel = Suc f" by (cases fuel) auto
  have "read_member (read_text f) ((case kv of (k, v) \<Rightarrow> write_string k @ write_text v) @ s) =
      Some (case kv of (k, v) \<Rightarrow> (k, reread v), s)" if "kv \<in> set kvs" for kv s
  proof -
    obtain k v where kv: "kv = (k, v)" by fastforce
    then have "read_text f (write_text v @ s) = Some (reread v, s)"
      using SObject.IH[of kv v] SObject.prems write_text_part(2)[of k v kvs] that f by (simp add: prod_set_simps)
    then show ?thesis by (simp add: kv read_member_def read_write_string)
  qed
  then show ?case by (simp add: f read_write_nat read_many_written)
next
  case (SInt i)
  then obtain f where "fuel = Suc f" by (cases fuel) (auto split: if_splits)
  then show ?case by (simp add: read_write_nat)
next
  case (SUInt w)
  then obtain f where "fuel = Suc f" by (cases fuel) auto
  then show ?case by (simp add: read_write_nat)
next
  case (SReal d)
  then obtain f where "fuel = Suc f" by (cases fuel) auto
  then show ?case by (simp add: read_write_nat)
next
  case (SString t)
  then obtain f where "fuel = Suc f" by (cases fuel) auto
  then show ?case by (simp add: read_write_string)
next
  case SNull
  then obtain f where "fuel = Suc f" by (cases fuel) auto
  then show ?case by simp
next
  case (SBool b)
  then obtain f where "fuel = Suc f" by (cases fuel) (auto split: if_splits)
  then show ?case by simp
qed

text \<open>Accesses do not tell the two apart.\<close>

lemma text_json_laws: "json_laws text_json"
proof -
  have "json_laws (J\<lparr>js_parse := p, js_write := w\<rparr>) = json_laws J" for J :: "sample_value Json" and p w
    by (cases J) (simp only: json_laws_def json_object_laws_def json_array_laws_def json_scalar_laws_def Json.simps)
  then show ?thesis using sample_json_laws by (simp only: text_json_def)
qed

lemma read_number_cases:
  obtains "read_number n = SInt (int n)" "n < 2 ^ 31 \<or> 2 ^ 32 \<le> n"
    | "read_number n = SUInt (of_nat n)" "2 ^ 31 \<le> n" "uint (of_nat n :: u32) = int n"
proof (cases "2 ^ 31 \<le> n \<and> n < 2 ^ 32")
  case True
  then have "uint (of_nat n :: u32) = int n" by (simp add: unsigned_of_nat take_bit_nat_eq_self)
  with True that show thesis by (simp add: read_number_def)
next
  case False
  then have "n < 2 ^ 31 \<or> 2 ^ 32 \<le> n" by linarith
  with False that show thesis by (simp add: read_number_def)
qed

text \<open>A number of either type reads the same, but for the accesses that throw.\<close>

definition same_number :: "sample_value \<Rightarrow> sample_value \<Rightarrow> bool" where
  "same_number v v' \<longleftrightarrow> kept (sample_int v) (sample_int v') \<and> kept (sample_uint v) (sample_uint v') \<and>
     sample_double v' = sample_double v \<and> js_isUInt text_json v' = js_isUInt text_json v"

lemma reread_number:
  "0 \<le> i \<Longrightarrow> same_number (SInt i) (read_number (nat i))" "same_number (SUInt w) (read_number (unat w))"
proof -
  assume "0 \<le> i"
  then show "same_number (SInt i) (read_number (nat i))"
    by (cases "nat i" rule: read_number_cases)
      (auto simp: same_number_def kept_def text_json_def sample_json_def of_nat_nat)
next
  have "unat w < 2 ^ 32" using unsigned_less[of w, where 'a = nat] by simp
  moreover have "- 2147483648 \<le> uint w" by (rule order_trans[of _ 0]) simp_all
  ultimately show "same_number (SUInt w) (read_number (unat w))"
    by (cases "unat w" rule: read_number_cases)
      (auto simp: same_number_def kept_def text_json_def sample_json_def)
qed

lemma map_of_reread: "map_of (map (\<lambda>(k, v). (k, reread v)) kvs) k = map_option reread (map_of kvs k)"
  by (simp add: map_of_map)

lemma sample_text_accesses [simp]:
  "js_isMember text_json = sample_member" "js_get text_json = sample_get" "js_at text_json = sample_at"
  "js_elems text_json = sample_elems" "js_asString text_json = sample_string" "js_asInt text_json = sample_int"
  "js_asInt64 text_json = sample_int" "js_asUInt text_json = sample_uint" "js_asBool text_json = sample_bool"
  "js_asDouble text_json = sample_double"
  "js_asFloat text_json = (\<lambda>v. attempt (sample_double v) (\<lambda>d. Inr (f32_of_f64 d)))"
  "js_isArray text_json v = (case v of SArray _ \<Rightarrow> True | _ \<Rightarrow> False)"
  "js_isObject text_json v = (case v of SObject _ \<Rightarrow> True | _ \<Rightarrow> False)"
  "js_isUInt text_json v = (case v of SUInt _ \<Rightarrow> True | SInt i \<Rightarrow> 0 \<le> i | _ \<Rightarrow> False)"
  "js_isString text_json v = (case v of SString _ \<Rightarrow> True | _ \<Rightarrow> False)"
  "js_isBool text_json v = (case v of SBool _ \<Rightarrow> True | _ \<Rightarrow> False)"
  "js_parse text_json = parse_text" "js_write text_json = write_text"
  by (simp_all add: text_json_def sample_json_def)

lemma read_number_is:
  "sample_member (read_number n) k = Inl (json_error ''isMember'')" "sample_get (read_number n) k = Inl (json_error ''operator[]'')"
  "sample_at (read_number n) i = Inl (json_error ''operator[]'')" "sample_elems (read_number n) = []"
  "sample_string (read_number n) = Inl (json_error ''not convertible to string'')"
  "sample_bool (read_number n) = Inl (json_error ''not convertible to bool'')"
  "\<not> (case read_number n of SArray _ \<Rightarrow> True | _ \<Rightarrow> False)" "\<not> (case read_number n of SObject _ \<Rightarrow> True | _ \<Rightarrow> False)"
  "\<not> (case read_number n of SString _ \<Rightarrow> True | _ \<Rightarrow> False)" "\<not> (case read_number n of SBool _ \<Rightarrow> True | _ \<Rightarrow> False)"
  by (simp_all add: read_number_def)

lemma same_reread: "same_json text_json v (reread v)"
proof (coinduction arbitrary: v)
  case (same_json v)
  have refl: "list_all2 (\<lambda>x x'. (\<exists>v. x = v \<and> x' = reread v) \<or> same_json text_json x x') xs (map reread xs)" for xs
    by (induction xs) simp_all
  show ?case
  proof (cases v)
    case (SInt i)
    then show ?thesis
      using reread_number(1)[of i] by (cases "i < 0") (auto simp: kept_refl same_number_def read_number_is)
  next
    case (SUInt w)
    then show ?thesis using reread_number(2)[of w] by (auto simp: kept_refl same_number_def read_number_is)
  next
    case (SArray xs)
    then show ?thesis using refl[of xs] by (auto simp: kept_refl)
  next
    case (SObject kvs)
    have "snd \<circ> (\<lambda>(k :: string, v). (k, reread v)) = reread \<circ> snd" by auto
    then show ?thesis using refl[of "map snd kvs"] SObject by (auto simp: kept_refl map_of_reread split: option.splits)
  qed (auto simp: kept_refl)
qed

lemma text_json_text_laws: "json_text_laws text_json"
proof -
  have "parse_text (write_text v @ [CHR 0x0A]) = Inr (reread v)" for v
    using read_write_text[of v "length (write_text v @ [CHR 0x0A])" "[CHR 0x0A]"] by (simp add: parse_text_def)
  then show ?thesis using same_reread by (simp add: json_text_laws_def)
qed

end
