(* ===== verification/Json_Data.thy ===== *)
theory Json_Data
  imports Json_Roundtrip Json_Text Data_Frame
begin

text \<open>
  Measurements as JSON (\<open>src/pmu/configure.cpp\<close>): \<open>writeDataJson\<close>, \<open>writeDataFile\<close>, \<open>loadDataFrame\<close> and
  \<open>loadDataFile\<close>, and what a frame becomes when it is written and loaded again.  Members of a new \<open>PmuDataFrame\<close> that
  the loader leaves alone are indeterminate; \<open>new_data_frame\<close> has zeros for them.
\<close>

section \<open>Writing\<close>

definition optional_array :: "'j Json \<Rightarrow> string \<Rightarrow> 'j list \<Rightarrow> 'j \<Rightarrow> exn + 'j" where
  "optional_array J key xs pmuJ =
     (if xs = [] then Inr pmuJ
      else attempt (attempt_fold (\<lambda>x arr. js_append J arr x) xs (js_array J)) (js_set J pmuJ key))"

definition pmu_data_json :: "'j Json \<Rightarrow> PmuData \<Rightarrow> exn + 'j" where
  "pmu_data_json J pmu =
     attempt (set_members J [(''freq'', js_double J (pd_freq pmu)), (''rocof'', js_double J (pd_rocof pmu)),
       (''stat'', js_uint J (ucast (pd_stat pmu)))] (js_null J)) (\<lambda>pmuJ.
     attempt (optional_array J ''phasor''
       (concat (map (\<lambda>(re, im). [js_double J re, js_double J im]) (pd_phasors pmu))) pmuJ) (\<lambda>pmuJ.
     attempt (optional_array J ''analog'' (map (js_double J) (pd_analog pmu)) pmuJ)
       (optional_array J ''digital'' (map (\<lambda>d. js_uint J (ucast d)) (pd_digital pmu)))))"

definition writePmuDataJson :: "'j Json \<Rightarrow> PmuData \<Rightarrow> 'j \<Rightarrow> exn + 'j" where
  "writePmuDataJson J pmu jv =
     attempt (ensure_array J ''pmu'' jv) (\<lambda>jv.
     attempt (pmu_data_json J pmu) (\<lambda>pmuJ. append_member J ''pmu'' pmuJ jv))"

definition addDataFrameJson :: "'j Json \<Rightarrow> PmuDataFrame \<Rightarrow> 'j \<Rightarrow> exn + 'j" where
  "addDataFrameJson J pdf jv =
     attempt (set_members J [(''id'', js_uint J (ucast (pdf_idcode pdf))),
       (''time_quality'', js_uint J (ucast (pdf_timeQuality pdf))), (''soc'', js_uint J (pdf_soc pdf)),
       (''fracsec'', js_double J (pdf_fracSec pdf))] jv) (attempt_fold (writePmuDataJson J) (pdf_pmus pdf))"

text \<open>The two overloads of \<open>writeDataJson\<close>.\<close>

definition writeDataJson :: "'j Json \<Rightarrow> PmuDataFrame \<Rightarrow> 'j \<Rightarrow> exn + 'j" where
  "writeDataJson J data df =
     attempt (ensure_array J ''data'' df) (\<lambda>df.
     attempt (addDataFrameJson J data (js_object J)) (\<lambda>dv. append_member J ''data'' dv df))"

definition writeDataJson_all :: "'j Json \<Rightarrow> PmuDataFrame list \<Rightarrow> 'j \<Rightarrow> exn + 'j" where
  "writeDataJson_all J data df =
     attempt (ensure_array J ''data'' df) (attempt_fold (\<lambda>pd df.
       attempt (addDataFrameJson J pd (js_object J)) (\<lambda>dv. append_member J ''data'' dv df)) data)"

text \<open>\<open>writeDataFile\<close> with \<open>write\<close> for the overload of \<open>writeDataJson\<close> it calls.\<close>

definition write_data_document :: "'j Json \<Rightarrow> (string \<Rightarrow> bool) \<Rightarrow> string \<Rightarrow> ('j \<Rightarrow> exn + 'j) \<Rightarrow> (string \<rightharpoonup> string) \<Rightarrow>
    exn + (string \<rightharpoonup> string)" where
  "write_data_document J writable dataFile write files =
     attempt (write (js_object J)) (\<lambda>doc. Inr (write_file writable dataFile (generateJsonString J doc) files))"

definition write_data_file :: "'j Json \<Rightarrow> (string \<Rightarrow> bool) \<Rightarrow> string \<Rightarrow> ('j \<Rightarrow> exn + 'j) \<Rightarrow> (string \<rightharpoonup> string) \<Rightarrow>
    exn + (string \<rightharpoonup> string)" where
  "write_data_file J writable dataFile write files =
     attempt (hasJsonExtension dataFile) (\<lambda>json.
       if json then write_data_document J writable dataFile write files
       else attempt (substr dataFile (size_sub (length dataFile) 3)) (\<lambda>ext.
         if ext = ''csv'' \<or> ext = ''CSV'' then Inr files
         else write_data_document J writable dataFile write files))"

definition writeDataFile :: "'j Json \<Rightarrow> (string \<Rightarrow> bool) \<Rightarrow> string \<Rightarrow> PmuDataFrame \<Rightarrow> (string \<rightharpoonup> string) \<Rightarrow>
    exn + (string \<rightharpoonup> string)" where
  "writeDataFile J writable dataFile data = write_data_file J writable dataFile (writeDataJson J data)"

definition writeDataFile_all :: "'j Json \<Rightarrow> (string \<Rightarrow> bool) \<Rightarrow> string \<Rightarrow> PmuDataFrame list \<Rightarrow> (string \<rightharpoonup> string) \<Rightarrow>
    exn + (string \<rightharpoonup> string)" where
  "writeDataFile_all J writable dataFile data = write_data_file J writable dataFile (writeDataJson_all J data)"

section \<open>Loading\<close>

definition member_double :: "'j Json \<Rightarrow> 'j \<Rightarrow> string \<Rightarrow> exn + f64" where
  "member_double J jv key = attempt (js_get J jv key) (js_asDouble J)"

definition load_phasor_values :: "'j Json \<Rightarrow> Libm \<Rightarrow> bool \<Rightarrow> 'j \<Rightarrow> PmuData \<Rightarrow> exn + PmuData" where
  "load_phasor_values J L polar phasor = attempt_fold (\<lambda>k data.
     attempt (attempt (js_at J phasor (2 * k)) (js_asDouble J)) (\<lambda>a.
     attempt (attempt (js_at J phasor (2 * k + 1)) (js_asDouble J)) (\<lambda>b.
       Inr (data\<lparr>pd_phasors := pd_phasors data @ [if polar then lm_polar L a b else (a, b)]\<rparr>))))
     [0..<(length (js_elems J phasor) + 1) div 2]"

definition loadPmuDataJson :: "'j Json \<Rightarrow> Libm \<Rightarrow> 'j \<Rightarrow> exn + PmuData" where
  "loadPmuDataJson J L jv =
     attempt (member_double J jv ''freq'') (\<lambda>freq.
     attempt (member_double J jv ''rocof'') (\<lambda>rocof.
     attempt (replace_uint J jv ''stat'' 0) (\<lambda>stat.
     attempt (replace_bool J jv ''polar_coordinates'' False) (\<lambda>polar.
     attempt (js_get J jv ''phasor'') (\<lambda>phasor.
     attempt (load_phasor_values J L polar phasor
       (default_PmuData\<lparr>pd_freq := freq, pd_rocof := rocof, pd_stat := ucast stat\<rparr>)) (\<lambda>data.
     attempt (js_get J jv ''analog'') (\<lambda>analog.
     attempt (attempt_fold (\<lambda>v data. attempt (js_asDouble J v) (\<lambda>a.
       Inr (data\<lparr>pd_analog := pd_analog data @ [a]\<rparr>))) (js_elems J analog) data) (\<lambda>data.
     attempt (js_get J jv ''digital'') (\<lambda>digital.
     attempt_fold (\<lambda>v data. attempt (js_asUInt J v) (\<lambda>w.
       Inr (data\<lparr>pd_digital := pd_digital data @ [ucast w]\<rparr>))) (js_elems J digital) data)))))))))"

definition new_data_frame :: PmuDataFrame where
  "new_data_frame = \<lparr>pdf_idcode = 0, pdf_timeQuality = 0, pdf_parseResult = not_parsed, pdf_soc = 0, pdf_fracSec = 0,
     pdf_pmus = []\<rparr>"

text \<open>The time stamp: \<open>time\<close> in seconds, or \<open>soc\<close> and \<open>fracsec\<close>.\<close>

definition load_data_time :: "'j Json \<Rightarrow> 'j \<Rightarrow> PmuDataFrame \<Rightarrow> exn + PmuDataFrame" where
  "load_data_time J jv pdf =
     attempt (js_isMember J jv ''time'') (\<lambda>m.
       if m then attempt (member_double J jv ''time'') (\<lambda>df.
         attempt (defined (f64_to_u32 (f64_floor df))) (\<lambda>soc.
           Inr (pdf\<lparr>pdf_soc := soc, pdf_fracSec := f64_sub df (f64_floor df)\<rparr>)))
       else attempt (js_isMember J jv ''soc'') (\<lambda>m.
         if \<not> m then Inr pdf
         else attempt (attempt (js_get J jv ''soc'') (js_asInt J)) (\<lambda>soc.
           attempt (js_isMember J jv ''fracsec'') (\<lambda>m.
             if m then attempt (member_double J jv ''fracsec'') (\<lambda>fracSec.
               Inr (pdf\<lparr>pdf_soc := word_of_int soc, pdf_fracSec := fracSec\<rparr>))
             else Inr (pdf\<lparr>pdf_soc := word_of_int soc\<rparr>)))))"

text \<open>\<open>loadDataFrame\<close> with \<open>checkObject\<close> false.  The variable read for the identification code is read again for the
  time quality.  A value that is not an object is first marked \<open>not_parsed\<close>, but every path that returns ends in
  \<open>parse_complete\<close>.\<close>

definition load_data_frame :: "'j Json \<Rightarrow> Libm \<Rightarrow> 'j \<Rightarrow> exn + PmuDataFrame" where
  "load_data_frame J L jv =
     attempt (load_id J jv) (\<lambda>idcode.
     attempt (replace_int J jv ''timequality'' idcode) (\<lambda>data.
     attempt (replace_int J jv ''time_quality'' data) (\<lambda>timeQuality.
     attempt (load_data_time J jv (new_data_frame\<lparr>pdf_idcode := word_of_int idcode,
       pdf_timeQuality := word_of_int timeQuality\<rparr>)) (\<lambda>pdf.
     attempt (js_get J jv ''pmu'') (\<lambda>pmu.
     attempt (attempt_fold (\<lambda>pmucfg pdf. attempt (loadPmuDataJson J L pmucfg) (\<lambda>d.
       Inr (pdf\<lparr>pdf_pmus := pdf_pmus pdf @ [d]\<rparr>))) (if js_isArray J pmu then js_elems J pmu else [pmu]) pdf) (\<lambda>pdf.
       Inr (pdf\<lparr>pdf_parseResult := parse_complete\<rparr>)))))))"

definition loadDataFrame :: "'j Json \<Rightarrow> Libm \<Rightarrow> 'j \<Rightarrow> bool \<Rightarrow> exn + PmuDataFrame" where
  "loadDataFrame J L jv checkObject =
     attempt (if checkObject then js_isMember J jv ''data'' else Inr False) (\<lambda>m.
       if m then attempt (js_get J jv ''data'') (load_data_frame J L) else load_data_frame J L jv)"

definition loadDataFile :: "'j Json \<Rightarrow> Libm \<Rightarrow> (string \<rightharpoonup> string) \<Rightarrow> string \<Rightarrow> exn + PmuDataFrame list" where
  "loadDataFile J L files dataFile =
     attempt (hasJsonExtension dataFile) (\<lambda>json.
       if \<not> json then Inr []
       else attempt (loadJson J files dataFile) (\<lambda>jv.
         attempt (js_get J jv ''data'') (\<lambda>data.
           attempt_fold (\<lambda>dvsection dataV. attempt (load_data_frame J L dvsection) (\<lambda>d. Inr (dataV @ [d])))
             (if js_isArray J data then js_elems J data else [data]) [])))"

section \<open>Reloading one PMU\<close>

lemma append_all:
  assumes "json_laws J" "shows_array J a us"
  shows "\<exists>a'. attempt_fold (\<lambda>x arr. js_append J arr x) xs a = Inr a' \<and> shows_array J a' (us @ xs)"
  using assms(2)
proof (induction xs arbitrary: a us)
  case (Cons x xs)
  obtain a' where a': "js_append J a x = Inr a'" "shows_array J a' (us @ [x])"
    using assms(1) Cons.prems unfolding json_laws_def json_array_laws_def shows_array_def by metis
  from Cons.IH[OF a'(2)] a'(1) show ?case by simp
qed simp

lemma optional_array_obtain:
  assumes "json_laws J" "shows_object J v f" "f key = None"
  obtains v' f' where "optional_array J key xs v = Inr v'" "shows_object J v' f'" "shows_units J f' key xs"
    "\<forall>k. k \<noteq> key \<longrightarrow> f' k = f k"
proof (cases "xs = []")
  case True
  then show thesis using that[of v f] assms(2,3) by (simp add: optional_array_def shows_units_def)
next
  case False
  obtain a where a: "attempt_fold (\<lambda>x arr. js_append J arr x) xs (js_array J) = Inr a" "shows_array J a xs"
    using append_all[OF assms(1) shows_empty_array[OF assms(1)], of xs] by auto
  obtain v' where "js_set J v key a = Inr v'" "shows_object J v' (f(key \<mapsto> a))"
    using set_shows[OF assms(1,2)] by blast
  then show thesis using that[of v' "f(key \<mapsto> a)"] a False by (simp add: optional_array_def shows_units_def)
qed

lemma units_elements:
  assumes "json_laws J" "shows_object J v f" "shows_units J f key us"
  shows "\<exists>a. js_get J v key = Inr a \<and> js_elems J a = us \<and> (\<forall>i < length us. js_at J a i = Inr (us ! i))"
proof (cases "us = []")
  case True
  then show ?thesis using assms by (auto simp: shows_units_def get_shows[OF assms(2)] json_laws_def json_array_laws_def)
next
  case False
  then obtain a where a: "f key = Some a" "js_isArray J a" "js_elems J a = us"
    using assms(3) by (auto simp: shows_units_def shows_array_def)
  have "js_at J a i = Inr (us ! i)" if "i < length us" for i
    using assms(1) a that unfolding json_laws_def json_array_laws_def by metis
  then show ?thesis using a by (simp add: get_shows[OF assms(2)])
qed

lemma phasor_values_nth:
  assumes "k < length ps"
  shows "concat (map (\<lambda>(re, im). [f re, f im]) ps) ! (2 * k) = f (fst (ps ! k))"
    "concat (map (\<lambda>(re, im). [f re, f im]) ps) ! (2 * k + 1) = f (snd (ps ! k))"
proof -
  have "concat (map (\<lambda>(re, im). [f re, f im]) ps) ! (2 * k) = f (fst (ps ! k)) \<and>
      concat (map (\<lambda>(re, im). [f re, f im]) ps) ! (2 * k + 1) = f (snd (ps ! k))"
    using assms
  proof (induction ps arbitrary: k)
    case (Cons p ps)
    then show ?case by (cases k; cases p) auto
  qed simp
  then show "concat (map (\<lambda>(re, im). [f re, f im]) ps) ! (2 * k) = f (fst (ps ! k))"
    "concat (map (\<lambda>(re, im). [f re, f im]) ps) ! (2 * k + 1) = f (snd (ps ! k))" by simp_all
qed

lemma length_phasor_values: "length (concat (map (\<lambda>(re, im). [f re, f im]) ps)) = 2 * length ps"
  by (induction ps) auto

lemma load_phasor_values_back:
  assumes "json_laws J" "js_elems J a = concat (map (\<lambda>(re, im). [js_double J re, js_double J im]) ps)"
    and "\<forall>i < length (js_elems J a). js_at J a i = Inr (js_elems J a ! i)" "pd_phasors d = []"
  shows "load_phasor_values J L False a d = Inr (d\<lparr>pd_phasors := ps\<rparr>)"
proof -
  have len: "length (js_elems J a) = 2 * length ps" using assms(2) length_phasor_values by metis
  have at: "js_at J a (2 * k) = Inr (js_double J (fst (ps ! k)))" "js_at J a (2 * k + 1) = Inr (js_double J (snd (ps ! k)))"
    if "k < length ps" for k
    using assms(3) len that phasor_values_nth[OF that, of "js_double J"] by (simp_all add: assms(2))
  have "load_phasor_values J L False a d = Inr (fold (\<lambda>k d. d\<lparr>pd_phasors := pd_phasors d @ [ps ! k]\<rparr>) [0..<length ps] d)"
    unfolding load_phasor_values_def len using at scalars(11)[OF assms(1)]
    by (simp) (intro attempt_fold_ok, simp)
  moreover have "fold (\<lambda>k d. d\<lparr>pd_phasors := pd_phasors d @ [ps ! k]\<rparr>) ks d = d\<lparr>pd_phasors := pd_phasors d @ map (\<lambda>k. ps ! k) ks\<rparr>"
    for ks and d :: PmuData by (induction ks arbitrary: d) simp_all
  ultimately show ?thesis using assms(4) by (simp add: map_nth)
qed

lemma fold_add_values:
  "fold (\<lambda>x d. d\<lparr>pd_analog := pd_analog d @ [x]\<rparr>) xs e = e\<lparr>pd_analog := pd_analog e @ xs\<rparr>"
  "fold (\<lambda>y d. d\<lparr>pd_digital := pd_digital d @ [y]\<rparr>) ys e = e\<lparr>pd_digital := pd_digital e @ ys\<rparr>"
proof -
  show "fold (\<lambda>x d. d\<lparr>pd_analog := pd_analog d @ [x]\<rparr>) xs e = e\<lparr>pd_analog := pd_analog e @ xs\<rparr>"
    by (induction xs arbitrary: e) simp_all
  show "fold (\<lambda>y d. d\<lparr>pd_digital := pd_digital d @ [y]\<rparr>) ys e = e\<lparr>pd_digital := pd_digital e @ ys\<rparr>"
    by (induction ys arbitrary: e) simp_all
qed

lemma narrow_u32:
  assumes "json_laws J"
  shows "attempt (js_asUInt J (js_uint J (ucast (w :: u16)))) f = f (ucast w)"
  by (simp add: scalars(4)[OF assms])

lemma pmu_data_json_reloads:
  assumes "json_laws J"
  shows "\<exists>v. pmu_data_json J d = Inr v \<and> loadPmuDataJson J L v = Inr d"
proof -
  let ?ps = "concat (map (\<lambda>(re, im). [js_double J re, js_double J im]) (pd_phasors d))"
  let ?as = "map (js_double J) (pd_analog d)" and ?ds = "map (\<lambda>d. js_uint J (ucast d)) (pd_digital d)"
  define members where "members = [(''freq'', js_double J (pd_freq d)), (''rocof'', js_double J (pd_rocof d)),
    (''stat'', js_uint J (ucast (pd_stat d)))]"
  obtain v0 where v0: "set_members J members (js_null J) = Inr v0"
      "shows_object J v0 (fold (\<lambda>(k, x) f. f(k \<mapsto> x)) members Map.empty)"
    using set_members_shows[OF assms shows_null[OF assms]] by blast
  define f0 where "f0 = map_of members"
  have "fold (\<lambda>(k, x) f. f(k \<mapsto> x)) members Map.empty = f0" by (auto simp: f0_def members_def)
  with v0(2) have f0: "shows_object J v0 f0" by simp
  have none1: "f0 ''phasor'' = None" by (simp add: f0_def members_def)
  obtain v1 f1 where v1: "optional_array J ''phasor'' ?ps v0 = Inr v1" "shows_object J v1 f1" "shows_units J f1 ''phasor'' ?ps"
      "\<forall>k. k \<noteq> ''phasor'' \<longrightarrow> f1 k = f0 k"
    using optional_array_obtain[OF assms f0 none1] .
  have none2: "f1 ''analog'' = None" using v1(4) by (simp add: f0_def members_def)
  obtain v2 f2 where v2: "optional_array J ''analog'' ?as v1 = Inr v2" "shows_object J v2 f2" "shows_units J f2 ''analog'' ?as"
      "\<forall>k. k \<noteq> ''analog'' \<longrightarrow> f2 k = f1 k"
    using optional_array_obtain[OF assms v1(2) none2] .
  have none3: "f2 ''digital'' = None" using v1(4) v2(4) by (simp add: f0_def members_def)
  obtain v f where v: "optional_array J ''digital'' ?ds v2 = Inr v" "shows_object J v f" "shows_units J f ''digital'' ?ds"
      "\<forall>k. k \<noteq> ''digital'' \<longrightarrow> f k = f2 k"
    using optional_array_obtain[OF assms v2(2) none3] .
  have json: "pmu_data_json J d = Inr v"
    using v0(1) v1(1) v2(1) v(1) by (simp add: pmu_data_json_def members_def)
  have units: "shows_units J f ''phasor'' ?ps" "shows_units J f ''analog'' ?as"
    using v1(3) v2(3,4) v(4) by (simp_all add: shows_units_def)
  obtain ph where ph: "js_get J v ''phasor'' = Inr ph" "js_elems J ph = ?ps"
      "\<forall>i < length (js_elems J ph). js_at J ph i = Inr (js_elems J ph ! i)"
    using units_elements[OF assms v(2) units(1)] by auto
  obtain an where an: "js_get J v ''analog'' = Inr an" "js_elems J an = ?as"
    using units_elements[OF assms v(2) units(2)] by blast
  obtain dg where dg: "js_get J v ''digital'' = Inr dg" "js_elems J dg = ?ds"
    using units_elements[OF assms v(2,3)] by blast
  have analogs: "attempt_fold (\<lambda>v data. attempt (js_asDouble J v) (\<lambda>a. Inr (data\<lparr>pd_analog := pd_analog data @ [a]\<rparr>))) ?as e =
      Inr (e\<lparr>pd_analog := pd_analog e @ pd_analog d\<rparr>)" for e
    using load_each[of "pd_analog d" "js_asDouble J" "js_double J" "\<lambda>a. a" "\<lambda>a e. e\<lparr>pd_analog := pd_analog e @ [a]\<rparr>" e]
    by (simp add: scalars(11)[OF assms] fold_add_values)
  have digitals: "attempt_fold (\<lambda>v data. attempt (js_asUInt J v) (\<lambda>w. Inr (data\<lparr>pd_digital := pd_digital data @ [ucast w]\<rparr>))) ?ds e =
      Inr (e\<lparr>pd_digital := pd_digital e @ pd_digital d\<rparr>)" for e
    using load_each[of "pd_digital d" "js_asUInt J" "\<lambda>d. js_uint J (ucast d)" ucast
        "\<lambda>w e. e\<lparr>pd_digital := pd_digital e @ [ucast w]\<rparr>" e]
    by (simp add: scalars(4)[OF assms] fold_add_values)
  have "f k = map_of members k" if "k \<noteq> ''phasor''" "k \<noteq> ''analog''" "k \<noteq> ''digital''" for k
    using that v1(4) v2(4) v(4) by (simp add: f0_def)
  then have members: "f ''freq'' = Some (js_double J (pd_freq d))" "f ''rocof'' = Some (js_double J (pd_rocof d))"
      "f ''stat'' = Some (js_uint J (ucast (pd_stat d)))" "f ''polar_coordinates'' = None"
    by (simp_all add: members_def)
  have "loadPmuDataJson J L v = Inr d"
    by (simp add: loadPmuDataJson_def member_double_def get_shows[OF v(2)] replace_defs replace_shows[OF v(2)] members
        scalars(4,11)[OF assms] ph(1)[unfolded get_shows[OF v(2)]] an(1)[unfolded get_shows[OF v(2)]]
        dg(1)[unfolded get_shows[OF v(2)]] load_phasor_values_back[OF assms ph(2,3)] an(2) dg(2) analogs digitals default_PmuData_def)
  then show ?thesis using json by blast
qed

section \<open>Reloading frames\<close>

text \<open>A frame without PMUs comes back with one, of zeros.\<close>

definition reloaded_frame :: "PmuDataFrame \<Rightarrow> PmuDataFrame" where
  "reloaded_frame pdf = pdf\<lparr>pdf_parseResult := parse_complete,
     pdf_pmus := (if pdf_pmus pdf = [] then [default_PmuData] else pdf_pmus pdf)\<rparr>"

definition frame_members :: "'j Json \<Rightarrow> PmuDataFrame \<Rightarrow> (string \<times> 'j) list" where
  "frame_members J pdf = [(''id'', js_uint J (ucast (pdf_idcode pdf))),
     (''time_quality'', js_uint J (ucast (pdf_timeQuality pdf))), (''soc'', js_uint J (pdf_soc pdf)),
     (''fracsec'', js_double J (pdf_fracSec pdf))]"

definition pmu_value :: "'j Json \<Rightarrow> PmuData \<Rightarrow> 'j" where
  "pmu_value J d = (case pmu_data_json J d of Inr v \<Rightarrow> v | Inl _ \<Rightarrow> js_null J)"

lemma pmu_value:
  assumes "json_laws J"
  shows "pmu_data_json J d = Inr (pmu_value J d)" "loadPmuDataJson J L (pmu_value J d) = Inr d"
  using pmu_data_json_reloads[OF assms, of d L] by (auto simp: pmu_value_def)

lemma frame_written:
  assumes "json_laws J"
  obtains v f where "addDataFrameJson J pdf (js_object J) = Inr v" "shows_object J v f"
    "shows_units J f ''pmu'' (map (pmu_value J) (pdf_pmus pdf))" "\<forall>k. k \<noteq> ''pmu'' \<longrightarrow> f k = map_of (frame_members J pdf) k"
proof -
  obtain v0 where v0: "set_members J (frame_members J pdf) (js_object J) = Inr v0"
      "shows_object J v0 (fold (\<lambda>(k, x) f. f(k \<mapsto> x)) (frame_members J pdf) Map.empty)"
    using set_members_shows[OF assms shows_empty[OF assms]] by blast
  have "fold (\<lambda>(k, x) f. f(k \<mapsto> x)) (frame_members J pdf) Map.empty = map_of (frame_members J pdf)"
    by (auto simp: frame_members_def)
  with v0(2) have f0: "shows_object J v0 (map_of (frame_members J pdf))" by simp
  have none: "shows_units J (map_of (frame_members J pdf)) ''pmu'' []" by (simp add: shows_units_def frame_members_def)
  have step: "writePmuDataJson J d v = attempt (ensure_array J ''pmu'' v) (append_member J ''pmu'' (pmu_value J d))" for d v
    by (simp add: writePmuDataJson_def pmu_value(1)[OF assms])
  obtain v f where "attempt_fold (writePmuDataJson J) (pdf_pmus pdf) v0 = Inr v" "shows_object J v f"
      "shows_units J f ''pmu'' ([] @ map (pmu_value J) (pdf_pmus pdf))"
      "\<forall>k. k \<noteq> ''pmu'' \<longrightarrow> f k = map_of (frame_members J pdf) k"
    using grow_array_each[OF assms f0 none, of "pdf_pmus pdf" "writePmuDataJson J" "pmu_value J"] step by blast
  then show thesis using that v0(1) by (simp add: addDataFrameJson_def frame_members_def)
qed

lemma null_pmu: "json_laws J \<Longrightarrow> loadPmuDataJson J L (js_null J) = Inr default_PmuData"
  using scalars(13)[of J]
  by (simp add: loadPmuDataJson_def member_double_def get_shows[OF shows_null] replace_defs replace_shows[OF shows_null]
      load_phasor_values_def json_laws_def json_array_laws_def default_PmuData_def)

lemma fold_add_frame: "fold (\<lambda>x pdf. pdf\<lparr>pdf_pmus := pdf_pmus pdf @ [x]\<rparr>) xs e = e\<lparr>pdf_pmus := pdf_pmus e @ xs\<rparr>"
  by (induction xs arbitrary: e) simp_all

lemma load_frame_pmus:
  assumes "json_laws J" "shows_object J v f" "shows_units J f ''pmu'' (map (pmu_value J) ds)"
  shows "\<exists>pmu. js_get J v ''pmu'' = Inr pmu \<and>
    attempt_fold (\<lambda>pmucfg pdf. attempt (loadPmuDataJson J L pmucfg) (\<lambda>d. Inr (pdf\<lparr>pdf_pmus := pdf_pmus pdf @ [d]\<rparr>)))
      (if js_isArray J pmu then js_elems J pmu else [pmu]) e =
    Inr (e\<lparr>pdf_pmus := pdf_pmus e @ (if ds = [] then [default_PmuData] else ds)\<rparr>)"
proof (cases "ds = []")
  case True
  then show ?thesis using assms null_pmu[OF assms(1)]
    by (simp add: get_shows[OF assms(2)] shows_units_def json_laws_def json_array_laws_def)
next
  case False
  then obtain a where a: "f ''pmu'' = Some a" "js_isArray J a" "js_elems J a = map (pmu_value J) ds"
    using assms(3) by (auto simp: shows_units_def shows_array_def)
  show ?thesis
    using load_each[of ds "loadPmuDataJson J L" "pmu_value J" "\<lambda>d. d" "\<lambda>d e. e\<lparr>pdf_pmus := pdf_pmus e @ [d]\<rparr>" e]
      pmu_value(2)[OF assms(1)] a False by (simp add: get_shows[OF assms(2)] fold_add_frame)
qed

lemma u8_as_int:
  assumes "json_laws J"
  shows "js_asInt J (js_uint J (ucast (c :: u8))) = Inr (uint c)" "js_asInt J (js_uint J (ucast (w :: u16))) = Inr (uint w)"
proof -
  have "uint (ucast w :: u32) = uint w"
    using small_uint(1)[of w] by (simp add: unsigned_ucast_eq take_bit_int_eq_self)
  then show "js_asInt J (js_uint J (ucast w)) = Inr (uint w)"
    using scalars(7)[OF assms, of "ucast w"] small_uint(1)[of w] by simp
  show "js_asInt J (js_uint J (ucast c)) = Inr (uint c)"
    using scalars(7)[OF assms, of "ucast c"] small_uint(2,3)[of c] by simp
qed

lemma load_written_frame:
  assumes "json_laws J" "shows_object J v f" "shows_units J f ''pmu'' (map (pmu_value J) (pdf_pmus pdf))"
    and "\<forall>k. k \<noteq> ''pmu'' \<longrightarrow> f k = map_of (frame_members J pdf) k" "uint (pdf_soc pdf) < 2 ^ 31"
  shows "load_data_frame J L v = Inr (reloaded_frame pdf)"
proof -
  let ?e = "new_data_frame\<lparr>pdf_idcode := pdf_idcode pdf, pdf_timeQuality := pdf_timeQuality pdf, pdf_soc := pdf_soc pdf,
    pdf_fracSec := pdf_fracSec pdf\<rparr>"
  have members: "f ''id'' = Some (js_uint J (ucast (pdf_idcode pdf)))" "f ''idcode'' = None" "f ''timequality'' = None"
      "f ''time_quality'' = Some (js_uint J (ucast (pdf_timeQuality pdf)))" "f ''time'' = None"
      "f ''soc'' = Some (js_uint J (pdf_soc pdf))" "f ''fracsec'' = Some (js_double J (pdf_fracSec pdf))"
    using assms(4) by (simp_all add: frame_members_def)
  obtain pmu where pmu: "js_get J v ''pmu'' = Inr pmu"
    "attempt_fold (\<lambda>pmucfg pdf. attempt (loadPmuDataJson J L pmucfg) (\<lambda>d. Inr (pdf\<lparr>pdf_pmus := pdf_pmus pdf @ [d]\<rparr>)))
      (if js_isArray J pmu then js_elems J pmu else [pmu]) ?e =
    Inr (?e\<lparr>pdf_pmus := pdf_pmus ?e @ (if pdf_pmus pdf = [] then [default_PmuData] else pdf_pmus pdf)\<rparr>)"
    using load_frame_pmus[OF assms(1-3)] by blast
  have "load_data_time J v (new_data_frame\<lparr>pdf_idcode := pdf_idcode pdf, pdf_timeQuality := pdf_timeQuality pdf\<rparr>) = Inr ?e"
    using scalars(7)[OF assms(1,5)]
    by (simp add: load_data_time_def member_shows[OF assms(2)] get_shows[OF assms(2)] members member_double_def
        scalars(11)[OF assms(1)] new_data_frame_def)
  then have "load_data_frame J L v = Inr (?e\<lparr>pdf_pmus := pdf_pmus ?e @ (if pdf_pmus pdf = [] then [default_PmuData]
      else pdf_pmus pdf), pdf_parseResult := parse_complete\<rparr>)"
    by (simp add: load_data_frame_def load_id_def replace_defs replace_shows[OF assms(2)] members u8_as_int[OF assms(1)]
        pmu del: if_split split del: if_split)
  then show ?thesis by (cases pdf) (simp add: reloaded_frame_def new_data_frame_def)
qed

definition frame_value :: "'j Json \<Rightarrow> PmuDataFrame \<Rightarrow> 'j" where
  "frame_value J pdf = (case addDataFrameJson J pdf (js_object J) of Inr v \<Rightarrow> v | Inl _ \<Rightarrow> js_null J)"

lemma frame_value:
  assumes "json_laws J"
  shows "addDataFrameJson J pdf (js_object J) = Inr (frame_value J pdf)"
    "uint (pdf_soc pdf) < 2 ^ 31 \<Longrightarrow> load_data_frame J L (frame_value J pdf) = Inr (reloaded_frame pdf)"
    "2 ^ 31 \<le> uint (pdf_soc pdf) \<Longrightarrow> \<exists>m. load_data_frame J L (frame_value J pdf) = Inl (json_error m)"
proof -
  obtain v f where v: "addDataFrameJson J pdf (js_object J) = Inr v" "shows_object J v f"
      "shows_units J f ''pmu'' (map (pmu_value J) (pdf_pmus pdf))" "\<forall>k. k \<noteq> ''pmu'' \<longrightarrow> f k = map_of (frame_members J pdf) k"
    using frame_written[OF assms] .
  have value_v: "frame_value J pdf = v" using v(1) by (simp add: frame_value_def)
  show "addDataFrameJson J pdf (js_object J) = Inr (frame_value J pdf)" using v(1) value_v by simp
  show "uint (pdf_soc pdf) < 2 ^ 31 \<Longrightarrow> load_data_frame J L (frame_value J pdf) = Inr (reloaded_frame pdf)"
    using load_written_frame[OF assms v(2-4)] value_v by simp
  have members: "f ''id'' = Some (js_uint J (ucast (pdf_idcode pdf)))" "f ''idcode'' = None" "f ''timequality'' = None"
      "f ''time_quality'' = Some (js_uint J (ucast (pdf_timeQuality pdf)))" "f ''time'' = None"
      "f ''soc'' = Some (js_uint J (pdf_soc pdf))"
    using v(4) by (simp_all add: frame_members_def)
  assume "2 ^ 31 \<le> uint (pdf_soc pdf)"
  then obtain m where "js_asInt J (js_uint J (pdf_soc pdf)) = Inl (json_error m)" using scalars(15)[OF assms] by blast
  then have "load_data_time J v e = Inl (json_error m)" for e
    by (simp add: load_data_time_def member_shows[OF v(2)] get_shows[OF v(2)] members)
  then have "load_data_frame J L v = Inl (json_error m)"
    by (simp add: load_data_frame_def load_id_def replace_defs replace_shows[OF v(2)] members u8_as_int[OF assms])
  then show "\<exists>m. load_data_frame J L (frame_value J pdf) = Inl (json_error m)" using value_v by blast
qed

lemma data_document:
  assumes "json_laws J"
  obtains doc f a where "writeDataJson_all J frames (js_object J) = Inr doc" "shows_object J doc f" "f ''data'' = Some a"
    "shows_array J a (map (frame_value J) frames)"
proof -
  obtain v0 where set: "js_set J (js_object J) ''data'' (js_array J) = Inr v0" "shows_object J v0 [''data'' \<mapsto> js_array J]"
    using set_shows[OF assms shows_empty[OF assms]] by blast
  then have v0: "ensure_array J ''data'' (js_object J) = Inr v0" "shows_object J v0 [''data'' \<mapsto> js_array J]"
    by (simp_all add: ensure_array_def member_shows[OF shows_empty[OF assms]])
  have key: "[''data'' \<mapsto> js_array J] ''data'' = Some (js_array J)" by simp
  obtain doc a where "attempt_fold (\<lambda>pd df. attempt (addDataFrameJson J pd (js_object J)) (\<lambda>dv. append_member J ''data'' dv df))
      frames v0 = Inr doc" "shows_object J doc ([''data'' \<mapsto> js_array J](''data'' \<mapsto> a))"
      "shows_array J a ([] @ map (frame_value J) frames)"
    using append_each_shows[OF assms v0(2) key shows_empty_array[OF assms],
        of frames "\<lambda>pd. addDataFrameJson J pd (js_object J)" "frame_value J"] frame_value(1)[OF assms] by blast
  then show thesis using that v0(1) by (simp add: writeDataJson_all_def)
qed

section \<open>Through a file\<close>

text \<open>The loader reads from a value that answers as another what it reads from the other.\<close>

lemma kept_phasors:
  assumes "same_json J v v'"
  shows "kept (load_phasor_values J L polar v d) (load_phasor_values J L polar v' d)"
proof -
  have step: "kept
      (attempt (attempt (js_at J v (2 * k)) (js_asDouble J)) (\<lambda>a. attempt (attempt (js_at J v (2 * k + 1)) (js_asDouble J)) (f a)))
      (attempt (attempt (js_at J v' (2 * k)) (js_asDouble J)) (\<lambda>a. attempt (attempt (js_at J v' (2 * k + 1)) (js_asDouble J)) (f a)))"
    for k and f :: "f64 \<Rightarrow> f64 \<Rightarrow> exn + PmuData"
    by (intro kept_attempt kept_at[OF assms] kept_accesses kept_refl)
  have "list_all2 (=) ks ks" for ks :: "nat list" by (simp add: list_all2_refl)
  then show ?thesis unfolding load_phasor_values_def same_length[OF assms]
    by (rule kept_fold) (use step in simp)
qed

lemma kept_double: "same_json J v v' \<Longrightarrow> kept (member_double J v key) (member_double J v' key)"
  unfolding member_double_def by (intro kept_get kept_accesses)

lemma kept_members:
  assumes "same_json J v v'"
  shows "kept (replace_int J v key i) (replace_int J v' key i)" "kept (replace_uint J v key w) (replace_uint J v' key w)"
    "kept (replace_bool J v key b) (replace_bool J v' key b)"
  unfolding replace_defs by (auto intro!: kept_replace[OF assms] kept_accesses)

lemma kept_pmu: "same_json J v v' \<Longrightarrow> kept (loadPmuDataJson J L v) (loadPmuDataJson J L v')"
  unfolding loadPmuDataJson_def
  by (intro kept_attempt kept_get kept_double kept_members kept_phasors kept_fold[OF same_elems] kept_accesses kept_refl)

lemma kept_time: "same_json J v v' \<Longrightarrow> kept (load_data_time J v pdf) (load_data_time J v' pdf)"
  unfolding load_data_time_def
  by (intro kept_attempt kept_if kept_get kept_double kept_accesses kept_refl)

lemma kept_frame:
  assumes "same_json J v v'"
  shows "kept (load_data_frame J L v) (load_data_frame J L v')"
proof -
  have "list_all2 (same_json J) (if js_isArray J x then js_elems J x else [x]) (if js_isArray J x' then js_elems J x' else [x'])"
    if "same_json J x x'" for x x' using that same_flags(1)[OF that] same_elems[OF that] by simp
  note pmus = kept_fold[OF this]
  show ?thesis
    using assms unfolding load_data_frame_def load_id_def
    by (intro kept_attempt kept_get kept_members kept_time kept_refl pmus kept_pmu)
qed

text \<open>Documents of frames with finite numbers are printable.\<close>

definition finite_pmu :: "PmuData \<Rightarrow> bool" where
  "finite_pmu d \<longleftrightarrow> f64_finite (pd_freq d) \<and> f64_finite (pd_rocof d) \<and>
     (\<forall>(re, im) \<in> set (pd_phasors d). f64_finite re \<and> f64_finite im) \<and> (\<forall>a \<in> set (pd_analog d). f64_finite a)"

definition finite_frame :: "PmuDataFrame \<Rightarrow> bool" where
  "finite_frame pdf \<longleftrightarrow> f64_finite (pdf_fracSec pdf) \<and> (\<forall>d \<in> set (pdf_pmus pdf). finite_pmu d)"

lemma set_members_printable:
  assumes "set_members J kxs v = Inr v'" "printable J (Suc n) v" "\<forall>(k, x) \<in> set kxs. plain_key k \<and> printable J n x"
  shows "printable J (Suc n) v'"
  using assms(1,2) unfolding set_members_def
  by (rule attempt_fold_inv) (use assms(3) in \<open>auto intro: printable.set\<close>)

lemma append_member_printable:
  assumes "append_member J key x v = Inr v'" "printable J (Suc (Suc n)) v" "plain_key key" "printable J n x"
  shows "printable J (Suc (Suc n)) v'"
  using assms unfolding append_member_def attempt_eq_Inr
  by (meson printable.append printable.member printable.set)

lemma ensure_array_printable:
  "ensure_array J key v = Inr v' \<Longrightarrow> printable J (Suc n) v \<Longrightarrow> plain_key key \<Longrightarrow> printable J (Suc n) v'"
  by (auto simp: ensure_array_def attempt_eq_Inr split: if_splits intro: printable.set printable.array)

lemma optional_array_printable:
  assumes "optional_array J key xs v = Inr v'" "printable J (Suc (Suc n)) v" "plain_key key" "\<forall>x \<in> set xs. printable J n x"
  shows "printable J (Suc (Suc n)) v'"
proof (cases "xs = []")
  case False
  then obtain a where a: "attempt_fold (\<lambda>x arr. js_append J arr x) xs (js_array J) = Inr a" "js_set J v key a = Inr v'"
    using assms(1) by (auto simp: optional_array_def attempt_eq_Inr)
  from a(1) printable.array have "printable J (Suc n) a"
    by (rule attempt_fold_inv) (use assms(4) in \<open>auto intro: printable.append\<close>)
  with a(2) assms(2,3) show ?thesis by (auto intro: printable.set)
qed (use assms in \<open>simp add: optional_array_def\<close>)

lemma plain_keys:
  "plain_key ''freq''" "plain_key ''rocof''" "plain_key ''stat''" "plain_key ''phasor''" "plain_key ''analog''"
  "plain_key ''digital''" "plain_key ''id''" "plain_key ''time_quality''" "plain_key ''soc''" "plain_key ''fracsec''"
  "plain_key ''pmu''" "plain_key ''data''"
  by (simp_all add: plain_key_def)

lemma pmu_data_printable:
  assumes "pmu_data_json J d = Inr v" "finite_pmu d"
  shows "printable J (Suc (Suc 0)) v"
proof -
  from assms(1) obtain v0 v1 v2 where
    v0: "set_members J [(''freq'', js_double J (pd_freq d)), (''rocof'', js_double J (pd_rocof d)),
       (''stat'', js_uint J (ucast (pd_stat d)))] (js_null J) = Inr v0"
    and v1: "optional_array J ''phasor'' (concat (map (\<lambda>(re, im). [js_double J re, js_double J im]) (pd_phasors d))) v0 = Inr v1"
    and v2: "optional_array J ''analog'' (map (js_double J) (pd_analog d)) v1 = Inr v2"
    and v: "optional_array J ''digital'' (map (\<lambda>d. js_uint J (ucast d)) (pd_digital d)) v2 = Inr v"
    unfolding pmu_data_json_def attempt_eq_Inr by blast
  have "printable J (Suc (Suc 0)) v0"
    by (rule set_members_printable[OF v0 printable.null])
      (use assms(2) in \<open>simp add: finite_pmu_def plain_keys printable.double printable.uint\<close>)
  then have "printable J (Suc (Suc 0)) v1"
    by (rule optional_array_printable[OF v1]) (use assms(2) in \<open>auto simp: finite_pmu_def plain_keys printable.double\<close>)
  then have "printable J (Suc (Suc 0)) v2"
    by (rule optional_array_printable[OF v2]) (use assms(2) in \<open>auto simp: finite_pmu_def plain_keys printable.double\<close>)
  then show ?thesis
    by (rule optional_array_printable[OF v]) (auto simp: plain_keys printable.uint)
qed

lemma frame_printable:
  assumes "addDataFrameJson J pdf (js_object J) = Inr v" "finite_frame pdf"
  shows "printable J (Suc (Suc (Suc (Suc 0)))) v"
proof -
  from assms(1) obtain v0 where v0: "set_members J (frame_members J pdf) (js_object J) = Inr v0"
    and v: "attempt_fold (writePmuDataJson J) (pdf_pmus pdf) v0 = Inr v"
    unfolding addDataFrameJson_def frame_members_def attempt_eq_Inr by blast
  have "printable J (Suc (Suc (Suc (Suc 0)))) v0"
    by (rule set_members_printable[OF v0 printable.object])
      (use assms(2) in \<open>simp add: finite_frame_def frame_members_def plain_keys printable.double printable.uint\<close>)
  with v show ?thesis
  proof (rule attempt_fold_inv)
    fix d w w' assume d: "d \<in> set (pdf_pmus pdf)" "writePmuDataJson J d w = Inr w'" "printable J (Suc (Suc (Suc (Suc 0)))) w"
    then obtain w1 x where "ensure_array J ''pmu'' w = Inr w1" "pmu_data_json J d = Inr x" "append_member J ''pmu'' x w1 = Inr w'"
      unfolding writePmuDataJson_def attempt_eq_Inr by blast
    with d assms(2) show "printable J (Suc (Suc (Suc (Suc 0)))) w'"
      using append_member_printable ensure_array_printable pmu_data_printable plain_keys unfolding finite_frame_def by metis
  qed
qed

lemma document_printable:
  assumes "writeDataJson_all J frames (js_object J) = Inr doc" "\<forall>pdf \<in> set frames. finite_frame pdf"
  shows "printable J (Suc (Suc (Suc (Suc (Suc (Suc 0)))))) doc"
proof -
  from assms(1) obtain v0 where v0: "ensure_array J ''data'' (js_object J) = Inr v0"
    and doc: "attempt_fold (\<lambda>pd df. attempt (addDataFrameJson J pd (js_object J)) (\<lambda>dv. append_member J ''data'' dv df)) frames v0 = Inr doc"
    unfolding writeDataJson_all_def attempt_eq_Inr by blast
  from doc ensure_array_printable[OF v0 printable.object plain_keys(12)] show ?thesis
  proof (rule attempt_fold_inv)
    fix pd w w' assume pd: "pd \<in> set frames" "printable J (Suc (Suc (Suc (Suc (Suc (Suc 0)))))) w"
      "attempt (addDataFrameJson J pd (js_object J)) (\<lambda>dv. append_member J ''data'' dv w) = Inr w'"
    then obtain x where "addDataFrameJson J pd (js_object J) = Inr x" "append_member J ''data'' x w = Inr w'"
      unfolding attempt_eq_Inr by blast
    with pd assms(2) show "printable J (Suc (Suc (Suc (Suc (Suc (Suc 0)))))) w'"
      using append_member_printable frame_printable plain_keys by metis
  qed
qed

text \<open>C8: frames with finite numbers whose seconds are below \<open>2 ^ 31\<close>, written to a JSON file and read back, are the frames
  that were written, but that each is marked as completely parsed and that a frame without PMUs gains one, of zeros.  The
  file has to be writable, its name recognised as JSON and of at most 128 characters, so that it is not taken for
  a document.  Of the reader and the writer of jsoncpp nothing is used but \<open>json_text_laws\<close>; a frame stamped
  later cannot be read back (\<open>late_frame_unreadable\<close>).\<close>

theorem data_file_reloads:
  assumes "json_laws J" "json_text_laws J" "hasJsonExtension path = Inr True" "writable path" "length path \<le> 128"
    and "\<forall>pdf \<in> set frames. uint (pdf_soc pdf) < 2 ^ 31" "\<forall>pdf \<in> set frames. finite_frame pdf"
  shows "\<exists>files'. writeDataFile_all J writable path frames files = Inr files' \<and>
    loadDataFile J L files' path = Inr (map reloaded_frame frames)"
proof -
  obtain doc f a where doc: "writeDataJson_all J frames (js_object J) = Inr doc" "shows_object J doc f" "f ''data'' = Some a"
      "shows_array J a (map (frame_value J) frames)"
    using data_document[OF assms(1)] .
  obtain doc' where doc': "js_parse J (js_write J doc @ [CHR 0x0A]) = Inr doc'" "same_json J doc doc'"
    using assms(2)[unfolded json_text_laws_def, rule_format, OF _ document_printable[OF doc(1) assms(7)]] by auto
  let ?files = "files(path \<mapsto> js_write J doc @ [CHR 0x0A])"
  have written: "writeDataFile_all J writable path frames files = Inr ?files"
    using doc(1) assms(3,4)
    by (simp add: writeDataFile_all_def write_data_file_def write_data_document_def write_file_def generateJsonString_def)
  have read: "loadJson J ?files path = Inr doc'" using assms(5) doc'(1) by (simp add: loadJson_def)
  obtain a' where a': "js_get J doc' ''data'' = Inr a'" "same_json J a a'"
    using same_get[OF doc'(2), of "''data''" a] doc(3) by (auto simp: get_shows[OF doc(2)])
  have elems: "js_isArray J a'" "list_all2 (same_json J) (map (frame_value J) frames) (js_elems J a')"
    using same_flags(1)[OF a'(2)] same_elems[OF a'(2)] doc(4) by (simp_all add: shows_array_def)
  let ?load = "\<lambda>v r. attempt (load_data_frame J L v) (\<lambda>d. Inr (r @ [d]))"
  have "fold (\<lambda>x r. r @ [g x]) xs r = r @ map g xs" for g :: "PmuDataFrame \<Rightarrow> PmuDataFrame" and xs r
    by (induction xs arbitrary: r) simp_all
  then have "attempt_fold ?load (map (frame_value J) frames) [] = Inr (map reloaded_frame frames)"
    using load_each[of frames "load_data_frame J L" "frame_value J" reloaded_frame "\<lambda>d r. r @ [d]" "[]"]
      frame_value(2)[OF assms(1)] assms(6) by simp
  moreover have "kept (attempt_fold ?load (map (frame_value J) frames) []) (attempt_fold ?load (js_elems J a') [])"
    by (intro kept_fold[OF elems(2)] kept_attempt kept_frame kept_refl)
  ultimately have "attempt_fold ?load (js_elems J a') [] = Inr (map reloaded_frame frames)" by (simp add: kept_def)
  then have "loadDataFile J L ?files path = Inr (map reloaded_frame frames)"
    using assms(3) elems(1) by (simp add: loadDataFile_def read a'(1))
  then show ?thesis using written by blast
qed

text \<open>The seconds are written as an unsigned number and read as an \<open>int\<close>: a frame stamped after 2038-01-19 03:14:07
  is written without complaint and cannot be read again.\<close>

theorem late_frame_unreadable:
  assumes "json_laws J" "2 ^ 31 \<le> uint (pdf_soc pdf)"
  shows "\<exists>v m. addDataFrameJson J pdf (js_object J) = Inr v \<and> loadDataFrame J L v False = Inl (json_error m)"
  using frame_value(1,3)[OF assms(1)] assms(2) by (auto simp: loadDataFrame_def)

section \<open>Instances\<close>

definition stored_frame :: PmuDataFrame where
  "stored_frame = \<lparr>pdf_idcode = 7, pdf_timeQuality = 0, pdf_parseResult = parse_complete, pdf_soc = 1600000000,
     pdf_fracSec = 0, pdf_pmus = [default_PmuData\<lparr>pd_stat := 1, pd_phasors := [(0, 0)], pd_digital := [5]\<rparr>]\<rparr>"

theorem data_file_reloads_witness:
  "\<exists>files'. writeDataFile_all text_json (\<lambda>_. True) ''out.json'' [stored_frame] Map.empty = Inr files' \<and>
     loadDataFile text_json sample_libm files' ''out.json'' = Inr (map reloaded_frame [stored_frame])"
proof (rule data_file_reloads[OF text_json_laws text_json_text_laws])
  show "hasJsonExtension ''out.json'' = Inr True" by (simp add: hasJsonExtension_def substr_def size_sub_def)
  show "\<forall>pdf \<in> set [stored_frame]. uint (pdf_soc pdf) < 2 ^ 31" by (simp add: stored_frame_def)
  show "\<forall>pdf \<in> set [stored_frame]. finite_frame pdf"
    by (simp add: stored_frame_def finite_frame_def finite_pmu_def f64_finite_def f64_mag_def default_PmuData_def)
qed simp_all

theorem late_frame_unreadable_witness:
  "\<exists>v m. addDataFrameJson sample_json (stored_frame\<lparr>pdf_soc := 2147483648\<rparr>) (js_object sample_json) = Inr v \<and>
     loadDataFrame sample_json sample_libm v False = Inl (json_error m)"
  by (rule late_frame_unreadable[OF sample_json_laws]) simp

end
