(* ===== verification/Stable_Source.thy ===== *)
theory Stable_Source
  imports Json_Data Time_Codes
begin

text \<open>
  Sources of measurements (\<open>src/pmu/Source.hpp\<close>, \<open>src/pmu/Source.cpp\<close>, \<open>src/pmu/StableSource.hpp\<close>,
  \<open>src/pmu/StableSource.cpp\<close>).  \<open>Source\<close> is abstract and \<open>StableSource\<close> its one implementation, so a source is the
  record of a \<open>StableSource\<close>; a \<open>unique_ptr\<close> to one is an \<open>option\<close>.
\<close>

section \<open>The object\<close>

record StableSource =
  src_config :: Config
  src_stable :: PmuDataFrame

definition new_source :: StableSource where
  "new_source = \<lparr>src_config = default_Config, src_stable = new_data_frame\<rparr>"

definition setConfig :: "Config \<Rightarrow> StableSource \<Rightarrow> StableSource" where
  "setConfig config s = s\<lparr>src_config := config\<rparr>"

definition setData :: "PmuDataFrame \<Rightarrow> StableSource \<Rightarrow> StableSource" where
  "setData data s = s\<lparr>src_stable := data\<rparr>"

text \<open>\<open>Source::loadConfig\<close>, which \<open>StableSource\<close> overrides.\<close>

definition source_loadConfig :: "'j Json \<Rightarrow> (string \<rightharpoonup> string) \<Rightarrow> string \<Rightarrow> StableSource \<Rightarrow> (unit, StableSource) outcome" where
  "source_loadConfig J files configStr s = (case loadConfig J files configStr of
     Inl e \<Rightarrow> Throws e s
   | Inr config \<Rightarrow> Returns () (s\<lparr>src_config := config\<rparr>))"

text \<open>The measurements of a configuration file: the member \<open>default\<close>, or \<open>data\<close> or its first element.\<close>

definition stable_data :: "'j Json \<Rightarrow> Libm \<Rightarrow> 'j \<Rightarrow> PmuDataFrame \<Rightarrow> exn + PmuDataFrame" where
  "stable_data J L jv old =
     attempt (js_isMember J jv ''default'') (\<lambda>m.
       if m then attempt (js_get J jv ''default'') (\<lambda>v. loadDataFrame J L v False)
       else attempt (js_isMember J jv ''data'') (\<lambda>m.
         if \<not> m then Inr old
         else attempt (js_get J jv ''data'') (\<lambda>v.
           if js_isArray J v then attempt (js_at J v 0) (\<lambda>v. loadDataFrame J L v False)
           else loadDataFrame J L v False)))"

definition stable_loadConfig :: "'j Json \<Rightarrow> Libm \<Rightarrow> (string \<rightharpoonup> string) \<Rightarrow> string \<Rightarrow> StableSource \<Rightarrow>
    (unit, StableSource) outcome" where
  "stable_loadConfig J L files configStr s = (case loadJson J files configStr of
     Inl e \<Rightarrow> Throws e s
   | Inr jv \<Rightarrow> (case loadConfigJson J jv of
       Inl e \<Rightarrow> Throws e s
     | Inr config \<Rightarrow> (let s = s\<lparr>src_config := config\<rparr> in
         case stable_data J L jv (src_stable s) of
           Inl e \<Rightarrow> Throws e s
         | Inr data \<Rightarrow> Returns () (s\<lparr>src_stable := data\<rparr>))))"

text \<open>\<open>frame.fracSec = tc.second\<close> turns the number of ticks into a \<open>double\<close>.  \<open>None\<close> is undefined behaviour.\<close>

definition stable_loadDataFrame :: "StableSource \<Rightarrow> Config \<Rightarrow> int \<Rightarrow> PmuDataFrame option" where
  "stable_loadDataFrame s dataConfig current_time = do {
     let frame = src_stable s;
     (soc, fracsec) \<leftarrow> generateTimeCodes_cfg current_time dataConfig 0;
     Some (frame\<lparr>pdf_soc := soc, pdf_fracSec := f64_of_int (uint fracsec)\<rparr>)
   }"

definition fillDataFrame :: "StableSource \<Rightarrow> int \<Rightarrow> PmuDataFrame option" where
  "fillDataFrame s frame_time = stable_loadDataFrame s (src_config s) frame_time"

section \<open>Creating sources\<close>

definition generateSource_type :: "'j Json \<Rightarrow> Libm \<Rightarrow> (string \<rightharpoonup> string) \<Rightarrow> string \<Rightarrow> string \<Rightarrow> exn + StableSource option" where
  "generateSource_type J L files type configFile =
     (if type = ''stable'' then
        (case stable_loadConfig J L files configFile new_source of
           Returns _ src \<Rightarrow> Inr (Some src)
         | Throws e _ \<Rightarrow> Inl e)
      else Inr None)"

definition generateSource :: "'j Json \<Rightarrow> Libm \<Rightarrow> (string \<rightharpoonup> string) \<Rightarrow> string \<Rightarrow> exn + StableSource option" where
  "generateSource J L files configFile =
     attempt (loadJsonStr J configFile) (\<lambda>jv.
     attempt (js_isMember J jv ''source'') (\<lambda>m.
     attempt (if m then attempt (js_get J jv ''source'') (\<lambda>v. replace_string J v ''type'' ''stable'')
              else Inr ''stable'')
       (\<lambda>type. generateSource_type J L files type configFile)))"

section \<open>Time stamps of a stable source\<close>

lemma exact_quality_code: "getTimeQualityCode 0 = Some 0"
proof -
  have "\<not> f32_lt (tqArray ! 0) 0" by (simp add: tqArray_def fp_eval)
  then show ?thesis by (simp add: getTimeQualityCode_def tq_search.simps[of 0 0])
qed

lemma time_codes_24bit:
  assumes "generateTimeCodes_cfg t config 0 = Some (soc, fr)"
  shows "uint fr < 2 ^ 24"
proof -
  obtain ticks where "fr = ticks AND 0x00FFFFFF"
    using assms by (auto simp: generateTimeCodes_cfg_def generateTimeCodes_def exact_quality_code Let_def split: Option.bind_splits)
  moreover have "(0x00FFFFFF :: u32) = mask 24" by (simp add: mask_eq_exp_minus_1)
  ultimately have "fr = take_bit 24 ticks" by (simp add: take_bit_eq_mask)
  then have "uint fr = take_bit 24 (uint ticks)" by (simp add: unsigned_take_bit_eq)
  then show ?thesis by (simp only:) (rule take_bit_int_less_exp)
qed

lemma f64_to_u32_of_int: "0 \<le> z \<Longrightarrow> z < 2 ^ 53 \<Longrightarrow>
    f64_to_u32 (f64_of_int z) = (if z < 2 ^ 32 then Some (word_of_int z) else None)"
  using f64_trunc_of_int[of z] by (simp add: f64_to_u32_def)

text \<open>C12: a stable source repeats its measurements and stamps them with the time codes of the moment, but gives the
  number of ticks where the frame generator expects a fraction of a second: the generator multiplies it by the
  time base once more, which leaves the 32 bits of the field, and is undefined, as soon as ticks times time base
  reaches \<open>2 ^ 32\<close> - with a time base of a million, from 4.3 ms after every full second on.\<close>

theorem stable_source_ticks:
  assumes "generateTimeCodes_cfg t (src_config s) 0 = Some (soc, fr)" "uint (cfg_timeBase (src_config s)) < 2 ^ 24"
  shows "\<exists>frame. fillDataFrame s t = Some frame \<and> pdf_pmus frame = pdf_pmus (src_stable s) \<and> pdf_soc frame = soc \<and>
    (let ticks = uint fr * uint (cfg_timeBase (src_config s)) in
       frame_ticks (src_config s) frame = (if ticks < 2 ^ 32 then Some (word_of_int ticks) else None))"
proof -
  let ?frame = "src_stable s\<lparr>pdf_soc := soc, pdf_fracSec := f64_of_int (uint fr)\<rparr>"
  let ?tb = "uint (cfg_timeBase (src_config s))"
  have fr: "uint fr < 2 ^ 24" using time_codes_24bit[OF assms(1)] .
  have "uint fr * ?tb \<le> 2 ^ 24 * 2 ^ 24" using fr assms(2) by (intro mult_mono) simp_all
  then have small: "uint fr * ?tb < 2 ^ 53" by simp
  have "f64_mul (f64_of_int (uint fr)) (f64_of_int ?tb) = f64_of_int (uint fr * ?tb)"
    using fr assms(2) small by (intro f64_mul_of_int) simp_all
  then have "frame_ticks (src_config s) ?frame =
      (if uint fr * ?tb < 2 ^ 32 then Some (word_of_int (uint fr * ?tb)) else None)"
    using f64_to_u32_of_int[OF _ small] by (simp add: frame_ticks_def)
  moreover have "fillDataFrame s t = Some ?frame"
    using assms(1) by (simp add: fillDataFrame_def stable_loadDataFrame_def)
  ultimately show ?thesis by (simp add: Let_def)
qed

text \<open>The factory \<open>generateSource\<close> takes the name of a configuration file for the configuration itself: unless the name is a
  JSON text it throws, whether or not there is such a file.  The overload with a type does open the file.\<close>

theorem generateSource_rejects_files:
  assumes "js_parse J path = Inl errs"
  shows "generateSource J L files path = Inl (invalid_argument errs) \<and>
    (length path \<le> 128 \<longrightarrow> files path = Some content \<longrightarrow> js_parse J content = Inr jv \<longrightarrow>
      generateSource_type J L files ''stable'' path =
        attempt (loadConfigJson J jv) (\<lambda>config. attempt (stable_data J L jv new_data_frame) (\<lambda>data.
          Inr (Some \<lparr>src_config = config, src_stable = data\<rparr>))))"
proof -
  have "generateSource J L files path = Inl (invalid_argument errs)"
    using assms by (simp add: generateSource_def loadJsonStr_def)
  moreover have "generateSource_type J L files ''stable'' path =
        attempt (loadConfigJson J jv) (\<lambda>config. attempt (stable_data J L jv new_data_frame) (\<lambda>data.
          Inr (Some \<lparr>src_config = config, src_stable = data\<rparr>)))"
    if "length path \<le> 128" "files path = Some content" "js_parse J content = Inr jv"
    using that by (cases "loadConfigJson J jv"; cases "stable_data J L jv new_data_frame")
      (simp_all add: generateSource_type_def stable_loadConfig_def loadJson_def new_source_def Let_def)
  ultimately show ?thesis by blast
qed

section \<open>Instances\<close>

definition paused_source :: StableSource where
  "paused_source = \<lparr>src_config = default_Config, src_stable = stored_frame\<rparr>"

lemma half_second: "generateTimeCodes_cfg 1500000000 default_Config 0 = Some (1, 500000)"
  by (simp add: generateTimeCodes_cfg_def generateTimeCodes_def exact_quality_code default_Config_def fp_eval Let_def)

theorem stable_source_ticks_witness:
  "\<exists>frame. fillDataFrame paused_source 1500000000 = Some frame \<and> pdf_pmus frame = pdf_pmus stored_frame \<and>
     pdf_soc frame = 1 \<and> frame_ticks default_Config frame = None"
  using stable_source_ticks[of 1500000000 paused_source 1 500000] half_second
  by (simp add: paused_source_def default_Config_def)

definition file_reader :: "sample_value Json" where
  "file_reader = sample_json\<lparr>js_parse := (\<lambda>s. if s = ''{}'' then Inr (SObject []) else Inl ''syntax error'')\<rparr>"

theorem generateSource_rejects_files_witness:
  "generateSource file_reader sample_libm [''a.json'' \<mapsto> ''{}''] ''a.json'' = Inl (invalid_argument ''syntax error'') \<and>
   generateSource_type file_reader sample_libm [''a.json'' \<mapsto> ''{}''] ''stable'' ''a.json'' =
     attempt (loadConfigJson file_reader (SObject [])) (\<lambda>config.
       attempt (stable_data file_reader sample_libm (SObject []) new_data_frame) (\<lambda>data.
         Inr (Some \<lparr>src_config = config, src_stable = data\<rparr>)))"
  using generateSource_rejects_files[of file_reader "''a.json''" "''syntax error''" sample_libm
      "[''a.json'' \<mapsto> ''{}'']" "''{}''" "SObject []"]
  by (simp add: file_reader_def)

end
