(* ===== verification/Pmu_Receiver.thy ===== *)
theory Pmu_Receiver
  imports Tcp_Lifecycle Command_Frame Config_Frame
begin

text \<open>
  The receiving end of a synchrophasor stream (\<open>src/pmu/Receiver.hpp\<close>, \<open>src/pmu/Receiver.cpp\<close>): \<open>connect\<close>,
  \<open>getConfig\<close>, \<open>startData\<close> and \<open>stopData\<close> over the connection and the frames of the other theories.

  \<open>None\<close> is a call that does not return within the \<open>fuel\<close> given to its loop; undefined behaviour is thrown as
  \<open>undefined_behaviour\<close>.
\<close>

section \<open>The object\<close>

record ('s, 't, 'w) Receiver =
  rc_address :: string
  rc_port :: string
  rc_idCode :: u16
  rc_config :: Config
  rc_connection :: "('s, 't, 'w) TcpConnection option"
  rc_buffer :: buffer

abbreviation (input) receiver_buffer_size :: nat where "receiver_buffer_size \<equiv> 65536"

definition receiver_connect :: "('s, 't) Platform \<Rightarrow> (string \<Rightarrow> string \<Rightarrow> asio_error + 's) \<Rightarrow>
    (('s, 't, 'w) TcpConnection \<Rightarrow> ('s, 't, 'w) TcpConnection) \<Rightarrow> u32 \<Rightarrow> ('s, 't, 'w) Receiver \<Rightarrow>
    (bool, ('s, 't, 'w) Receiver) outcome option \<times> u32" where
  "receiver_connect P resolve env idcounter r =
     (case create_connecting P resolve (rc_address r) (rc_port r) receiver_buffer_size idcounter of
        (Inl e, n) \<Rightarrow> (Some (Throws e r), n)
      | (Inr c, n) \<Rightarrow> (map_option (\<lambda>(_, c). Returns True (r\<lparr>rc_connection := Some c,
            rc_buffer := resize receiver_buffer_size 0 (rc_buffer r)\<rparr>)) (waitUntilConnected P env 4000 c), n))"

text \<open>\<open>generateCommand(buffer.data(), 65536, ...)\<close> and \<open>connection->send(buffer.data(), size)\<close>.\<close>

definition send_command :: "('s, 't) Platform \<Rightarrow> (nat \<Rightarrow> ('s, 't, 'w) TcpConnection \<Rightarrow> ('s, 't, 'w) TcpConnection) \<Rightarrow>
    PmuCommand \<Rightarrow> ('s, 't, 'w) Receiver \<Rightarrow> (unit, ('s, 't, 'w) Receiver) outcome option" where
  "send_command P env command r =
     (case generateCommand (rc_buffer r) receiver_buffer_size command (rc_idCode r) of
        None \<Rightarrow> Some (Throws undefined_behaviour r)
      | Some (b, n) \<Rightarrow> (let r = r\<lparr>rc_buffer := b\<rparr> in
          case rc_connection r of
            None \<Rightarrow> Some (Throws undefined_behaviour r)
          | Some c \<Rightarrow> map_option (\<lambda>out. case out of
                Returns _ c \<Rightarrow> Returns () (r\<lparr>rc_connection := Some c\<rparr>)
              | Throws e c \<Rightarrow> Throws e (r\<lparr>rc_connection := Some c\<rparr>)) (send P env (take (unat n) b) c)))"

text \<open>\<open>connection->receive(buffer.data() + offset, 65536)\<close>.\<close>

definition receive_at :: "('s, 't) Platform \<Rightarrow> nat \<Rightarrow> ('s, 't, 'w) Receiver \<Rightarrow> (nat, ('s, 't, 'w) Receiver) outcome" where
  "receive_at P off r = (case rc_connection r of
     None \<Rightarrow> Throws undefined_behaviour r
   | Some c \<Rightarrow> (case receive P receiver_buffer_size c of
       Throws e c \<Rightarrow> Throws e (r\<lparr>rc_connection := Some c\<rparr>)
     | Returns bs c \<Rightarrow> (let r = r\<lparr>rc_connection := Some c\<rparr> in
         if off + length bs \<le> length (rc_buffer r)
         then Returns (length bs) (r\<lparr>rc_buffer := overlay off bs (rc_buffer r)\<rparr>)
         else Throws undefined_behaviour r)))"

text \<open>The loop of \<open>getConfig\<close>, whose condition looks at a variable the body does not change.\<close>

fun await_config :: "('s, 't) Platform \<Rightarrow> nat \<Rightarrow> ParseResult \<Rightarrow> nat \<Rightarrow> ('s, 't, 'w) Receiver \<Rightarrow>
    (unit, ('s, 't, 'w) Receiver) outcome option" where
  "await_config P fuel pr sz r =
     (if pr \<noteq> length_mismatch then Some (Returns () r)
      else case fuel of 0 \<Rightarrow> None
        | Suc fuel \<Rightarrow> (case receive_at P sz r of
            Throws e r \<Rightarrow> Some (Throws e r)
          | Returns sz2 r \<Rightarrow> await_config P fuel pr (sz + sz2) r))"

declare await_config.simps [simp del]

definition getConfig :: "('s, 't) Platform \<Rightarrow> (nat \<Rightarrow> ('s, 't, 'w) TcpConnection \<Rightarrow> ('s, 't, 'w) TcpConnection) \<Rightarrow> nat \<Rightarrow>
    ('s, 't, 'w) Receiver \<Rightarrow> (bool, ('s, 't, 'w) Receiver) outcome option" where
  "getConfig P env fuel r = (case send_command P env Cmd_send_config2 r of
     None \<Rightarrow> None
   | Some (Throws e r) \<Rightarrow> Some (Throws e r)
   | Some (Returns _ r) \<Rightarrow> (case receive_at P 0 r of
       Throws e r \<Rightarrow> Some (Throws e r)
     | Returns sz r \<Rightarrow> (case parseConfig2 (rc_buffer r) sz (rc_config r) of
         None \<Rightarrow> Some (Throws undefined_behaviour r)
       | Some (pr, config) \<Rightarrow> map_option (\<lambda>out. case out of
             Returns _ r \<Rightarrow> Returns (pr = parse_complete) r
           | Throws e r \<Rightarrow> Throws e r) (await_config P fuel pr sz (r\<lparr>rc_config := config\<rparr>)))))"

definition startData :: "('s, 't) Platform \<Rightarrow> (nat \<Rightarrow> ('s, 't, 'w) TcpConnection \<Rightarrow> ('s, 't, 'w) TcpConnection) \<Rightarrow>
    ('s, 't, 'w) Receiver \<Rightarrow> (unit, ('s, 't, 'w) Receiver) outcome option" where
  "startData P env r = send_command P env Cmd_data_on r"

definition stopData :: "('s, 't) Platform \<Rightarrow> (nat \<Rightarrow> ('s, 't, 'w) TcpConnection \<Rightarrow> ('s, 't, 'w) TcpConnection) \<Rightarrow>
    ('s, 't, 'w) Receiver \<Rightarrow> (unit, ('s, 't, 'w) Receiver) outcome option" where
  "stopData P env r = send_command P env Cmd_data_off r"

section \<open>Configurations\<close>

lemma parseCommon_more:
  assumes "parseCommon b n f = Some (parse_complete, g)" "14 \<le> n" "n \<le> ds" "ds \<le> length b"
  shows "parseCommon b ds f = Some (parse_complete, g)"
proof -
  have "14 \<le> length b" "n \<le> length b" using assms by simp_all
  note d = parseCommon_completeD[OF assms(1) this]
  show ?thesis using d assms by (simp add: parseCommon_cases)
qed

lemma config_framed_prefix:
  assumes fr: "config_framed b t a config" and n: "n = 24 + pmus_size (sent a (cfg_pmus config))"
    and len: "n \<le> length b" "n \<le> length b2" and same: "take n b2 = take n b"
    and wire: "15 + length (config_wire a config) \<le> n"
  shows "config_framed b2 t a config"
proof -
  have "holds_at b2 15 (config_wire a config)"
  proof -
    have h: "holds_at b 15 (config_wire a config)" using fr by (simp add: config_framed_def)
    have "b2 ! i = b ! i" if "i < n" for i using same that by (metis nth_take)
    then show ?thesis using h len wire by (auto simp: holds_at_iff_nth)
  qed
  moreover have "parseCommon b2 ds f = Some (parse_complete, common_result t (of_nat n) (cfg_idcode config)
      (cfg_soc config) (cfg_fracsec config) f)" if "n \<le> ds" "ds \<le> length b2" for ds f
  proof -
    have "parseCommon b n f = Some (parse_complete, common_result t (of_nat n) (cfg_idcode config)
        (cfg_soc config) (cfg_fracsec config) f)"
      using fr len(1) n by (simp add: config_framed_def)
    then have "parseCommon b2 n f = Some (parse_complete, common_result t (of_nat n) (cfg_idcode config)
        (cfg_soc config) (cfg_fracsec config) f)"
      using parseCommon_take[of n b f] parseCommon_take[of n b2 f] same len n by simp
    then show ?thesis by (rule parseCommon_more) (use that n in simp_all)
  qed
  ultimately show ?thesis using n by (simp add: config_framed_def)
qed

text \<open>C10: when the peer answers the request with a configuration frame 2, all of whose PMUs are active, and the answer
  fits a frame and arrives in one piece, \<open>getConfig\<close> returns true and the receiver holds the configuration of the peer
  in the precision of the wire - exactly, if no PMU of the configuration it held before had other than 60 Hz, and but
  for the nominal frequencies of PMUs that are not at 50 Hz, which stay as they were, otherwise.  With an inactive PMU
  the answer cannot be read (\<open>config2_inactive_unreadable\<close>).\<close>

theorem getConfig_receives:
  assumes "config_fits config dataSize b" "list_all pc_active (cfg_pmus config)"
    and "generateConfig2 b dataSize config = Some (b', n)"
    and "send_command P env Cmd_send_config2 r = Some (Returns () r1)" "rc_connection r1 = Some c"
    and "receive P receiver_buffer_size c = Returns (take (unat n) b') c'" "length (rc_buffer r1) = receiver_buffer_size"
  shows "\<exists>r2. getConfig P env fuel r = Some (Returns True r2) \<and> rc_config r2 = canon_config (rc_config r1) config \<and>
    (all_60 (rc_config r1) \<longrightarrow> rc_config r2 = received_config (rc_config r1) config) \<and> rc_connection r2 = Some c'"
proof -
  note f = assms(1)[unfolded config_fits_def]
  let ?s = "pmus_size (cfg_pmus config)"
  have all: "sent True (cfg_pmus config) = cfg_pmus config" using assms(2) by (simp add: sent_def list_all_iff)
  have b': "n = of_nat (24 + ?s)" "length b' = length b" "config_framed b' Pkt_config2 True config"
    using generateConfig2_framed[OF assms(1)] assms(3) all by auto
  have n: "unat n = 24 + ?s" using b'(1) f unat16[of "24 + ?s"] by simp
  let ?r = "r1\<lparr>rc_connection := Some c', rc_buffer := overlay 0 (take (unat n) b') (rc_buffer r1)\<rparr>"
  have len: "unat n \<le> length b'" using f n b'(2) by simp
  have recv: "receive_at P 0 r1 = Returns (unat n) ?r"
    using assms(5-7) len f n by (simp add: receive_at_def)
  have same: "take (unat n) (rc_buffer ?r) = take (unat n) b'" using len by (simp add: overlay_def)
  have lb: "unat n \<le> length (rc_buffer ?r)" using assms(7) f n len by simp
  have "15 + length (config_wire True config) \<le> unat n"
    using f n all by (simp add: config_wire_def length_pmu_wires)
  then have "config_framed (rc_buffer ?r) Pkt_config2 True config"
    using config_framed_prefix[OF b'(3) _ len lb same] n all by simp
  moreover have "length (cfg_pmus config) < 65536" using f pmus_size_ge[of "cfg_pmus config"] by linarith
  ultimately have "parseConfig2 (rc_buffer ?r) (unat n) (rc_config ?r) =
      Some (parse_complete, canon_config (rc_config r1) config)"
    using parseConfig_framed[of "rc_buffer ?r" Pkt_config2 True config "unat n" "rc_config ?r"] all f n lb
    by (simp add: parseConfig2_def)
  then show ?thesis using assms(4) recv canon_config_received[of "rc_config r1" config]
    by (simp add: getConfig_def await_config.simps)
qed

lemma await_config_never:
  "await_config P fuel length_mismatch sz r \<noteq> Some (Returns u r')"
proof (induction fuel arbitrary: sz r)
  case 0
  then show ?case by (simp add: await_config.simps)
next
  case (Suc fuel)
  then show ?case by (subst await_config.simps) (simp split: outcome.split)
qed

lemma fragment_mismatch:
  assumes "4 \<le> length b" "b ! 0 = sync_lead" "sz < unat (of_be16 (b ! 2) (b ! 3))"
  shows "parseConfig2 b sz config = Some (length_mismatch, config)"
proof -
  have "b \<noteq> []" using assms(1) by auto
  moreover have "ucast (b ! 2) * 256 + ucast (b ! 3) = of_be16 (b ! 2) (b ! 3)" by (simp add: of_be16_mul)
  ultimately show ?thesis using assms by (simp add: parseConfig2_def parseConfig1_def parseCommon_def Let_def)
qed

text \<open>C11: when the answer arrives in pieces, \<open>getConfig\<close> never returns, whatever the peer sends afterwards: the loop
  that should wait for the rest never parses again.  It ends with an exception of the socket, or by writing behind
  the buffer, or not at all.\<close>

theorem getConfig_fragment_never_returns:
  assumes "send_command P env Cmd_send_config2 r = Some (Returns () r1)" "receive_at P 0 r1 = Returns sz r2"
    and "4 \<le> sz" "sz \<le> length (rc_buffer r2)" "rc_buffer r2 ! 0 = sync_lead"
    and "sz < unat (of_be16 (rc_buffer r2 ! 2) (rc_buffer r2 ! 3))"
  shows "getConfig P env fuel r \<noteq> Some (Returns success r')"
proof -
  have "parseConfig2 (rc_buffer r2) sz (rc_config r2) = Some (length_mismatch, rc_config r2)"
    using assms(3-6) by (intro fragment_mismatch) simp_all
  then have "getConfig P env fuel r = map_option (\<lambda>out. case out of Returns _ r \<Rightarrow> Returns False r | Throws e r \<Rightarrow> Throws e r)
      (await_config P fuel length_mismatch sz r2)"
    using assms(1,2) by (simp add: getConfig_def)
  then show ?thesis using await_config_never[of P fuel sz r2]
    by (auto split: outcome.splits)
qed

section \<open>Commands\<close>

lemma generateCommand_length: "generateCommand b ds command sid = Some (b', n) \<Longrightarrow> length b' = length b"
  by (auto simp: generateCommand_def generateCommonFrame_def addSize_def addCRC_def store16_def wr8_def wr_bytes_def
      split: Option.bind_splits if_splits)

text \<open>C9: the commands of a receiver that has just connected are not commands: \<open>generateCommand\<close> is told that the
  buffer has 65536 bytes, which it takes for none, and leaves the sync byte, the type and the id code out.  The
  peer gets at most eighteen bytes that no parser accepts.\<close>

theorem first_command_invalid:
  assumes "socket_laws P out" "rc_buffer r = []" "receiver_connect P resolve env n r = (Some (Returns True r1), n')"
    and "rc_connection r1 = Some c" "isConnected P c" "send_command P env' command r1 = Some (Returns () r2)"
  shows "\<exists>packet c2. rc_connection r2 = Some c2 \<and> length packet = 18 \<and>
    (\<exists>m \<le> 18. out (tc_socket c2) = out (tc_socket c) @ take m packet) \<and>
    parseCommon packet 18 f = Some (invalid_sync, f) \<and> parseCommand packet 18 = Some Cmd_unknown"
proof -
  have buffer: "rc_buffer r1 = replicate receiver_buffer_size 0"
    using assms(2,3) by (auto simp: receiver_connect_def resize_def split: prod.splits sum.splits)
  have len: "18 \<le> length (rc_buffer r1)" by (simp add: buffer)
  have "rc_buffer r1 ! 0 = 0" unfolding buffer by (rule nth_replicate) simp
  then have "rc_buffer r1 ! 0 \<noteq> sync_lead" by simp
  then obtain b' where b': "generateCommand (rc_buffer r1) receiver_buffer_size command (rc_idCode r1) = Some (b', 18)"
      "take 2 b' = take 2 (rc_buffer r1)" "\<And>f. parseCommon b' 18 f = Some (invalid_sync, f)"
    using command_in_64k_buffer[OF len, of command "rc_idCode r1"] by (metis option.inject prod.inject)
  have l: "18 \<le> length b'" using generateCommand_length[OF b'(1)] len by simp
  let ?packet = "take 18 b'"
  obtain out' where out': "send P env' ?packet c = Some out'"
    using assms(4,6) b'(1) by (auto simp: send_command_def Let_def)
  have r2: "out' = Returns k c2 \<Longrightarrow> rc_connection r2 = Some c2" and no_throw: "out' \<noteq> Throws e c2" for k c2 e
    using assms(4,6) b'(1) out' by (auto simp: send_command_def Let_def)
  obtain k c2 where k: "out' = Returns k c2" using no_throw by (cases out') auto
  have "\<exists>m \<le> 18. out (tc_socket c2) = out (tc_socket c) @ take m ?packet"
    using send_prefix[OF assms(1,5) out'] k l by simp
  moreover have "parseCommon ?packet 18 f = Some (invalid_sync, f)" for f
    using parseCommon_take[of 18 b' f] b'(3)[of f] l by simp
  moreover from this have "parseCommand ?packet 18 = Some Cmd_unknown" by (simp add: parseCommand_def)
  ultimately show ?thesis using r2[OF k] l by (intro exI[of _ ?packet] exI[of _ c2]) simp
qed

section \<open>Instances\<close>

definition sample_peer :: "u8 list list \<Rightarrow> sample_socket" where
  "sample_peer input = \<lparr>ss_open = True, ss_out = [], ss_chunk = 18, ss_in = input\<rparr>"

definition sample_receiver :: "(sample_socket, bool \<times> bool, nat) Receiver" where
  "sample_receiver = \<lparr>rc_address = ''localhost'', rc_port = ''4712'', rc_idCode = 7, rc_config = default_Config,
     rc_connection = None, rc_buffer = []\<rparr>"

definition sample_link :: "sample_socket \<Rightarrow> (sample_socket, bool \<times> bool, nat) TcpConnection" where
  "sample_link s = activate_connected sample_platform (fst (make_connection sample_platform s receiver_buffer_size True 0))"

definition connected_receiver :: "sample_socket \<Rightarrow> (sample_socket, bool \<times> bool, nat) Receiver" where
  "connected_receiver s = sample_receiver\<lparr>rc_connection := Some (sample_link s),
     rc_buffer := replicate receiver_buffer_size 0\<rparr>"

lemma sample_link:
  "isConnected sample_platform (sample_link s)" "tc_socket (sample_link s) = s"
  "(sample_link s)\<lparr>tc_socket := s'\<rparr> = sample_link s'"
  by (simp_all add: sample_link_def isConnected_def activate_connected_def make_connection_def sample_platform_def)

lemma sample_connects:
  "receiver_connect sample_platform (\<lambda>_ _. Inr (sample_peer input)) (activate_connected sample_platform) 0 sample_receiver =
     (Some (Returns True (connected_receiver (sample_peer input))), 1)"
proof -
  obtain c :: "(sample_socket, bool \<times> bool, nat) TcpConnection" where
      c: "make_connection sample_platform (sample_peer input) receiver_buffer_size True 0 = (c, 1)"
    by (simp add: make_connection_def)
  have link: "sample_link (sample_peer input) = activate_connected sample_platform c" by (simp add: sample_link_def c)
  have "tc_connected c = (False, False)" "\<not> tc_connectionError c"
    using c by (auto simp: make_connection_def sample_platform_def)
  then have "waitUntilConnected sample_platform (activate_connected sample_platform) 4000 c =
      Some (True, activate_connected sample_platform c)"
    by (simp add: waitUntilConnected_def isConnected_def activate_connected_def sample_platform_def)
  then show ?thesis
    by (simp add: receiver_connect_def create_connecting_def connected_receiver_def sample_receiver_def resize_def c link)
qed

lemma sample_send:
  "\<exists>b out. send_command sample_platform (\<lambda>_ c. c) command (connected_receiver (sample_peer input)) =
      Some (Returns () (connected_receiver (sample_peer input)
        \<lparr>rc_connection := Some (sample_link (sample_peer input\<lparr>ss_out := out\<rparr>)), rc_buffer := b\<rparr>)) \<and>
    length b = receiver_buffer_size"
proof -
  let ?z = "replicate receiver_buffer_size 0 :: buffer"
  have "18 \<le> length ?z" by (simp only: length_replicate)
  moreover have "?z ! 0 \<noteq> sync_lead"
  proof -
    have "?z ! 0 = 0" by (rule nth_replicate) simp
    then show ?thesis by (simp only:) simp
  qed
  ultimately obtain b where b: "generateCommand ?z receiver_buffer_size command 7 = Some (b, 18)"
    using command_in_64k_buffer[of ?z command 7] by blast
  have len: "length b = receiver_buffer_size" using generateCommand_length[OF b] by simp
  let ?out = "take 18 b"
  have "send sample_platform (\<lambda>_ c. c) ?out (sample_link (sample_peer input)) =
      Some (Returns 18 (sample_link (sample_peer input\<lparr>ss_out := ?out\<rparr>)))"
    using len by (simp add: send_def sample_link send_data_def send_loop.simps[of _ _ 0])
      (simp add: sample_platform_def sample_peer_def sample_link)
  then show ?thesis using b len
    by (intro exI[of _ b] exI[of _ ?out]) (simp add: send_command_def connected_receiver_def sample_receiver_def)
qed

theorem first_command_invalid_witness:
  "\<exists>r2 packet. startData sample_platform (\<lambda>_ c. c) (connected_receiver (sample_peer [])) = Some (Returns () r2) \<and>
     length packet = 18 \<and> parseCommand packet 18 = Some Cmd_unknown"
proof -
  let ?r = "connected_receiver (sample_peer [])"
  obtain r2 where r2: "send_command sample_platform (\<lambda>_ c. c) Cmd_data_on ?r = Some (Returns () r2)"
    using sample_send[of Cmd_data_on "[]"] by auto
  have "rc_buffer sample_receiver = []" by (simp add: sample_receiver_def)
  moreover have "rc_connection ?r = Some (sample_link (sample_peer []))" by (simp add: connected_receiver_def)
  ultimately show ?thesis
    using first_command_invalid[OF sample_socket_laws _ sample_connects _ sample_link(1) r2] r2
    by (auto simp: startData_def)
qed

lemma sample_answer:
  assumes "length bs \<le> receiver_buffer_size"
  shows "\<exists>b r1 r2. send_command sample_platform (\<lambda>_ c. c) Cmd_send_config2 (connected_receiver (sample_peer [bs])) =
      Some (Returns () r1) \<and> length (rc_buffer r1) = receiver_buffer_size \<and> rc_config r1 = default_Config \<and>
    (\<exists>c c'. rc_connection r1 = Some c \<and> receive sample_platform receiver_buffer_size c = Returns bs c') \<and>
    receive_at sample_platform 0 r1 = Returns (length bs) r2 \<and> rc_buffer r2 = overlay 0 bs b \<and> length b = receiver_buffer_size"
proof -
  obtain b out where b: "length b = receiver_buffer_size"
    "send_command sample_platform (\<lambda>_ c. c) Cmd_send_config2 (connected_receiver (sample_peer [bs])) =
      Some (Returns () (connected_receiver (sample_peer [bs])
        \<lparr>rc_connection := Some (sample_link (sample_peer [bs]\<lparr>ss_out := out\<rparr>)), rc_buffer := b\<rparr>))"
    using sample_send[of Cmd_send_config2 "[bs]"] by blast
  have "receive sample_platform receiver_buffer_size (sample_link (sample_peer [bs]\<lparr>ss_out := out\<rparr>)) =
      Returns bs (sample_link (sample_peer [bs]\<lparr>ss_out := out, ss_in := []\<rparr>))"
    using assms by (simp add: receive_def sample_link) (simp add: sample_platform_def sample_peer_def sample_link)
  then show ?thesis using assms b
    by (intro exI[of _ b]) (simp add: receive_at_def connected_receiver_def sample_receiver_def)
qed

theorem getConfig_receives_witness:
  "\<exists>input r2. getConfig sample_platform (\<lambda>_ c. c) 1 (connected_receiver (sample_peer [input])) = Some (Returns True r2) \<and>
     rc_config r2 = received_config default_Config (sample_config True f32_50)"
proof -
  obtain b' where b': "generateConfig2 (replicate 80 0) 80 (sample_config True f32_50) =
      Some (b', of_nat (24 + pmus_size (sent True (cfg_pmus (sample_config True f32_50)))))" "length b' = length (replicate 80 (0 :: u8))"
    using generateConfig2_framed[OF sample_fits] by blast
  let ?n = "of_nat (24 + pmus_size (sent True (cfg_pmus (sample_config True f32_50)))) :: u16"
  have "length (take (unat ?n) b') \<le> receiver_buffer_size" using b'(2) by simp
  from sample_answer[OF this] obtain r1 c c' where
    "send_command sample_platform (\<lambda>_ c. c) Cmd_send_config2 (connected_receiver (sample_peer [take (unat ?n) b'])) =
      Some (Returns () r1)" "length (rc_buffer r1) = receiver_buffer_size" "rc_config r1 = default_Config"
    "rc_connection r1 = Some c" "receive sample_platform receiver_buffer_size c = Returns (take (unat ?n) b') c'" by blast
  note recv = this
  have "list_all pc_active (cfg_pmus (sample_config True f32_50))" by simp
  note got = getConfig_receives[OF sample_fits this b'(1) recv(1,4,5,2), of 1]
  have "all_60 default_Config" by (simp add: all_60_def default_Config_def)
  with got recv(3)
  obtain r2 where "getConfig sample_platform (\<lambda>_ c. c) 1 (connected_receiver (sample_peer [take (unat ?n) b'])) =
      Some (Returns True r2)" "rc_config r2 = received_config default_Config (sample_config True f32_50)" by auto
  then show ?thesis by blast
qed

theorem getConfig_fragment_never_returns_witness:
  "getConfig sample_platform (\<lambda>_ c. c) 9 (connected_receiver (sample_peer [[0xAA, 0x31, 0, 74]])) \<noteq>
     Some (Returns True sample_receiver)"
proof -
  let ?bs = "[0xAA, 0x31, 0, 74] :: u8 list"
  have "length ?bs \<le> receiver_buffer_size" by simp
  from sample_answer[OF this] obtain b r1 r2 where r:
    "send_command sample_platform (\<lambda>_ c. c) Cmd_send_config2 (connected_receiver (sample_peer [?bs])) = Some (Returns () r1)"
    "receive_at sample_platform 0 r1 = Returns (length ?bs) r2" "rc_buffer r2 = overlay 0 ?bs b" "length b = receiver_buffer_size"
    by blast
  then have "rc_buffer r2 ! 0 = 0xAA" "rc_buffer r2 ! 2 = 0" "rc_buffer r2 ! 3 = 74" "4 \<le> length (rc_buffer r2)"
    by (simp_all add: nth_overlay)
  with getConfig_fragment_never_returns[OF r(1,2)] show ?thesis by (simp add: of_be16_def)
qed

end
