(* ===== verification/Pmu_Shell.thy ===== *)
theory Pmu_Shell
  imports Stable_Source Tcp_Server
begin

text \<open>
  The synchrophasor device around its source (\<open>src/pmu/Pmu.hpp\<close>, \<open>src/pmu/Pmu.cpp\<close>) and its network side
  (\<open>src/pmu/TcpPmu.hpp\<close>, \<open>src/pmu/TcpPmu.cpp\<close>): \<open>TcpPmu::startServer\<close> and the classes \<open>PmuSession\<close> and
  \<open>Listener\<close>.  Clocks are arguments; an io context is a number, a null pointer \<open>None\<close>; callbacks are of any type
  \<open>'f\<close>, since nothing of the class calls them.
\<close>

section \<open>The device\<close>

record 'f Pmu =
  pm_source :: "StableSource option"
  pm_TimeMultiplier :: f64
  pm_callbacks :: "'f list"
  pm_context :: "nat option"
  pm_timer :: nat \<comment> \<open>the context the timer belongs to\<close>
  pm_start_time :: int
  pm_clock_time :: int

definition make_pmu :: "StableSource option \<Rightarrow> nat option \<Rightarrow> nat \<Rightarrow> 'f Pmu" where
  "make_pmu source context timer = \<lparr>pm_source = source, pm_TimeMultiplier = 0x3FF0000000000000, pm_callbacks = [],
     pm_context = context, pm_timer = timer, pm_start_time = 0, pm_clock_time = 0\<rparr>"

text \<open>The constructor that makes a context, \<open>fresh\<close>, and the one that is given one and uses it for the timer only.\<close>

definition new_pmu :: "'j Json \<Rightarrow> Libm \<Rightarrow> (string \<rightharpoonup> string) \<Rightarrow> nat \<Rightarrow> string \<Rightarrow> exn + 'f Pmu" where
  "new_pmu J L files fresh configStr =
     attempt (generateSource J L files configStr) (\<lambda>source. Inr (make_pmu source (Some fresh) fresh))"

definition new_pmu_shared :: "'j Json \<Rightarrow> Libm \<Rightarrow> (string \<rightharpoonup> string) \<Rightarrow> string \<Rightarrow> nat \<Rightarrow> exn + 'f Pmu" where
  "new_pmu_shared J L files configStr context =
     attempt (generateSource J L files configStr) (\<lambda>source. Inr (make_pmu source None context))"

definition addCallback :: "'f \<Rightarrow> 'f Pmu \<Rightarrow> nat \<times> 'f Pmu" where
  "addCallback cback pmu = (let pmu = pmu\<lparr>pm_callbacks := pm_callbacks pmu @ [cback]\<rparr> in
     (length (pm_callbacks pmu) - 1, pmu))"

text \<open>\<open>None\<close>: the null pointer is dereferenced.\<close>

definition pmu_getContext :: "'f Pmu \<Rightarrow> nat option" where
  "pmu_getContext pmu = pm_context pmu"

definition getClockTime :: "int \<Rightarrow> int" where
  "getClockTime system_now = system_now"

text \<open>\<open>clock\<close> is the virtual \<open>getClockTime\<close>.\<close>

definition pmu_start :: "int \<Rightarrow> int \<Rightarrow> 'f Pmu \<Rightarrow> 'f Pmu" where
  "pmu_start steady_now clock pmu = pmu\<lparr>pm_start_time := steady_now, pm_clock_time := clock\<rparr>"

definition startThread :: "'f Pmu \<Rightarrow> 'f Pmu" where
  "startThread pmu = pmu"

section \<open>The TCP device\<close>

record ('s, 't, 'w, 'f) TcpPmu = "'f Pmu" +
  tp_interface :: string
  tp_port :: string
  tp_connection :: "('s, 't, 'w) TcpConnection option"
  tp_buffer :: buffer

definition startServer :: "('s, 't) Platform \<Rightarrow> (string \<Rightarrow> string \<Rightarrow> asio_error + 's) \<Rightarrow>
    (('s, 't, 'w) TcpConnection \<Rightarrow> ('s, 't, 'w) TcpConnection) \<Rightarrow> u32 \<Rightarrow> ('s, 't, 'w, 'f) TcpPmu \<Rightarrow>
    (unit, ('s, 't, 'w, 'f) TcpPmu) outcome option \<times> u32" where
  "startServer P resolve env idcounter pmu =
     (case create_connecting P resolve (tp_interface pmu) (tp_port pmu) 65536 idcounter of
        (Inl e, n) \<Rightarrow> (Some (Throws e pmu), n)
      | (Inr c, n) \<Rightarrow> (map_option (\<lambda>(_, c). Returns () (pmu\<lparr>tp_connection := Some c,
            tp_buffer := resize 65536 0 (tp_buffer pmu)\<rparr>)) (waitUntilConnected P env 4000 c), n))"

section \<open>Sessions\<close>

text \<open>\<open>async_receive\<close> and \<open>async_send\<close> register a handler; the operation that is outstanding is the field
  \<open>ps_pending\<close>.  \<open>fail\<close> only prints.\<close>

datatype session_operation = Reading | Writing "u8 list"

record 's PmuSession =
  ps_socket :: 's
  ps_buffer :: buffer
  ps_pending :: "session_operation option"

definition bufferSize :: nat where
  "bufferSize = 63336 * 2"

definition new_session :: "'s \<Rightarrow> 's PmuSession" where
  "new_session socket = \<lparr>ps_socket = socket, ps_buffer = replicate bufferSize 0, ps_pending = None\<rparr>"

definition session_run :: "'s PmuSession \<Rightarrow> 's PmuSession" where
  "session_run s = s"

definition do_read :: "'s PmuSession \<Rightarrow> 's PmuSession" where
  "do_read s = s\<lparr>ps_pending := Some Reading\<rparr>"

definition session_on_accept :: "asio_error option \<Rightarrow> 's PmuSession \<Rightarrow> 's PmuSession" where
  "session_on_accept ec s = (if ec \<noteq> None then s else do_read s)"

definition on_read :: "asio_error option \<Rightarrow> nat \<Rightarrow> 's PmuSession \<Rightarrow> 's PmuSession" where
  "on_read ec bytes_transferred s = s\<lparr>ps_pending := Some (Writing (ps_buffer s))\<rparr>"

definition on_write :: "asio_error option \<Rightarrow> nat \<Rightarrow> 's PmuSession \<Rightarrow> 's PmuSession" where
  "on_write ec bytes_transferred s = (if ec \<noteq> None then s\<lparr>ps_pending := None\<rparr> else do_read s)"

text \<open>The io context fills the buffer and runs the handlers.\<close>

inductive session_step :: "'s PmuSession \<Rightarrow> 's PmuSession \<Rightarrow> bool" where
  accepted: "ps_pending s = None \<Longrightarrow> session_step s (session_on_accept ec s)"
| received: "ps_pending s = Some Reading \<Longrightarrow> length bs \<le> length (ps_buffer s) \<Longrightarrow>
    session_step s (on_read ec (length bs) (s\<lparr>ps_buffer := overlay 0 bs (ps_buffer s)\<rparr>))"
| written: "ps_pending s = Some (Writing bs) \<Longrightarrow> n \<le> length bs \<Longrightarrow> session_step s (on_write ec n s)"

inductive_cases session_stepE: "session_step s t"

definition session_init :: "'s PmuSession \<Rightarrow> bool" where
  "session_init s \<longleftrightarrow> (\<exists>socket. s = new_session socket)"

definition session_inv :: "'s PmuSession \<Rightarrow> bool" where
  "session_inv s \<longleftrightarrow> length (ps_buffer s) = bufferSize \<and> (\<forall>bs. ps_pending s = Some (Writing bs) \<longrightarrow> bs = ps_buffer s)"

lemmas session_defs = session_inv_def session_on_accept_def on_read_def on_write_def do_read_def

interpretation session: transition_system session_step session_init session_inv
proof
  show "session_init s \<Longrightarrow> session_inv s" for s :: "'a PmuSession"
    by (auto simp: session_init_def session_inv_def new_session_def)
  show "session_inv s \<Longrightarrow> session_step s t \<Longrightarrow> session_inv t" for s t :: "'a PmuSession"
    by (erule session_stepE) (auto simp: session_defs)
qed

text \<open>A session answers whatever it reads with its whole buffer of 126672 bytes: in every reachable state the
  outstanding write has that size, and every completed read, a failed one and one of no bytes too, is
  followed by such a write.\<close>

theorem session_echoes_buffer:
  assumes "session_init s" "session_step\<^sup>*\<^sup>* s t"
  shows "(\<forall>bs. ps_pending t = Some (Writing bs) \<longrightarrow> length bs = 126672) \<and>
    (\<forall>u. ps_pending t = Some Reading \<longrightarrow> session_step t u \<longrightarrow>
       (\<exists>bs. ps_pending u = Some (Writing bs) \<and> length bs = 126672))"
proof -
  have t: "session_inv t" using assms by (rule session.inv_reachable)
  moreover have "\<exists>bs. ps_pending u = Some (Writing bs) \<and> length bs = 126672"
    if "ps_pending t = Some Reading" "session_step t u" for u
    using that(2,1) t by (cases rule: session_step.cases) (auto simp: session_defs bufferSize_def)
  ultimately show ?thesis by (auto simp: session_inv_def bufferSize_def)
qed

theorem session_echoes_buffer_witness:
  "\<exists>bs. ps_pending (on_read (Some eof) 0 (do_read (new_session ()))) = Some (Writing bs) \<and> length bs = 126672"
proof -
  let ?s = "new_session ()"
  have "session_step ?s (session_on_accept None ?s)" by (rule session_step.accepted) (simp add: new_session_def)
  then have "session_step ?s (do_read ?s)" by (simp add: session_on_accept_def)
  then have reach: "session_step\<^sup>*\<^sup>* ?s (do_read ?s)" by (rule r_into_rtranclp)
  have "session_step (do_read ?s) (on_read (Some eof) (length ([] :: u8 list)) ((do_read ?s)\<lparr>ps_buffer :=
      overlay 0 [] (ps_buffer (do_read ?s))\<rparr>))"
    by (rule session_step.received) (simp_all add: do_read_def)
  then have "session_step (do_read ?s) (on_read (Some eof) 0 (do_read ?s))" by simp
  with session_echoes_buffer[OF _ reach] show ?thesis by (simp add: session_init_def do_read_def)
qed

section \<open>The listener\<close>

record 'a Listener =
  ls_acceptor :: "'a option" \<comment> \<open>\<open>None\<close> when it could not be opened\<close>
  ls_websocket :: bool
  ls_accepting :: bool

text \<open>Each of the four calls of the constructor may fail; the rest is then left out.\<close>

definition new_listener :: "('s, 'a, 'e) AcceptorOps \<Rightarrow> 'e \<Rightarrow> bool \<Rightarrow> 'a Listener" where
  "new_listener A endpoint webs =
     (let l = \<lparr>ls_acceptor = None, ls_websocket = webs, ls_accepting = False\<rparr> in
      case ao_open A endpoint of
        Inl e \<Rightarrow> l
      | Inr a \<Rightarrow> (case ao_reuse A True a of
            (Some e, a) \<Rightarrow> l\<lparr>ls_acceptor := Some a\<rparr>
          | (None, a) \<Rightarrow> (case ao_bind A endpoint a of
                (Some e, a) \<Rightarrow> l\<lparr>ls_acceptor := Some a\<rparr>
              | (None, a) \<Rightarrow> l\<lparr>ls_acceptor := Some (snd (ao_listen A a))\<rparr>)))"

definition listener_do_accept :: "'a Listener \<Rightarrow> 'a Listener" where
  "listener_do_accept l = l\<lparr>ls_accepting := True\<rparr>"

definition listener_run :: "'a Listener \<Rightarrow> 'a Listener" where
  "listener_run l = listener_do_accept l"

text \<open>The session is held by a temporary \<open>shared_ptr\<close> only: once \<open>run\<close> has returned it is destroyed, which closes
  its socket.  The result has the session as \<open>run\<close> left it and its socket after that.\<close>

definition listener_on_accept :: "('s, 't) Platform \<Rightarrow> asio_error option \<Rightarrow> 's \<Rightarrow> 'a Listener \<Rightarrow>
    ('s PmuSession \<times> 's) option \<times> 'a Listener" where
  "listener_on_accept P ec socket l =
     (let l = l\<lparr>ls_accepting := False\<rparr> in
      if ec \<noteq> None then (None, l)
      else let s = session_run (new_session socket) in
        (Some (s, snd (pf_close P (ps_socket s))), listener_do_accept l))"

lemma listener_serves_nobody:
  "listener_on_accept P None socket l =
     (Some (new_session socket, snd (pf_close P socket)), l\<lparr>ls_accepting := True\<rparr>)"
  by (simp add: listener_on_accept_def session_run_def new_session_def listener_do_accept_def)

end
