(* ===== verification/Config_Types.thy ===== *)
theory Config_Types
  imports Config_Frame Json_Config
begin

text \<open>
  The types of configurations: what holds of every configuration that came from the wire
  (\<open>parsePmuConfig\<close>, \<open>parseConfig1\<close> in \<open>src/pmu/c37118.cpp\<close>) and of every configuration that came from a
  JSON document (\<open>loadPmuConfigJson\<close>, \<open>loadConfigJson\<close> in \<open>src/pmu/configure.cpp\<close>), whatever the bytes or the
  document.  The generators index the vectors of units with the counts, so \<open>wf_pmu\<close> is what they need; the
  sections show where a configuration has it and when it can be sent.
\<close>

section \<open>Configurations from the wire\<close>

text \<open>Names of exactly sixteen bytes, phasor factors of 24 bits, analog factors of 24 bits with a sign.  Nothing
  is required of the unit types: the parser takes any byte for one.\<close>

definition wire_name :: "string \<Rightarrow> bool" where
  "wire_name s \<longleftrightarrow> length s = 16"

definition wire_phasor :: "PhasorType \<times> u32 \<Rightarrow> bool" where
  "wire_phasor u \<longleftrightarrow> uint (snd u) < 2 ^ 24"

definition wire_analog :: "AnalogType \<times> u32 \<Rightarrow> bool" where
  "wire_analog u \<longleftrightarrow> - (2 ^ 23) \<le> sint (snd u) \<and> sint (snd u) < 2 ^ 23"

definition wire_pmu :: "PmuConfig \<Rightarrow> bool" where
  "wire_pmu c \<longleftrightarrow> wf_pmu c \<and> wire_name (pc_stationName c) \<and>
     list_all wire_name (pc_phasorNames c) \<and> list_all wire_name (pc_analogNames c) \<and>
     list_all wire_name (pc_digitChannelNames c) \<and>
     list_all wire_phasor (phasor_units c) \<and> list_all wire_analog (analog_units c)"

definition wire_config :: "Config \<Rightarrow> bool" where
  "wire_config c \<longleftrightarrow> uint (cfg_timeBase c) < 2 ^ 24 \<and> length (cfg_pmus c) < 2 ^ 16 \<and>
     list_all wire_pmu (cfg_pmus c)"

lemma rd_bytes_length: "rd_bytes b off n = Some bs \<Longrightarrow> length bs = n"
  by (auto simp: rd_bytes_def split: if_splits)

lemma take_bit_of_be24: "take_bit 24 (of_be24 x y z) = of_be24 x y z"
proof -
  let ?w = "of_be24 x y z"
  have "[ucast (drop_bit 16 ?w), ucast (drop_bit 8 ?w), ucast ?w] = [x, y, z]"
    using be24_of_be24[of x y z] by (simp add: be24_def)
  then show ?thesis using of_be24_be24[of ?w] by simp
qed

lemma of_be24_bound: "uint (of_be24 x y z) < 2 ^ 24"
proof -
  have "uint (of_be24 x y z) = take_bit 24 (uint (of_be24 x y z))"
    using arg_cong[OF take_bit_of_be24[of x y z], of uint] by (simp add: unsigned_take_bit_eq)
  also have "\<dots> < 2 ^ 24" by (rule take_bit_int_less_exp)
  finally show ?thesis .
qed

lemma interpret24bit_range:
  "- (2 ^ 23) \<le> sint (interpret24bitAsInt32 w)" "sint (interpret24bitAsInt32 w) < 2 ^ 23"
proof -
  have "sint (interpret24bitAsInt32 w) = signed_take_bit 23 (sint w)"
    unfolding interpret24bit_eq by (rule bit_eqI) (auto simp: bit_simps min_def)
  then show "- (2 ^ 23) \<le> sint (interpret24bitAsInt32 w)" "sint (interpret24bitAsInt32 w) < 2 ^ 23"
    using signed_take_bit_int_greater_eq_minus_exp[of 23 "sint w"] signed_take_bit_int_less_exp[of 23 "sint w"]
    by simp_all
qed

lemma rd_field_typed:
  "rd_name b i = Some (s, j) \<Longrightarrow> wire_name s"
  "rd_phasor_unit b i = Some (p, j) \<Longrightarrow> wire_phasor p"
  "rd_analog_unit b i = Some (a, j) \<Longrightarrow> wire_analog a"
  using interpret24bit_range
  by (auto simp: rd_name_def rd_phasor_unit_def rd_analog_unit_def wire_name_def wire_phasor_def wire_analog_def
      dest: rd_bytes_length intro: of_be24_bound[simplified] split: Option.bind_splits)

lemma rd_each_typed:
  assumes "rd_each rd n b off = Some (xs, off')" "\<And>i x j. rd b i = Some (x, j) \<Longrightarrow> P x"
  shows "length xs = n \<and> list_all P xs"
  using assms(1)
proof (induction n arbitrary: off xs)
  case (Suc n)
  then obtain x i xs' where "rd b off = Some (x, i)" "rd_each rd n b i = Some (xs', off')" "xs = x # xs'"
    by (auto split: Option.bind_splits)
  with Suc.IH assms(2) show ?case by simp
qed simp

lemma rd_each_exact:
  assumes "rd_each rd n b off = Some (xs, off')" "\<And>i x j. rd b i = Some (x, j) \<Longrightarrow> j = i + k"
  shows "off' = off + k * n"
  using assms(1)
proof (induction n arbitrary: off xs)
  case (Suc n)
  then obtain x i xs' where "rd b off = Some (x, i)" "rd_each rd n b i = Some (xs', off')"
    by (auto split: Option.bind_splits)
  with Suc.IH[of i xs'] assms(2)[of off x i] show ?case by simp
qed simp

lemma exact_runs:
  "rd_each rd_name n b i = Some (ns, j) \<Longrightarrow> j = i + 16 * n"
  "rd_each rd_phasor_unit n b i = Some (ps, j) \<Longrightarrow> j = i + 4 * n"
  "rd_each rd_analog_unit n b i = Some (as, j) \<Longrightarrow> j = i + 4 * n"
  "rd_each rd_digital_unit n b i = Some (ds, j) \<Longrightarrow> j = i + 4 * n"
  by (erule rd_each_exact; erule field_off)+

lemma typed_runs:
  "rd_each rd_name n b i = Some (ns, j) \<Longrightarrow> length ns = n \<and> list_all wire_name ns"
  "rd_each rd_phasor_unit n b i = Some (ps, j) \<Longrightarrow> length ps = n \<and> list_all wire_phasor ps"
  "rd_each rd_analog_unit n b i = Some (as, j) \<Longrightarrow> length as = n \<and> list_all wire_analog as"
  "rd_each rd_digital_unit n b i = Some (ds, j) \<Longrightarrow> length ds = n \<and> list_all (\<lambda>_. True) ds"
  by (erule rd_each_typed; auto dest: rd_field_typed)+

lemma nominal_update_if:
  "(if b then c\<lparr>pc_nominalFrequency := f\<rparr> else c) =
     c\<lparr>pc_nominalFrequency := if b then f else pc_nominalFrequency c\<rparr>"
  by simp

lemma parsePmuConfig_typed:
  assumes "parsePmuConfig b base old = Some (c, n)"
  shows "wire_pmu c"
proof -
  from assms obtain stn i0 pn i1 an i2 dn i3 pu i4 au i5 du i6 i7 np na nd where
    "rd_name b base = Some (stn, i0)" "rd_each rd_name (unat np) b i7 = Some (pn, i1)"
    "rd_each rd_name (unat na) b i1 = Some (an, i2)" "rd_each rd_name (unat nd * 16) b i2 = Some (dn, i3)"
    "rd_each rd_phasor_unit (unat np) b i3 = Some (pu, i4)"
    "rd_each rd_analog_unit (unat na) b i4 = Some (au, i5)"
    "rd_each rd_digital_unit (unat nd) b i5 = Some (du, i6)"
    and c: "pc_stationName c = stn" "pc_phasorCount c = np" "pc_analogCount c = na" "pc_digitalWordCount c = nd"
    "pc_phasorNames c = pn" "pc_analogNames c = an" "pc_digitChannelNames c = dn"
    "pc_phasorType c = map fst pu" "pc_phasorConversion c = map snd pu"
    "pc_analogType c = map fst au" "pc_analogConversion c = map snd au"
    "pc_digitalNominal c = map fst du" "pc_digitalActive c = map snd du"
    unfolding parsePmuConfig_def Let_def nominal_update_if
    by (auto simp: bind_eq_Some_conv)
  then show ?thesis
    by (auto simp: wire_pmu_def wf_pmu_def c zip_map_fst_snd dest!: typed_runs rd_field_typed(1))
qed

text \<open>The number of bytes a block takes is the one its counts announce.\<close>

lemma parsePmuConfig_size:
  assumes "parsePmuConfig b base old = Some (c, n)"
  shows "n = pmu_size c"
  using assms unfolding parsePmuConfig_def Let_def nominal_update_if
  by (auto simp: bind_eq_Some_conv pmu_size_def dest!: exact_runs field_off(1))

lemma parse_pmus_size: "parse_pmus b off olds = Some (ps, off') \<Longrightarrow> off' = off + pmus_size ps"
proof (induction olds arbitrary: off ps)
  case (Cons p olds)
  then obtain c n ps' where "parsePmuConfig b off p = Some (c, n)" "parse_pmus b (off + n) olds = Some (ps', off')"
      "ps = c # ps'"
    by (auto split: Option.bind_splits)
  with Cons.IH[of "off + n" ps'] parsePmuConfig_size[of b off p c n] show ?case by simp
qed simp

lemma parse_pmus_typed: "parse_pmus b off olds = Some (ps, off') \<Longrightarrow> length ps = length olds \<and> list_all wire_pmu ps"
proof (induction olds arbitrary: off ps)
  case (Cons p olds)
  then obtain c n ps' where "parsePmuConfig b off p = Some (c, n)" "parse_pmus b (off + n) olds = Some (ps', off')"
      "ps = c # ps'"
    by (auto split: Option.bind_splits)
  with Cons.IH[of "off + n" ps'] parsePmuConfig_typed[of b off p c n] show ?case by simp
qed simp

text \<open>A configuration typed this way is what its own frame parses to.\<close>

lemma canon_name_id: "wire_name s \<Longrightarrow> canon_name s = s"
  by (simp add: wire_name_def canon_name_def)

lemma signed_take_bit_id:
  fixes w :: u32
  assumes "- (2 ^ 23) \<le> sint w" "sint w < 2 ^ 23"
  shows "signed_take_bit 23 w = w"
proof -
  have "sint (signed_take_bit 23 w) = signed_take_bit 23 (sint w)"
    by (rule bit_eqI) (auto simp: bit_simps min_def)
  also have "\<dots> = sint w"
    using assms by (simp add: signed_take_bit_int_eq_self_iff)
  finally show ?thesis by (simp add: signed_word_eqI)
qed

lemma take_bit_id:
  fixes w :: u32
  assumes "uint w < 2 ^ 24"
  shows "take_bit 24 w = w"
proof -
  have "uint (take_bit 24 w) = uint w"
    using assms by (simp add: unsigned_take_bit_eq take_bit_int_eq_self_iff)
  then show ?thesis by (rule unsigned_word_eqI)
qed

lemma f32_eq_50: "f32_eq x f32_50 \<longleftrightarrow> x = f32_50"
proof
  have fifty: "f32_mag f32_50 = 1112014848" "\<not> f32_sign f32_50" by (simp_all add: f32_mag_def f32_sign_def)
  assume "f32_eq x f32_50"
  then have "f32_sign x = f32_sign f32_50" "f32_mag x = f32_mag f32_50"
    using fifty by (auto simp: f32_eq_def f32_key_def split: if_splits)
  then have "f32_mk (f32_sign x) (f32_mag x) = f32_mk (f32_sign f32_50) (f32_mag f32_50)" by (simp only:)
  then show "x = f32_50" by (simp only: f32_mk_id)
next
  have "f32_eq f32_50 f32_50" by (simp add: fp_eval)
  moreover assume "x = f32_50"
  ultimately show "f32_eq x f32_50" by (simp only:)
qed

lemma units_typed:
  assumes "list_all P (zip ts cs)" "length ts = length cs" "\<And>t c. P (t, c) \<Longrightarrow> g c = c"
  shows "map g cs = cs"
  using assms(2,1,3) by (induction ts cs rule: list_induct2) auto

text \<open>The datatypes of unit types have a constructor for the bytes that are no enumerator; what a parser makes of a byte
  is the enumerator if there is one, so a code is read back as the type it was written for.\<close>

definition decoded_types :: "PmuConfig \<Rightarrow> bool" where
  "decoded_types c \<longleftrightarrow> pc_phasorType c = map (\<lambda>t. phasor_type_of (phasor_type_code t)) (pc_phasorType c) \<and>
     pc_analogType c = map (\<lambda>t. analog_type_of (analog_type_code t)) (pc_analogType c)"

lemma rd_each_decoded:
  "rd_each rd_phasor_unit n b i = Some (ps, j) \<Longrightarrow>
     map (\<lambda>t. phasor_type_of (phasor_type_code t)) (map fst ps) = map fst ps"
  "rd_each rd_analog_unit n b i = Some (as, j) \<Longrightarrow>
     map (\<lambda>t. analog_type_of (analog_type_code t)) (map fst as) = map fst as"
proof -
  assume "rd_each rd_phasor_unit n b i = Some (ps, j)"
  then have "list_all (\<lambda>u. phasor_type_of (phasor_type_code (fst u)) = fst u) ps"
    by (auto dest!: rd_each_typed[where P = "\<lambda>u. phasor_type_of (phasor_type_code (fst u)) = fst u"]
        simp: rd_phasor_unit_def split: Option.bind_splits)
  then show "map (\<lambda>t. phasor_type_of (phasor_type_code t)) (map fst ps) = map fst ps"
    by (simp add: list_all_iff)
next
  assume "rd_each rd_analog_unit n b i = Some (as, j)"
  then have "list_all (\<lambda>u. analog_type_of (analog_type_code (fst u)) = fst u) as"
    by (auto dest!: rd_each_typed[where P = "\<lambda>u. analog_type_of (analog_type_code (fst u)) = fst u"]
        simp: rd_analog_unit_def split: Option.bind_splits)
  then show "map (\<lambda>t. analog_type_of (analog_type_code t)) (map fst as) = map fst as"
    by (simp add: list_all_iff)
qed

lemma canon_pmu_typed:
  assumes "wire_pmu c" "decoded_types c"
  shows "canon_pmu old c = c\<lparr>pc_nominalFrequency :=
      (if pc_nominalFrequency c = f32_50 then f32_50 else pc_nominalFrequency old),
    pc_pmuClass := pc_pmuClass old, pc_lat := pc_lat old, pc_lon := pc_lon old, pc_elev := pc_elev old,
    pc_active := pc_active old, pc_window := pc_window old, pc_grpDelay := pc_grpDelay old\<rparr>"
proof -
  have "map canon_name ns = ns" if "list_all wire_name ns" for ns
    using that by (simp add: list_all_iff canon_name_id map_idI)
  moreover have "map (take_bit 24) (pc_phasorConversion c) = pc_phasorConversion c"
    using assms units_typed[of wire_phasor "pc_phasorType c" "pc_phasorConversion c" "take_bit 24"]
    by (simp add: wire_pmu_def wf_pmu_def wire_phasor_def take_bit_id)
  moreover have "map (signed_take_bit 23) (pc_analogConversion c) = pc_analogConversion c"
    using assms units_typed[of wire_analog "pc_analogType c" "pc_analogConversion c" "signed_take_bit 23"]
    by (simp add: wire_pmu_def wf_pmu_def wire_analog_def signed_take_bit_id)
  moreover have "f32_eq (pc_nominalFrequency c) f32_50 \<longleftrightarrow> pc_nominalFrequency c = f32_50"
    using f32_eq_50 by blast
  ultimately show ?thesis
    using assms by (cases old; cases c) (simp add: canon_pmu_def wire_pmu_def canon_name_id decoded_types_def)
qed

text \<open>A parse onto another configuration gives the same, but for what the frame does not carry and the nominal
  frequency, which the parser sets to 50 Hz or not at all.\<close>

lemma parsePmuConfig_decoded: "parsePmuConfig b base old = Some (c, n) \<Longrightarrow> decoded_types c"
  unfolding parsePmuConfig_def Let_def nominal_update_if decoded_types_def
  by (auto simp: bind_eq_Some_conv dest!: rd_each_decoded)

lemma parsePmuConfig_other:
  assumes "parsePmuConfig b base old = Some (c, n)" "pc_nominalFrequency old = f32_60"
  shows "parsePmuConfig b base old2 = Some (canon_pmu old2 c, n)"
proof -
  from assms(1) obtain stn i0 sid fmt pn i1 an i2 dn i3 pu i4 au i5 du i6 np na nd nom chg where
    reads: "rd_name b base = Some (stn, i0)" "load16 b i0 = Some sid" "load16 b (i0 + 2) = Some fmt"
    "rd_u16 b (i0 + 4) = Some np" "rd_u16 b (i0 + 6) = Some na" "rd_u16 b (i0 + 8) = Some nd"
    "rd_each rd_name (unat np) b (i0 + 10) = Some (pn, i1)"
    "rd_each rd_name (unat na) b i1 = Some (an, i2)" "rd_each rd_name (unat nd * 16) b i2 = Some (dn, i3)"
    "rd_each rd_phasor_unit (unat np) b i3 = Some (pu, i4)"
    "rd_each rd_analog_unit (unat na) b i4 = Some (au, i5)"
    "rd_each rd_digital_unit (unat nd) b i5 = Some (du, i6)"
    "rd8 b (i6 + 1) = Some nom" "rd_u16 b (i6 + 2) = Some chg" "n = i6 + 4 - base"
    and c: "c = old\<lparr>pc_stationName := stn, pc_sourceID := ntohs sid,
       pc_freqFormat := (if ntohs fmt AND 8 = 0 then integer_format else floating_point_format),
       pc_analogFormat := (if ntohs fmt AND 4 = 0 then integer_format else floating_point_format),
       pc_phasorFormat := (if ntohs fmt AND 2 = 0 then integer_format else floating_point_format),
       pc_phasorCoordinates := (if ntohs fmt AND 1 = 0 then rectangular_phasor else polar_phasor),
       pc_phasorCount := np, pc_analogCount := na, pc_digitalWordCount := nd,
       pc_phasorNames := pn, pc_analogNames := an, pc_digitChannelNames := dn,
       pc_phasorType := map fst pu, pc_phasorConversion := map snd pu,
       pc_analogType := map fst au, pc_analogConversion := map snd au,
       pc_digitalNominal := map fst du, pc_digitalActive := map snd du,
       pc_nominalFrequency := (if nom = 1 then f32_50 else pc_nominalFrequency old), pc_changeCount := chg\<rparr>"
    unfolding parsePmuConfig_def Let_def nominal_update_if
    by (auto simp: bind_eq_Some_conv add.assoc simp del: add_2_eq_Suc add_2_eq_Suc' cong: if_cong)
  have "parsePmuConfig b base old2 = Some (c\<lparr>pc_nominalFrequency :=
      (if nom = 1 then f32_50 else pc_nominalFrequency old2),
    pc_pmuClass := pc_pmuClass old2, pc_lat := pc_lat old2, pc_lon := pc_lon old2, pc_elev := pc_elev old2,
    pc_active := pc_active old2, pc_window := pc_window old2, pc_grpDelay := pc_grpDelay old2\<rparr>, n)"
    unfolding parsePmuConfig_def Let_def nominal_update_if c
    using reads by (simp add: add.assoc del: add_2_eq_Suc add_2_eq_Suc' cong: if_cong)
  moreover have "nom = 1 \<longleftrightarrow> pc_nominalFrequency c = f32_50" using assms(2) by (simp add: c)
  ultimately show ?thesis
    using canon_pmu_typed[OF parsePmuConfig_typed[OF assms(1)] parsePmuConfig_decoded[OF assms(1)]] by simp
qed

lemma parse_pmus_other:
  assumes "parse_pmus b off olds = Some (ps, off')" "list_all (\<lambda>p. pc_nominalFrequency p = f32_60) olds"
    and "length olds2 = length olds"
  shows "parse_pmus b off olds2 = Some (map2 canon_pmu olds2 ps, off')"
  using assms
proof (induction olds arbitrary: off ps olds2)
  case (Cons p olds)
  then obtain c n ps' where "parsePmuConfig b off p = Some (c, n)" "parse_pmus b (off + n) olds = Some (ps', off')"
      "ps = c # ps'"
    by (auto split: Option.bind_splits)
  moreover obtain q qs where "olds2 = q # qs" "length qs = length olds" using Cons.prems(3) by (cases olds2) simp_all
  ultimately show ?case
    using Cons.IH[of "off + n" ps' qs] Cons.prems(2) parsePmuConfig_other[of b off p c n q] by simp
qed simp

lemma parseConfig1_other:
  assumes "parseConfig1 b dataSize old = Some (parse_complete, c)" "all_60 old"
  shows "parseConfig1 b dataSize old2 = Some (parse_complete, canon_config old2 c)"
proof -
  from assms(1) obtain g cnt ps off x y z r where
    g: "parseCommon b dataSize fresh_frame = Some (parse_complete, g)" "cf_type g = Pkt_config1 \<or> cf_type g = Pkt_config2"
    "rd8 b 15 = Some x" "rd8 b 16 = Some y" "rd8 b 17 = Some z" "rd_u16 b 18 = Some cnt" "rd_u16 b off = Some r"
    and ps: "parse_pmus b 20 (resize (unat cnt) default_PmuConfig (cfg_pmus old)) = Some (ps, off)"
    and c: "c = old\<lparr>cfg_idcode := cf_sourceID g, cfg_fracsec := cf_fracSec g, cfg_soc := cf_soc g,
      cfg_timeBase := of_be24 x y z, cfg_pmus := ps, cfg_dataRate := r\<rparr>"
    unfolding parseConfig1_def Let_def by (auto split: Option.bind_splits if_splits)
  have len: "length (resize (unat cnt) default_PmuConfig (cfg_pmus old)) = unat cnt" by (simp add: resize_def)
  then have n: "length ps = unat cnt" using parse_pmus_typed[OF ps] by simp
  have "parse_pmus b 20 (resize (unat cnt) default_PmuConfig (cfg_pmus old2)) =
      Some (map2 canon_pmu (resize (unat cnt) default_PmuConfig (cfg_pmus old2)) ps, off)"
    using parse_pmus_other[OF ps resize_60[OF assms(2)]] len by (simp add: resize_def)
  moreover have "take_bit 24 (of_be24 x y z) = of_be24 x y z" by (rule take_bit_of_be24)
  ultimately show ?thesis
    using g n by (cases old2) (auto simp: parseConfig1_def Let_def c canon_config_def)
qed

lemma parseConfig1_typed:
  assumes "parseConfig1 b dataSize old = Some (parse_complete, c)"
  shows "wire_config c" "22 + pmus_size (cfg_pmus c) \<le> length b"
proof -
  from assms obtain cnt ps off x y z r where
    ps: "parse_pmus b 20 (resize (unat (cnt :: u16)) default_PmuConfig (cfg_pmus old)) = Some (ps, off)"
    and r: "rd_u16 b off = Some r" and c: "cfg_pmus c = ps" "cfg_timeBase c = of_be24 x y z"
    unfolding parseConfig1_def Let_def by (auto split: Option.bind_splits if_splits)
  have "length (resize (unat cnt) default_PmuConfig (cfg_pmus old)) = unat cnt"
    by (simp add: resize_def)
  moreover have "unat cnt < 2 ^ 16" using unsigned_less[of cnt, where 'a = nat] by simp
  ultimately show "wire_config c"
    using parse_pmus_typed[OF ps] of_be24_bound[of x y z] by (simp add: wire_config_def c)
  show "22 + pmus_size (cfg_pmus c) \<le> length b"
    using rd_u16_bound[OF r] parse_pmus_size[OF ps] by (simp add: c)
qed

text \<open>C3: whatever the bytes, a configuration that a parser accepts is well typed: every vector has the length
  its count announces, every name has sixteen bytes, every factor and the time base fit the 24 bits of the wire;
  and all its channels together take no more bytes than the buffer has.  In particular no generator indexes a vector
  of a received configuration behind its end.  The unit types are not checked: any byte is accepted for one.\<close>

theorem parsed_config_typed:
  assumes "parseConfig1 b dataSize old = Some (parse_complete, c)"
  shows "wire_config c \<and> 22 + pmus_size (cfg_pmus c) \<le> length b"
  using parseConfig1_typed[OF assms] by simp

theorem parsed_config_typed_witness:
  "\<exists>b c. parseConfig1 b 80 default_Config = Some (parse_complete, c) \<and> cfg_pmus c \<noteq> [] \<and> wire_config c"
proof -
  obtain b where b: "parseConfig1 b 80 default_Config =
      Some (parse_complete, canon_config default_Config (sample_config True f32_60))"
    using config1_roundtrip_ex[OF sample_fits, of True f32_60 default_Config] by auto
  moreover have "cfg_pmus (canon_config default_Config (sample_config True f32_60)) \<noteq> []"
    by (simp add: canon_config_def resize_def default_Config_def)
  ultimately show ?thesis
    using parsed_config_typed[OF b] by blast
qed



section \<open>Configurations from JSON\<close>

text \<open>The vectors of units and names agree, sixteen names to a digital word, and the counts are their lengths in
  sixteen bits.\<close>

definition loaded_pmu :: "PmuConfig \<Rightarrow> bool" where
  "loaded_pmu c \<longleftrightarrow>
     length (pc_phasorType c) = length (pc_phasorNames c) \<and>
     length (pc_phasorConversion c) = length (pc_phasorNames c) \<and>
     length (pc_analogType c) = length (pc_analogNames c) \<and>
     length (pc_analogConversion c) = length (pc_analogNames c) \<and>
     length (pc_digitChannelNames c) = 16 * length (pc_digitalNominal c) \<and>
     length (pc_digitalActive c) = length (pc_digitalNominal c)"

definition phasors_counted :: "PmuConfig \<Rightarrow> bool" where
  "phasors_counted c \<longleftrightarrow> pc_phasorCount c = of_nat (length (pc_phasorNames c))"

definition analogs_counted :: "PmuConfig \<Rightarrow> bool" where
  "analogs_counted c \<longleftrightarrow> pc_analogCount c = of_nat (length (pc_analogNames c))"

definition digitals_counted :: "PmuConfig \<Rightarrow> bool" where
  "digitals_counted c \<longleftrightarrow> pc_digitalWordCount c = of_nat (length (pc_digitalNominal c))"

definition counted_pmu :: "PmuConfig \<Rightarrow> bool" where
  "counted_pmu c \<longleftrightarrow> loaded_pmu c \<and> phasors_counted c \<and> analogs_counted c \<and> digitals_counted c"

lemmas loaded_defs = loaded_pmu_def phasors_counted_def analogs_counted_def digitals_counted_def counted_pmu_def

lemma if_eq_Inr: "(if c then m else n) = Inr y \<longleftrightarrow> c \<and> m = Inr y \<or> \<not> c \<and> n = Inr y"
  by simp

lemma each_of_inv:
  assumes "each_of J f jv key s = Inr s'" "P s" "\<And>x s s'. f x s = Inr s' \<Longrightarrow> P s \<Longrightarrow> P s'"
  shows "P s'"
  using assms attempt_fold_inv[of f _ s s' P] by (auto simp: each_of_def attempt_eq_Inr split: if_splits)

text \<open>Each kind of channel keeps the vectors in step and the counts of the others right.\<close>

lemma fold_inv: "P q \<Longrightarrow> (\<And>n q. P q \<Longrightarrow> P (f n q)) \<Longrightarrow> P (fold f ns q)"
  by (induction ns arbitrary: q) simp_all

lemma insertPhasorConfig_typed:
  assumes "insertPhasorConfig J x p = Inr p'" "loaded_pmu p \<and> analogs_counted p \<and> digitals_counted p"
  shows "loaded_pmu p' \<and> analogs_counted p' \<and> digitals_counted p'"
proof -
  from assms obtain t scale ns where "p' = fold (add_phasor t scale) ns p"
    by (auto simp: insertPhasorConfig_def attempt_eq_Inr)
  moreover have "loaded_pmu (fold (add_phasor t scale) ns p) \<and> analogs_counted (fold (add_phasor t scale) ns p) \<and>
      digitals_counted (fold (add_phasor t scale) ns p)"
    using assms(2) by (rule fold_inv) (simp add: add_phasor_def loaded_defs)
  ultimately show ?thesis by simp
qed

lemma insertAnalogConfig_typed:
  assumes "insertAnalogConfig J x p = Inr p'" "loaded_pmu p \<and> phasors_counted p \<and> digitals_counted p"
  shows "loaded_pmu p' \<and> phasors_counted p' \<and> digitals_counted p'"
proof -
  from assms obtain t scale ns where "p' = fold (add_analog t scale) ns p"
    by (auto simp: insertAnalogConfig_def attempt_eq_Inr)
  moreover have "loaded_pmu (fold (add_analog t scale) ns p) \<and> phasors_counted (fold (add_analog t scale) ns p) \<and>
      digitals_counted (fold (add_analog t scale) ns p)"
    using assms(2) by (rule fold_inv) (simp add: add_analog_def loaded_defs)
  ultimately show ?thesis by simp
qed

lemma digital_names_adds:
  assumes "attempt_fold (\<lambda>jj pmu. attempt (g jj) (\<lambda>s. Inr (pmu\<lparr>pc_digitChannelNames := pc_digitChannelNames pmu @ [s]\<rparr>)))
      js p = Inr p'"
  shows "\<exists>ns. length ns = length js \<and> p' = p\<lparr>pc_digitChannelNames := pc_digitChannelNames p @ ns\<rparr>"
  using assms
proof (induction js arbitrary: p)
  case Nil
  then show ?case by (intro exI[of _ "[]"]) simp
next
  case (Cons j js)
  then obtain s where "attempt_fold (\<lambda>jj pmu. attempt (g jj) (\<lambda>s. Inr (pmu\<lparr>pc_digitChannelNames :=
      pc_digitChannelNames pmu @ [s]\<rparr>))) js (p\<lparr>pc_digitChannelNames := pc_digitChannelNames p @ [s]\<rparr>) = Inr p'"
    by (auto simp: attempt_eq_Inr)
  from Cons.IH[OF this] obtain ns where "length ns = length js"
      "p' = p\<lparr>pc_digitChannelNames := pc_digitChannelNames p @ s # ns\<rparr>" by auto
  then show ?case by (intro exI[of _ "s # ns"]) simp
qed

lemma insertDigitalConfig_typed:
  assumes "insertDigitalConfig J x s = Inr s'"
    and "loaded_pmu (fst s) \<and> phasors_counted (fst s) \<and> analogs_counted (fst s)"
  shows "loaded_pmu (fst s') \<and> phasors_counted (fst s') \<and> analogs_counted (fst s')"
proof -
  obtain p cnt where s: "s = (p, cnt)" by (cases s)
  from assms(1) consider "fst s' = p"
    | nm q a n where "digital_names J nm p = Inr q"
        "fst s' = q\<lparr>pc_digitalActive := pc_digitalActive q @ [a], pc_digitalNominal := pc_digitalNominal q @ [n]\<rparr>"
    unfolding insertDigitalConfig_def s Let_def
    by (simp only: attempt_eq_Inr if_eq_Inr split_def fst_conv snd_conv sum.inject) (elim exE conjE disjE; force)
  then show ?thesis
  proof cases
    case 1
    with assms(2) show ?thesis by (simp add: s)
  next
    case 2
    from digital_names_adds[OF 2(1)[unfolded digital_names_def]]
    obtain ns where "length ns = 16" "q = p\<lparr>pc_digitChannelNames := pc_digitChannelNames p @ ns\<rparr>" by auto
    with assms(2) show ?thesis by (simp add: s 2(2) loaded_defs)
  qed
qed

lemma load_phasors_typed:
  assumes "load_phasors J jv p = Inr p'" "counted_pmu p"
  shows "counted_pmu p'"
proof -
  from assms(1) consider "p' = p" | q where "each_of J (insertPhasorConfig J) jv ''phasor'' p = Inr q"
      "p' = q\<lparr>pc_phasorCount := of_nat (length (pc_phasorNames q))\<rparr>"
    by (auto simp: load_phasors_def attempt_eq_Inr split: if_splits)
  then show ?thesis
  proof cases
    case 2
    have "loaded_pmu q \<and> analogs_counted q \<and> digitals_counted q"
      by (rule each_of_inv[OF 2(1)], use assms(2) in \<open>simp add: counted_pmu_def\<close>) (rule insertPhasorConfig_typed)
    with 2(2) show ?thesis by (simp add: loaded_defs)
  qed (use assms(2) in simp)
qed

lemma load_analogs_typed:
  assumes "load_analogs J jv p = Inr p'" "counted_pmu p"
  shows "counted_pmu p'"
proof -
  from assms(1) consider "p' = p" | q where "each_of J (insertAnalogConfig J) jv ''analog'' p = Inr q"
      "p' = q\<lparr>pc_analogCount := of_nat (length (pc_analogNames q))\<rparr>"
    by (auto simp: load_analogs_def attempt_eq_Inr split: if_splits)
  then show ?thesis
  proof cases
    case 2
    have "loaded_pmu q \<and> phasors_counted q \<and> digitals_counted q"
      by (rule each_of_inv[OF 2(1)], use assms(2) in \<open>simp add: counted_pmu_def\<close>) (rule insertAnalogConfig_typed)
    with 2(2) show ?thesis by (simp add: loaded_defs)
  qed (use assms(2) in simp)
qed

lemma load_digitals_typed:
  assumes "load_digitals J jv p = Inr p'" "counted_pmu p"
  shows "counted_pmu p'"
proof -
  from assms(1) consider "p' = p" | s where "each_of J (insertDigitalConfig J) jv ''digital'' (p, 0) = Inr s"
      "p' = (fst s)\<lparr>pc_digitalWordCount := of_nat (length (pc_digitalNominal (fst s)))\<rparr>"
    by (auto simp: load_digitals_def attempt_eq_Inr split: if_splits)
  then show ?thesis
  proof cases
    case 2
    have "loaded_pmu (fst s) \<and> phasors_counted (fst s) \<and> analogs_counted (fst s)"
      by (rule each_of_inv[OF 2(1)], use assms(2) in \<open>simp add: counted_pmu_def\<close>) (rule insertDigitalConfig_typed)
    with 2(2) show ?thesis by (simp add: loaded_defs)
  qed (use assms(2) in simp)
qed

lemma load_stages:
  assumes "loadPmuConfigJson J jv = Inr p"
  shows "\<exists>p0 p1 p2. load_phasors J jv p0 = Inr p1 \<and> load_analogs J jv p1 = Inr p2 \<and>
    load_digitals J jv p2 = Inr p \<and> counted_pmu p0"
  using assms
  by (simp only: loadPmuConfigJson_def Let_def attempt_eq_Inr)
    (elim exE conjE, intro exI conjI, assumption, assumption, assumption,
      simp (no_asm) add: loaded_defs default_PmuConfig_def)

lemma loadPmuConfigJson_typed: "loadPmuConfigJson J jv = Inr p \<Longrightarrow> counted_pmu p"
  by (drule load_stages) (elim exE conjE, rule load_digitals_typed, assumption, rule load_analogs_typed, assumption,
      rule load_phasors_typed)

lemma pmu_loop_typed:
  assumes "attempt_fold (\<lambda>x c. attempt (loadPmuConfigJson J x) (\<lambda>p. Inr (c\<lparr>cfg_pmus := cfg_pmus c @ [p]\<rparr>))) js c0 = Inr c"
    and "cfg_pmus c0 = []"
  shows "list_all counted_pmu (cfg_pmus c)"
  by (rule attempt_fold_inv[OF assms(1)])
    (use assms(2) in \<open>auto simp: attempt_eq_Inr loadPmuConfigJson_typed\<close>)

lemma loadConfigJson_typed:
  assumes "loadConfigJson J jv = Inr c"
  shows "list_all counted_pmu (cfg_pmus c)"
proof -
  have id: "counted_pmu p \<Longrightarrow> counted_pmu (p\<lparr>pc_sourceID := i\<rparr>)" for p i
    by (simp add: loaded_defs)
  have start: "cfg_pmus (default_Config\<lparr>cfg_idcode := i, cfg_dataRate := r, cfg_timeBase := t\<rparr>) = []" for i r t
    by (simp add: default_Config_def)
  have single: "list_all counted_pmu (cfg_pmus (c\<lparr>cfg_pmus := [if b then p\<lparr>pc_sourceID := i\<rparr> else p]\<rparr>))"
    if "counted_pmu p" for c p b i
    using that id by simp
  from assms show ?thesis
    by (simp only: loadConfigJson_def Let_def attempt_eq_Inr if_eq_Inr[where m = "attempt_fold _ _ _"])
      (elim exE conjE disjE, rule pmu_loop_typed, assumption, rule start,
        auto simp only: attempt_eq_Inr dest!: loadPmuConfigJson_typed simp: single)
qed

lemma counted_wf:
  assumes "counted_pmu p" "length (pc_phasorNames p) < 65536" "length (pc_analogNames p) < 65536"
    "length (pc_digitalNominal p) < 65536"
  shows "wf_pmu p"
  using assms by (simp add: loaded_defs wf_pmu_def unat16)

text \<open>C4: whatever the document and whatever the JSON library makes of it, a configuration that loads is well
  typed: in every PMU the names, types and factors of the phasors agree in number, likewise those of the analog
  channels, there are sixteen names for every digital word, and the counts are these numbers in sixteen bits.\<close>

theorem loaded_config_typed:
  assumes "loadConfigJson J jv = Inr c"
  shows "list_all counted_pmu (cfg_pmus c)"
  using assms by (rule loadConfigJson_typed)

text \<open>A document with one PMU of three phasors and one digital word.\<close>

definition sample_phasor :: sample_value where
  "sample_phasor = SObject [(''name'', SString ''V''), (''count'', SInt 3), (''scale'', SInt 915527)]"

definition sample_digital :: sample_value where
  "sample_digital = SObject [(''name'', SString ''D''), (''count'', SInt 16)]"

definition sample_station :: sample_value where
  "sample_station = SObject [(''name'', SString ''Station A''), (''phasor'', sample_phasor), (''digital'', sample_digital)]"

definition sample_document :: sample_value where
  "sample_document = SObject [(''idcode'', SInt 7), (''pmu'', sample_station)]"

definition sample_names :: "string list" where
  "sample_names = [''D0'', ''D1'', ''D2'', ''D3'', ''D4'', ''D5'', ''D6'', ''D7'', ''D8'', ''D9'', ''D10'', ''D11'',
     ''D12'', ''D13'', ''D14'', ''D15'']"

definition sample_loaded :: PmuConfig where
  "sample_loaded = default_PmuConfig\<lparr>pc_sourceID := 7, pc_stationName := ''Station A'', pc_phasorFormat := 1,
     pc_analogFormat := 1, pc_freqFormat := 1, pc_phasorCount := 3, pc_digitalWordCount := 1,
     pc_phasorNames := [''V-A'', ''V-B'', ''V-C''], pc_phasorType := replicate 3 PhT_voltage,
     pc_phasorConversion := replicate 3 915527, pc_digitChannelNames := sample_names,
     pc_digitalNominal := [0xFF], pc_digitalActive := [0xFF]\<rparr>"

lemmas sample_eval = replace_int_def replace_string_def replace_float_def replaceIfMember_def getOrDefault_def
  load_id_def load_format_def each_of_def

lemma sample_json_ops [simp]:
  "js_get sample_json = sample_get" "js_isMember sample_json = sample_member"
  "js_asString sample_json = sample_string" "js_asInt sample_json = sample_int"
  "\<not> js_isArray sample_json (SObject kvs)" "\<not> js_isArray sample_json (SString s)"
  by (simp_all add: sample_json_def)

lemma sample_phasor_loads:
  "insertPhasorConfig sample_json sample_phasor p = Inr (fold (add_phasor PhT_voltage 915527) [''V-A'', ''V-B'', ''V-C''] p)"
  by (simp add: insertPhasorConfig_def sample_phasor_def sample_eval phasor_type_json_def phasor_channels_def)

lemma sample_digital_loads:
  "insertDigitalConfig sample_json sample_digital (p, 0) =
     Inr (p\<lparr>pc_digitChannelNames := pc_digitChannelNames p @ sample_names,
       pc_digitalActive := pc_digitalActive p @ [0xFF], pc_digitalNominal := pc_digitalNominal p @ [0xFF]\<rparr>, 16)"
  by (simp add: insertDigitalConfig_def sample_digital_def sample_eval digital_active_def digital_nominal_def
      digital_names_def to_string_def digits.simps char_of_def sample_names_def upt_rec
      bit_0)

lemma sample_station_loads: "loadPmuConfigJson sample_json sample_station = Inr (sample_loaded\<lparr>pc_sourceID := 0\<rparr>)"
proof -
  have obj: "\<not> js_isArray sample_json sample_phasor" "\<not> js_isArray sample_json sample_digital"
    by (simp_all add: sample_phasor_def sample_digital_def)
  show ?thesis
    by (simp add: loadPmuConfigJson_def sample_station_def sample_eval obj load_phasors_def load_analogs_def
        load_digitals_def sample_phasor_loads sample_digital_loads sample_loaded_def add_phasor_def
        default_PmuConfig_def numeral_3_eq_3)
qed

lemma sample_document_loads:
  "loadConfigJson sample_json sample_document = Inr (default_Config\<lparr>cfg_idcode := 7, cfg_pmus := [sample_loaded]\<rparr>)"
proof -
  have "\<not> js_isArray sample_json sample_station" by (simp add: sample_station_def)
  moreover have "sample_loaded\<lparr>pc_sourceID := 7\<rparr> = sample_loaded" by (simp add: sample_loaded_def)
  ultimately show ?thesis
    by (simp add: loadConfigJson_def sample_document_def sample_eval sample_station_loads default_Config_def)
qed

theorem loaded_config_typed_witness:
  "loadConfigJson sample_json sample_document = Inr (default_Config\<lparr>cfg_idcode := 7, cfg_pmus := [sample_loaded]\<rparr>) \<and>
     counted_pmu sample_loaded"
  using loaded_config_typed[OF sample_document_loads] sample_document_loads by simp

text \<open>C6: from the document to the wire: a configuration that loads is sent as frame 1, and a receiver reads it
  back, as soon as no PMU has more than 65535 channels of a kind, the frame can be announced in sixteen bits and the
  buffer holds it and has a size that is at least eighteen modulo 65536 (a buffer of 65536 bytes counts as
  empty).  No other condition on the document is needed.  The receiver gets the configuration in wire
  precision if its previous PMUs have 60 Hz; otherwise those that are not at 50 Hz keep the frequency they had.\<close>

theorem loaded_config_sent:
  assumes "loadConfigJson J jv = Inr c"
    and "\<forall>p \<in> set (cfg_pmus c). length (pc_phasorNames p) < 65536 \<and> length (pc_analogNames p) < 65536 \<and>
      length (pc_digitalNominal p) < 65536"
    and "24 + pmus_size (cfg_pmus c) < 65536" "24 + pmus_size (cfg_pmus c) \<le> dataSize" "dataSize \<le> length b"
    and "18 \<le> unat (of_nat dataSize :: u16)"
  shows "\<exists>b'. generateConfig1 b dataSize c = Some (b', of_nat (24 + pmus_size (cfg_pmus c))) \<and>
    parseConfig1 b' dataSize old = Some (parse_complete, canon_config old c) \<and>
    (all_60 old \<longrightarrow> canon_config old c = received_config old c)"
proof -
  have "list_all wf_pmu (cfg_pmus c)"
    using assms(2) loadConfigJson_typed[OF assms(1)] counted_wf by (simp add: list_all_iff)
  with assms(3-6) have "config_fits c dataSize b" by (simp add: config_fits_def)
  from config1_roundtrip_ex[OF this, of old] show ?thesis using canon_config_received by auto
qed

theorem loaded_config_sent_witness:
  "\<exists>b' c. loadConfigJson sample_json sample_document = Inr c \<and> length (cfg_pmus c) = 1 \<and>
     generateConfig1 (replicate 400 0) 400 c = Some (b', 374) \<and>
     parseConfig1 b' 400 default_Config = Some (parse_complete, received_config default_Config c)"
proof -
  have "all_60 default_Config" by (simp add: all_60_def default_Config_def)
  moreover
  have "pmu_size sample_loaded = 350" "length (pc_phasorNames sample_loaded) = 3"
    "length (pc_analogNames sample_loaded) = 0" "length (pc_digitalNominal sample_loaded) = 1"
    by (simp_all add: sample_loaded_def pmu_size_def default_PmuConfig_def)
  ultimately show ?thesis
    using loaded_config_sent[OF sample_document_loads, of 400 "replicate 400 0" default_Config] sample_document_loads
    by auto
qed

end
