(* ===== verification/Data_Relay.thy ===== *)
theory Data_Relay
  imports Config_Types Time_Codes
begin

text \<open>
  What a relay does to data frames: \<open>parseDataFrame\<close> followed by \<open>generateDataFrame\<close>
  (\<open>src/pmu/c37118.cpp\<close>), as a server that passes on the frames of another device runs them.  The values
  of a frame in floating-point format pass unchanged; its fraction of second, a quotient that the
  generator multiplies and truncates again, may lose one tick.
\<close>

section \<open>The fraction of second\<close>

lemma quotient_bounds:
  assumes "0 \<le> t" "t < 2 ^ 24" "0 < tb" "tb < 2 ^ 24"
  shows "\<exists>M E. f64_val (f64_div (f64_of_int t) (f64_of_int tb)) = Fin_val False M E \<and>
    real M * 2 powi E \<le> real_of_int t / real_of_int tb + 1 / 2 ^ 28 \<and>
    (0 < t \<longrightarrow> real_of_int t / real_of_int tb - 1 / 2 ^ 28 \<le> real M * 2 powi E)"
proof -
  obtain M1 E1 where a: "f64_val (f64_of_int t) = Fin_val False M1 E1" "real M1 * 2 powi E1 = real_of_int t"
    using nonneg_int_val[of t] assms by auto
  obtain M2 E2 where b: "f64_val (f64_of_int tb) = Fin_val False M2 E2" "real M2 * 2 powi E2 = real_of_int tb"
    using nonneg_int_val[of tb] assms by auto
  have "0 < M2" using b(2) assms(3) by (cases M2) simp_all
  define r where "r = real_of_int t / real_of_int tb"
  have v: "real M1 / real M2 * 2 powi (E1 - E2) = r"
    by (simp add: r_def power_int_diff flip: a(2) b(2))
  define N where "N = nat (t * 2 ^ 28 div tb)"
  have N: "real N = of_int (t * 2 ^ 28 div tb)" using assms by (simp add: N_def pos_imp_zdiv_nonneg_iff)
  have fl: "of_int (t * 2 ^ 28 div tb) \<le> r * 2 ^ 28" "r * 2 ^ 28 < of_int (t * 2 ^ 28 div tb) + 1"
    using floor_divide_of_int_eq[of "t * 2 ^ 28" tb, where 'a = real] floor_correct[of "real_of_int (t * 2 ^ 28) / real_of_int tb"]
    by (simp_all add: r_def)
  have "t * 2 ^ 28 div tb \<le> t * 2 ^ 28"
    using assms by (metis div_by_1 int_one_le_iff_zero_less mult_nonneg_nonneg zdiv_mono2 zero_le_numeral zero_le_power zero_less_one)
  then have Nb: "N + 1 < 2 ^ 53" using assms by (simp add: N_def)
  have "real M1 / real M2 * 2 powi (E1 - E2) \<le> real (N + 1) * 2 powi (- 28)"
    unfolding v using fl(2) N by (simp add: powi_neg field_simps)
  then obtain M E where m: "f64_val (f64_of_scaled False M1 M2 (E1 - E2)) = Fin_val False M E"
      "real M * 2 powi E \<le> real (N + 1) * 2 powi (- 28)"
    using f64_of_scaled_le[OF \<open>0 < M2\<close>, of M1 "E1 - E2" "N + 1" "- 28"] Nb by auto
  have "real (N + 1) * 2 powi (- 28) \<le> r + 1 / 2 ^ 28"
    using fl(1) N by (simp add: powi_neg field_simps)
  with m(2) have "real M * 2 powi E \<le> r + 1 / 2 ^ 28" by linarith
  moreover have "r - 1 / 2 ^ 28 \<le> real M * 2 powi E" if "0 < t"
  proof -
    have "tb \<le> t * 2 ^ 28" using that assms by simp
    then have "0 < N" using assms(3) by (simp add: N_def pos_imp_zdiv_pos_iff)
    moreover have "real N * 2 powi (- 28) \<le> real M1 / real M2 * 2 powi (E1 - E2)"
      unfolding v using fl(1) N by (simp add: powi_neg field_simps)
    ultimately have "real N * 2 powi (- 28) \<le> real M * 2 powi E"
      using f64_of_scaled_ge[OF \<open>0 < M2\<close>, of N "- 28" M1 "E1 - E2" M E] Nb m(1) by simp
    moreover have "r - 1 / 2 ^ 28 \<le> real N * 2 powi (- 28)"
      using fl(2) N by (simp add: powi_neg field_simps)
    ultimately show ?thesis by linarith
  qed
  ultimately show ?thesis
    using m(1) a(1) b(1) \<open>0 < M2\<close> by (intro exI[of _ M] exI[of _ E]) (simp add: f64_div_def flip: r_def)
qed

lemma relay_ticks:
  assumes "0 \<le> t" "t < 2 ^ 24" "0 < tb" "tb < 2 ^ 24"
  shows "\<exists>z. f64_to_u32 (f64_mul (f64_div (f64_of_int t) (f64_of_int tb)) (f64_of_int tb)) = Some (word_of_int z) \<and>
    0 \<le> z \<and> t - 1 \<le> z \<and> z \<le> t"
proof -
  obtain M E where q: "f64_val (f64_div (f64_of_int t) (f64_of_int tb)) = Fin_val False M E"
      "real M * 2 powi E \<le> real_of_int t / real_of_int tb + 1 / 2 ^ 28"
      "0 < t \<Longrightarrow> real_of_int t / real_of_int tb - 1 / 2 ^ 28 \<le> real M * 2 powi E"
    using quotient_bounds[OF assms] by blast
  obtain M' E' where b: "f64_val (f64_of_int tb) = Fin_val False M' E'" "real M' * 2 powi E' = real_of_int tb"
    using nonneg_int_val[of tb] assms by auto
  have v: "real (M * M') / real 1 * 2 powi (E + E') = (real M * 2 powi E) * real_of_int tb"
    by (simp add: powi_add2 flip: b(2))
  have tb: "0 < real_of_int tb" "real_of_int tb \<le> 2 ^ 24" using assms by simp_all
  have "(real M * 2 powi E) * real_of_int tb \<le> (real_of_int t / real_of_int tb + 1 / 2 ^ 28) * real_of_int tb"
    using q(2) tb by (intro mult_right_mono) simp_all
  also have "\<dots> \<le> real_of_int t + 1 / 16" using tb by (simp add: field_simps)
  also have "\<dots> = real (nat t * 16 + 1) * 2 powi (- 4)" using assms by (simp add: powi_neg field_simps)
  finally have up: "real (M * M') / real 1 * 2 powi (E + E') \<le> real (nat t * 16 + 1) * 2 powi (- 4)" unfolding v .
  have small: "nat t * 16 + 1 < 2 ^ 53" using assms by simp
  obtain P F where p: "f64_val (f64_of_scaled False (M * M') 1 (E + E')) = Fin_val False P F"
      "real P * 2 powi F \<le> real (nat t * 16 + 1) * 2 powi (- 4)"
    using f64_of_scaled_le[OF _ up _ small] by auto
  have hi: "int (scaled_floor P F) \<le> t"
  proof -
    have "real (scaled_floor P F) < real_of_int t + 1"
      using scaled_floor_le[of P F] p(2) assms by (simp add: powi_neg field_simps)
    then show ?thesis by linarith
  qed
  have lo: "t - 1 \<le> int (scaled_floor P F)"
  proof (cases "0 < t")
    case True
    have "real_of_int t - 1 / 16 \<le> (real_of_int t / real_of_int tb - 1 / 2 ^ 28) * real_of_int tb"
      using tb by (simp add: field_simps)
    also have "\<dots> \<le> (real M * 2 powi E) * real_of_int tb"
      using q(3)[OF True] tb by (intro mult_right_mono) simp_all
    finally have "real (nat t * 16 - 1) * 2 powi (- 4) \<le> real (M * M') / real 1 * 2 powi (E + E')"
      unfolding v using True by (simp add: powi_neg field_simps of_nat_diff)
    then have "real (nat t * 16 - 1) * 2 powi (- 4) \<le> real P * 2 powi F"
      using f64_of_scaled_ge[of 1 "nat t * 16 - 1" "- 4" "M * M'" "E + E'" P F] p(1) small True by simp
    moreover have "real P * 2 powi F < real (scaled_floor P F) + 1"
      by (rule scaled_floor_gt)
    ultimately have "real_of_int t - 1 < real (scaled_floor P F) + 1"
      using True by (simp add: powi_neg field_simps of_nat_diff)
    then show ?thesis by linarith
  qed simp
  have "f64_trunc (f64_mul (f64_div (f64_of_int t) (f64_of_int tb)) (f64_of_int tb)) = Some (int (scaled_floor P F))"
    by (simp add: f64_mul_def q(1) b(1) f64_trunc_def p(1)[unfolded One_nat_def])
  then show ?thesis
    using hi lo assms(2) by (intro exI[of _ "int (scaled_floor P F)"]) (simp add: f64_to_u32_def)
qed

section \<open>Values in floating-point format\<close>

text \<open>A PMU all of whose values travel as floats, its phasors as real and imaginary parts, and data in the number of its channels whose every number
  is one a float holds.\<close>

definition float_pmu :: "PmuConfig \<Rightarrow> bool" where
  "float_pmu c \<longleftrightarrow> pc_phasorFormat c = floating_point_format \<and> pc_analogFormat c = floating_point_format \<and>
     pc_freqFormat c = floating_point_format \<and> pc_phasorCoordinates c = rectangular_phasor"

definition single :: "f64 \<Rightarrow> bool" where
  "single x \<longleftrightarrow> via_f32 x = x"

definition single_phasor :: "f64 \<times> f64 \<Rightarrow> bool" where
  "single_phasor ph \<longleftrightarrow> single (fst ph) \<and> single (snd ph)"

definition single_data :: "PmuConfig \<Rightarrow> PmuData \<Rightarrow> bool" where
  "single_data c d \<longleftrightarrow>
     length (pd_phasors d) = unat (pc_phasorCount c) \<and> list_all single_phasor (pd_phasors d) \<and>
     single (pd_freq d) \<and> single (pd_rocof d) \<and>
     length (pd_analog d) = unat (pc_analogCount c) \<and> list_all single (pd_analog d) \<and>
     length (pd_digital d) = unat (pc_digitalWordCount c)"

lemma single_widened [simp]: "single (f64_of_f32 w)"
  by (simp add: single_def via_f32_def f64_widen_narrow_widen)

lemma rd_indexed_typed:
  assumes "rd_indexed rd iis b off = Some (xs, off')" "\<And>ii i x j. rd ii b i = Some (x, j) \<Longrightarrow> P x"
  shows "length xs = length iis \<and> list_all P xs"
  using assms(1)
proof (induction iis arbitrary: off xs)
  case (Cons ii iis)
  then obtain x i xs' where "rd ii b off = Some (x, i)" "rd_indexed rd iis b i = Some (xs', off')" "xs = x # xs'"
    by (auto split: Option.bind_splits)
  with Cons.IH assms(2) show ?case by simp
qed simp

lemma rd_value_single:
  assumes "float_pmu c"
  shows "rd_phasor L c ii b i = Some (ph, j) \<Longrightarrow> single_phasor ph"
    "rd_freq c b i = Some (x, j) \<Longrightarrow> single x" "rd_analog c b i = Some (x, j) \<Longrightarrow> single x"
  using assms
  by (auto simp: rd_phasor_def rd_freq_def rd_analog_def float_pmu_def single_phasor_def split: Option.bind_splits)

lemma parsePmuData_single:
  assumes "parsePmuData L b base c old = Some (d, n)" "float_pmu c"
  shows "single_data c d"
proof -
  from assms(1) obtain phs i fr j ro k ans l dis m i0 where
    "rd_indexed (rd_phasor L c) [0..<unat (pc_phasorCount c)] b i0 = Some (phs, i)"
    "rd_freq c b i = Some (fr, j)" "rd_freq c b j = Some (ro, k)"
    "rd_each (rd_analog c) (unat (pc_analogCount c)) b k = Some (ans, l)"
    "rd_each rd_digital (unat (pc_digitalWordCount c)) b l = Some (dis, m)"
    and d: "pd_phasors d = phs" "pd_freq d = fr" "pd_rocof d = ro" "pd_analog d = ans" "pd_digital d = dis"
    unfolding parsePmuData_def Let_def by (auto split: Option.bind_splits)
  then show ?thesis
    using rd_indexed_typed[of "rd_phasor L c" _ b i0 phs i single_phasor]
      rd_each_typed[of "rd_analog c" _ b k ans l single] rd_each_typed[of rd_digital _ b l dis m "\<lambda>_. True"]
      rd_value_single[OF assms(2)]
    by (simp add: single_data_def d)
qed

lemma parse_data_pmus_single:
  assumes "parse_data_pmus L b off cs = Some ds" "list_all float_pmu cs"
  shows "list_all2 single_data cs ds"
  using assms
proof (induction cs arbitrary: off ds)
  case (Cons c cs)
  then obtain d n ds' where "parsePmuData L b off c default_PmuData = Some (d, n)"
      "parse_data_pmus L b (off + n) cs = Some ds'" "ds = d # ds'"
    by (auto split: Option.bind_splits)
  with Cons parsePmuData_single[of L b off c default_PmuData d n] show ?case by simp
qed simp

text \<open>Such data can be sent, and arrives as it was.\<close>

lemma those_defined: "(\<And>x. x \<in> set xs \<Longrightarrow> f x \<noteq> None) \<Longrightarrow> those (map f xs) \<noteq> None"
  by (induction xs) (auto split: option.splits)

lemma single_data_wire:
  assumes "single_data c d" "float_pmu c"
  shows "data_wire L c d \<noteq> None"
proof -
  have "those (map (enc_phasor_data L c d) [0..<unat (pc_phasorCount c)]) \<noteq> None"
    "those (map (enc_analog_data c d) [0..<unat (pc_analogCount c)]) \<noteq> None"
    "those (map (enc_digital_data d) [0..<unat (pc_digitalWordCount c)]) \<noteq> None"
    by (rule those_defined; use assms in \<open>simp add: single_data_def float_pmu_def enc_phasor_data_def
      enc_analog_data_def enc_digital_data_def idx_def\<close>)+
  then show ?thesis using assms(2) by (auto simp: data_wire_def enc_freq_data_def float_pmu_def)
qed

lemma single_received:
  assumes "single_data c d" "float_pmu c"
  shows "received L c d = d"
proof -
  have "map (\<lambda>ii. received_phasor L c (pd_phasors d ! ii) (pc_phasorConversion c ! ii)) [0..<unat (pc_phasorCount c)] =
      pd_phasors d"
    using assms by (intro nth_equalityI)
      (auto simp: received_phasor_def single_data_def float_pmu_def list_all_length single_phasor_def single_def)
  moreover have "map (received_analog c) (take (unat (pc_analogCount c)) (pd_analog d)) = pd_analog d"
    using assms by (intro nth_equalityI)
      (auto simp: received_analog_def single_data_def float_pmu_def list_all_length single_def)
  ultimately show ?thesis
    using assms by (simp add: received_def received_freq_def single_data_def float_pmu_def single_def)
qed

section \<open>Frames\<close>

text \<open>What the members of a parsed frame are when the parser reports success.\<close>

lemma parseDataFrame_complete:
  assumes "parseDataFrame L b n config = Some pdf" "pdf_parseResult pdf = parse_complete"
  shows "\<exists>fr. parse_data_pmus L b 14 (cfg_pmus config) = Some (pdf_pmus pdf) \<and> pdf_idcode pdf = cfg_idcode config \<and>
    pdf_fracSec pdf = f64_div (f64_of_int (uint (fr AND 0x00FFFFFF :: u32))) (f64_of_int (uint (cfg_timeBase config)))"
  using assms
  by (auto simp: parseDataFrame_def Let_def fresh_data_frame_def split: Option.bind_splits if_splits)
    (rule exI, rule refl)

lemma mask24_bounds: "0 \<le> uint (w AND 0x00FFFFFF :: u32)" "uint (w AND 0x00FFFFFF :: u32) < 2 ^ 24"
proof -
  have "w AND 0x00FFFFFF = take_bit 24 w" by (simp add: take_bit_eq_mask mask_eq_exp_minus_1)
  then have "uint (w AND 0x00FFFFFF) = take_bit 24 (uint w)" by (simp add: unsigned_take_bit_eq)
  then show "uint (w AND 0x00FFFFFF :: u32) < 2 ^ 24" by (metis take_bit_int_less_exp)
qed simp

text \<open>The fraction of a frame, as a count of ticks.\<close>

definition fraction_is :: "Config \<Rightarrow> PmuDataFrame \<Rightarrow> int \<Rightarrow> bool" where
  "fraction_is config pdf t \<longleftrightarrow> 0 \<le> t \<and> t < 2 ^ 24 \<and>
     pdf_fracSec pdf = f64_div (f64_of_int t) (f64_of_int (uint (cfg_timeBase config)))"

lemma relayed_frame:
  assumes "fraction_is config pdf t" "0 < cfg_timeBase config" "uint (cfg_timeBase config) < 2 ^ 24"
  obtains t' where "frame_ticks config pdf = Some (word_of_int t')" "fraction_is config (received_frame L config pdf) t'"
    "t - 1 \<le> t'" "t' \<le> t"
proof -
  obtain z where z: "f64_to_u32 (f64_mul (f64_div (f64_of_int t) (f64_of_int (uint (cfg_timeBase config))))
      (f64_of_int (uint (cfg_timeBase config)))) = Some (word_of_int z)" "0 \<le> z" "t - 1 \<le> z" "z \<le> t"
    using relay_ticks[of t "uint (cfg_timeBase config)"] assms by (auto simp: fraction_is_def word_less_def)
  have ticks: "frame_ticks config pdf = Some (word_of_int z)"
    using z(1) assms(1) by (simp add: frame_ticks_def fraction_is_def)
  have zb: "z < 2 ^ 24" using z(4) assms(1) by (simp add: fraction_is_def)
  have "(word_of_int z :: u32) AND 0x00FFFFFF = word_of_int z" using z(2) zb by (rule mask24_id)
  moreover have "uint (word_of_int z :: u32) = z"
    using z(2) zb by (simp add: unsigned_of_int take_bit_int_eq_self)
  ultimately have "fraction_is config (received_frame L config pdf) z"
    using z(2) zb by (simp add: fraction_is_def received_frame_def ticks)
  with ticks z show thesis by (intro that)
qed


text \<open>A frame 249 ticks into a second, for one PMU with all its formats floating-point.\<close>

definition relay_config :: Config where
  "relay_config = default_Config\<lparr>cfg_idcode := 7, cfg_pmus := [sample_data_pmu\<lparr>pc_analogFormat := 1\<rparr>]\<rparr>"

definition relay_frame :: PmuDataFrame where
  "relay_frame = sample_data_frame\<lparr>pdf_fracSec := 0x3F3059EA57214F05\<rparr>"

lemma relay_expected: "getExpectedDataPacketLength relay_config = 38"
  by (simp add: expected_length relay_config_def sample_data_pmu_def default_PmuConfig_def
      data_size_def phasor_bytes_def freq_bytes_def analog_bytes_def)

lemma relay_time_base [simp]: "cfg_timeBase relay_config = 1000000"
  by (simp add: relay_config_def default_Config_def)

lemma relay_frame_ticks: "frame_ticks relay_config relay_frame = Some 249"
  by (simp add: frame_ticks_def relay_frame_def fp_eval)

lemma relay_float: "list_all float_pmu (cfg_pmus relay_config)"
  by (simp add: relay_config_def sample_data_pmu_def default_PmuConfig_def float_pmu_def)

lemma relay_fits: "frame_fits sample_libm relay_config relay_frame 40 (replicate 40 0)"
proof -
  have one: "[0..<Suc 0] = [0]" by simp
  have "data_wire sample_libm (sample_data_pmu\<lparr>pc_analogFormat := 1\<rparr>) sample_data \<noteq> None"
    by (simp add: data_wire_def sample_data_pmu_def default_PmuConfig_def sample_data_def one
        enc_phasor_data_def enc_freq_data_def enc_analog_data_def enc_digital_data_def idx_def)
  then show ?thesis
    by (simp add: frame_fits_def relay_frame_ticks relay_expected sendable_def)
      (simp add: relay_config_def relay_frame_def sample_data_frame_def stores_imag_def sample_data_pmu_def
        default_PmuConfig_def)
qed


text \<open>The tick is lost indeed, with the default time base: a relay that receives a frame stamped
  249 microseconds into the second sends it on stamped 248.\<close>

theorem relay_loses_tick:
  "\<exists>b pdf. generateDataFrame sample_libm (replicate 40 0) 40 relay_config relay_frame = Some (b, 38) \<and>
    parseDataFrame sample_libm b 40 relay_config = Some pdf \<and>
    frame_ticks relay_config relay_frame = Some 249 \<and> frame_ticks relay_config pdf = Some 248"
proof -
  let ?pdf = "received_frame sample_libm relay_config relay_frame"
  have "pdf_fracSec ?pdf = f64_div (f64_of_int 249) (f64_of_int 1000000)"
    by (simp add: received_frame_def relay_frame_ticks)
  then have "frame_ticks relay_config ?pdf = Some 248"
    by (simp add: frame_ticks_def) (simp add: fp_eval)
  then show ?thesis
    using dataFrame_roundtrip_ex[OF relay_fits] relay_frame_ticks by (auto simp: relay_expected)
qed

end
