(* ===== verification/Civil_Calendar.thy ===== *)
theory Civil_Calendar
  imports PMU_Prelude "HOL-Library.Signed_Division"
begin

text \<open>
  The field types of the calendar library in the repository (\<open>src/ThirdParty/date/date.h\<close>) and the
  conversions between a day count and a date: \<open>year_month_day::to_days\<close>, \<open>year_month_day::from_days\<close>,
  \<open>weekday\<close>, \<open>year_month\<close> and \<open>year_month_weekday\<close>.  A \<open>year\<close> is a \<open>short\<close>, read with \<open>sint\<close>; \<open>month\<close>, \<open>day\<close>
  and \<open>weekday\<close> are \<open>unsigned char\<close>.  The representation of \<open>days\<close>, \<open>months\<close> and \<open>years\<close> is \<open>int\<close>, here an
  \<open>int\<close> in its range; \<open>unsigned\<close> arithmetic is on \<open>u32\<close>.
\<close>

section \<open>Years, months and days\<close>

definition year_of :: "int \<Rightarrow> u16" where "year_of y = word_of_int y"
definition month_of :: "u32 \<Rightarrow> u8" where "month_of m = ucast m"
definition day_of :: "u32 \<Rightarrow> u8" where "day_of d = ucast d"

definition is_leap :: "u16 \<Rightarrow> bool" where
  "is_leap y \<longleftrightarrow> sint y smod 4 = 0 \<and> (sint y smod 100 \<noteq> 0 \<or> sint y smod 400 = 0)"

definition year_ok :: "u16 \<Rightarrow> bool" where "year_ok y \<longleftrightarrow> sint y \<noteq> - 32768"
definition month_ok :: "u8 \<Rightarrow> bool" where "month_ok m \<longleftrightarrow> 1 \<le> m \<and> m \<le> 12"
definition day_ok :: "u8 \<Rightarrow> bool" where "day_ok d \<longleftrightarrow> 1 \<le> d \<and> d \<le> 31"

definition month_lengths :: "u8 list" where
  "month_lengths = [31, 28, 31, 30, 31, 30, 31, 31, 30, 31, 30, 31]"

text \<open>\<open>year_month_day_last::day\<close>.\<close>

definition last_day :: "u16 \<Rightarrow> u8 \<Rightarrow> u8" where
  "last_day y m = (if (m \<noteq> 2 \<or> \<not> is_leap y) \<and> month_ok m then month_lengths ! (unat m - 1) else 29)"

record YearMonthDay =
  ymd_year :: u16
  ymd_month :: u8
  ymd_day :: u8

definition ymd_ok :: "YearMonthDay \<Rightarrow> bool" where
  "ymd_ok x \<longleftrightarrow> (year_ok (ymd_year x) \<and> month_ok (ymd_month x)) \<and>
     1 \<le> ymd_day x \<and> ymd_day x \<le> last_day (ymd_year x) (ymd_month x)"

definition ymd_less :: "YearMonthDay \<Rightarrow> YearMonthDay \<Rightarrow> bool" where
  "ymd_less x y =
     (if sint (ymd_year x) < sint (ymd_year y) then True
      else if sint (ymd_year x) > sint (ymd_year y) then False
      else if ymd_month x < ymd_month y then True
      else if ymd_month x > ymd_month y then False
      else ymd_day x < ymd_day y)"

section \<open>Day counts\<close>

definition to_days :: "YearMonthDay \<Rightarrow> int" where
  "to_days x =
     (let y = sint (ymd_year x) - (if ymd_month x \<le> 2 then 1 else 0);
          m = (ucast (ymd_month x) :: u32);
          d = (ucast (ymd_day x) :: u32);
          era = (if 0 \<le> y then y else y - 399) sdiv 400;
          yoe = (word_of_int (y - era * 400) :: u32);
          doy = (153 * (if 2 < m then m - 3 else m + 9) + 2) div 5 + d - 1;
          doe = yoe * 365 + yoe div 4 - yoe div 100 + doy
      in era * 146097 + sint doe - 719468)"

text \<open>The first sum is signed: it must stay below \<open>2 ^ 31\<close>.\<close>

definition from_days :: "int \<Rightarrow> YearMonthDay option" where
  "from_days dp =
     (let z = dp + 719468 in
      if 2 ^ 31 \<le> z then None
      else
        let era = (if 0 \<le> z then z else z - 146096) sdiv 146097;
            doe = (word_of_int (z - era * 146097) :: u32);
            yoe = (doe - doe div 1460 + doe div 36524 - doe div 146096) div 365;
            y = sint yoe + era * 400;
            doy = doe - (365 * yoe + yoe div 4 - yoe div 100);
            mp = (5 * doy + 2) div 153;
            d = doy - (153 * mp + 2) div 5 + 1;
            m = (if mp < 10 then mp + 3 else mp - 9)
        in Some \<lparr>ymd_year = year_of (y + (if m \<le> 2 then 1 else 0)), ymd_month = month_of m, ymd_day = day_of d\<rparr>)"

section \<open>Weekdays\<close>

text \<open>\<open>z\<close> is converted to \<open>unsigned\<close> before the sum.\<close>

definition weekday_from_days :: "int \<Rightarrow> u8" where
  "weekday_from_days z =
     (let u = (word_of_int z :: u32) in ucast (if - 4 \<le> z then (u + 4) mod 7 else u mod 7))"

definition weekday_of :: "u32 \<Rightarrow> u8" where
  "weekday_of wd = ucast (if wd \<noteq> 7 then wd else 0)"

definition weekday_ok :: "u8 \<Rightarrow> bool" where "weekday_ok wd \<longleftrightarrow> wd \<le> 6"

definition iso_encoding :: "u8 \<Rightarrow> u32" where
  "iso_encoding wd = (if wd = 0 then 7 else ucast wd)"

definition weekday_minus :: "u8 \<Rightarrow> u8 \<Rightarrow> int" where
  "weekday_minus x y =
     (let wdu = uint x - uint y;
          wk = (if 0 \<le> wdu then wdu else wdu - 6) sdiv 7
      in wdu - wk * 7)"

definition weekday_plus :: "u8 \<Rightarrow> int \<Rightarrow> u8" where
  "weekday_plus x n =
     (let wdu = uint x + n;
          wk = (if 0 \<le> wdu then wdu else wdu - 6) sdiv 7
      in weekday_of (word_of_int (wdu - wk * 7)))"

section \<open>Months\<close>

definition month_minus :: "u8 \<Rightarrow> u8 \<Rightarrow> int" where
  "month_minus x y = (let d = (ucast x - ucast y :: u32) in sint (if d \<le> 11 then d else d + 12))"

definition month_plus :: "u8 \<Rightarrow> int \<Rightarrow> u8" where
  "month_plus x n =
     (let mu = uint x + n - 1;
          yr = (if 0 \<le> mu then mu else mu - 11) sdiv 12
      in month_of (word_of_int (mu - yr * 12 + 1)))"

type_synonym year_month = "u16 \<times> u8"

definition year_month_plus :: "year_month \<Rightarrow> int \<Rightarrow> year_month" where
  "year_month_plus = (\<lambda>(y, m) dm.
     let dmi = uint m - 1 + dm;
         dy = (if 0 \<le> dmi then dmi else dmi - 11) sdiv 12;
         dmi = dmi - dy * 12 + 1
     in (year_of (sint y + dy), month_of (word_of_int dmi)))"

definition year_month_minus :: "year_month \<Rightarrow> year_month \<Rightarrow> int" where
  "year_month_minus = (\<lambda>(y1, m1) (y2, m2). (sint y1 - sint y2) * 12 + sint (ucast m1 - ucast m2 :: u32))"

section \<open>The n-th weekday of a month\<close>

text \<open>\<open>weekday_indexed\<close> packs the weekday and the index into four bits each.\<close>

record YearMonthWeekday =
  ymw_year :: u16
  ymw_month :: u8
  ymw_wd :: "4 word"
  ymw_index :: "4 word"

definition ymw_weekday :: "YearMonthWeekday \<Rightarrow> u8" where
  "ymw_weekday x = weekday_of (ucast (ymw_wd x))"

text \<open>\<open>sys_days(y / m / 1)\<close>, \<open>weekday(d)\<close> of a day count and \<open>days{(index - 1) * 7}\<close>.\<close>

definition first_of :: "u16 \<Rightarrow> u8 \<Rightarrow> int" where
  "first_of y m = to_days \<lparr>ymd_year = y, ymd_month = m, ymd_day = 1\<rparr>"

definition ymw_weeks :: "YearMonthWeekday \<Rightarrow> u32" where
  "ymw_weeks x = (ucast (ymw_index x) - 1) * 7"

definition ymw_ok :: "YearMonthWeekday \<Rightarrow> bool" where
  "ymw_ok x =
     (if \<not> year_ok (ymw_year x) \<or> \<not> month_ok (ymw_month x) \<or> \<not> weekday_ok (ymw_weekday x) \<or> ymw_index x < 1
      then False
      else if ymw_index x \<le> 4 then True
      else
        let d2 = weekday_minus (ymw_weekday x) (weekday_from_days (first_of (ymw_year x) (ymw_month x))) +
              sint (ymw_weeks x + 1)
        in (word_of_int d2 :: u32) \<le> ucast (last_day (ymw_year x) (ymw_month x)))"

definition ymw_to_days :: "YearMonthWeekday \<Rightarrow> int" where
  "ymw_to_days x =
     (let d = first_of (ymw_year x) (ymw_month x)
      in d + (weekday_minus (ymw_weekday x) (weekday_from_days d) + sint (ymw_weeks x)))"

definition ymw_from_days :: "int \<Rightarrow> YearMonthWeekday option" where
  "ymw_from_days d = do {
     ymd \<leftarrow> from_days d;
     Some \<lparr>ymw_year = ymd_year ymd, ymw_month = ymd_month ymd, ymw_wd = ucast (weekday_from_days d),
       ymw_index = ucast ((ucast (ymd_day ymd) - 1) div 7 + 1 :: u32)\<rparr>
   }"

section \<open>Floored division\<close>

text \<open>\<open>(x >= 0 ? x : x - (k - 1)) / k\<close>, the idiom of the library, rounds down.\<close>

lemma sdiv_floor:
  assumes "0 < (k :: int)" "j = k - 1"
  shows "(if 0 \<le> x then x else x - j) sdiv k = x div k"
proof (cases "0 \<le> x")
  case True
  then show ?thesis using assms by (cases "x = 0") (simp_all add: signed_divide_int_def)
next
  case False
  have "(j - x) div k = - (x div k)"
  proof (rule int_div_pos_eq)
    show "j - x = k * - (x div k) + (k - 1 - x mod k)"
      using assms(2) mult_div_mod_eq[of k x] by (simp add: algebra_simps)
    show "0 \<le> k - 1 - x mod k" using assms(1) pos_mod_bound[of k x] by linarith
    show "k - 1 - x mod k < k" using assms(1) pos_mod_sign[of k x] by linarith
  qed
  then show ?thesis
    using False assms by (simp add: signed_divide_int_def)
qed

lemma smod_eq_0: "(x :: int) smod k = 0 \<longleftrightarrow> k dvd x"
  by (auto simp: smod_int_alt_def sgn_0_0 mod_eq_0_iff_dvd)

section \<open>The calendar\<close>

text \<open>The days before the year \<open>y\<close> that begins on March 1, and before the months of such a year.\<close>

definition leap :: "int \<Rightarrow> bool" where
  "leap y \<longleftrightarrow> 4 dvd y \<and> (\<not> 100 dvd y \<or> 400 dvd y)"

definition days_before :: "int \<Rightarrow> int" where
  "days_before y = 365 * y + y div 4 - y div 100 + y div 400"

definition month_start :: "int \<Rightarrow> int" where
  "month_start m = (153 * (if 2 < m then m - 3 else m + 9) + 2) div 5"

lemma is_leap_eq: "is_leap y \<longleftrightarrow> leap (sint y)"
  by (simp add: is_leap_def leap_def smod_eq_0)

lemma div_step:
  assumes "0 < (k :: int)"
  shows "(y + 1) div k = y div k + of_bool (k dvd y + 1)"
proof (cases "y mod k + 1 = k")
  case True
  have "y + 1 = k * (y div k) + (y mod k + 1)" by simp
  then have "y + 1 = k * (y div k + 1)" by (simp only: True distrib_left mult_1_right)
  moreover from this have "(y + 1) div k = y div k + 1" using assms by (metis nonzero_mult_div_cancel_left less_irrefl)
  ultimately show ?thesis by simp
next
  case False
  then have r: "0 \<le> y mod k + 1" "y mod k + 1 < k" "y mod k + 1 \<noteq> 0"
    using assms pos_mod_sign[of k y] pos_mod_bound[of k y] by linarith+
  have eq: "y + 1 = k * (y div k) + (y mod k + 1)" by simp
  then have "(y + 1) div k = y div k" "(y + 1) mod k = y mod k + 1"
    using r int_div_pos_eq[OF eq] int_mod_pos_eq[OF eq] by simp_all
  with r(3) show ?thesis by (simp add: dvd_eq_mod_eq_0)
qed

lemma days_before_step: "days_before (y + 1) = days_before y + 365 + of_bool (leap (y + 1))"
proof -
  have "400 dvd y + 1 \<Longrightarrow> 100 dvd y + 1" "100 dvd y + 1 \<Longrightarrow> 4 dvd y + 1"
    by (rule dvd_trans[rotated], assumption, simp)+
  moreover have "days_before (y + 1) = days_before y + 365 + of_bool (4 dvd y + 1) - of_bool (100 dvd y + 1) +
      of_bool (400 dvd y + 1)"
    unfolding days_before_def by (subst (1 2 3) div_step) simp_all
  ultimately show ?thesis unfolding leap_def by (cases "4 dvd y + 1"; cases "100 dvd y + 1"; cases "400 dvd y + 1") simp_all
qed

lemma days_before_era:
  assumes "0 \<le> r" "r < 400"
  shows "days_before (e * 400 + r) = e * 146097 + (r * 365 + r div 4 - r div 100)"
proof -
  have "(e * 400 + r) div 4 = e * 100 + r div 4" "(e * 400 + r) div 100 = e * 4 + r div 100"
    "(e * 400 + r) div 400 = e"
    using assms div_mult_self3[of 4 "e * 100" r] div_mult_self3[of 100 "e * 4" r] div_mult_self3[of 400 e r]
    by (simp_all add: ac_simps)
  then show ?thesis by (simp add: days_before_def)
qed

section \<open>The machine arithmetic does not wrap\<close>

lemma uint_w32: "0 \<le> a \<Longrightarrow> a < 2 ^ 32 \<Longrightarrow> uint (word_of_int a :: u32) = a"
  by (simp add: unsigned_of_int take_bit_int_eq_self)

lemma uint_w8: "0 \<le> a \<Longrightarrow> a < 2 ^ 8 \<Longrightarrow> uint (word_of_int a :: u8) = a"
  by (simp add: unsigned_of_int take_bit_int_eq_self)

lemma w32_eqI: "uint (w :: u32) = a \<Longrightarrow> w = word_of_int a"
  by auto

lemma w32_div:
  assumes "0 \<le> a" "a < 2 ^ 32" "0 \<le> b" "b < 2 ^ 32"
  shows "(word_of_int a :: u32) div word_of_int b = word_of_int (a div b)"
proof -
  have "0 \<le> a div b" "a div b < 2 ^ 32"
    using assms by (cases "b = 0"; simp add: pos_imp_zdiv_nonneg_iff; fail)
      (use assms div_by_1[of a] zdiv_mono2[of a 1 b] in \<open>cases "b = 0"; simp\<close>)
  then have "uint (word_of_int (a div b) :: u32) = a div b" by (rule uint_w32)
  also have "\<dots> = uint ((word_of_int a :: u32) div word_of_int b)"
    by (simp only: uint_div uint_w32[OF assms(1,2)] uint_w32[OF assms(3,4)])
  finally show ?thesis by (intro unsigned_word_eqI[where 'a = int]) (simp only:)
qed

lemma w32_less:
  assumes "0 \<le> a" "a < 2 ^ 32" "0 \<le> b" "b < 2 ^ 32"
  shows "(word_of_int a :: u32) < word_of_int b \<longleftrightarrow> a < b"
  by (simp only: word_less_def uint_w32[OF assms(1,2)] uint_w32[OF assms(3,4)])

lemma w32_sint: "- (2 ^ 31) \<le> a \<Longrightarrow> a < 2 ^ 31 \<Longrightarrow> sint (word_of_int a :: u32) = a"
  by (simp add: signed_of_int signed_take_bit_int_eq_self)

lemma w32_ucast: "(ucast (b :: u8) :: u32) = word_of_int (uint b)"
  by (rule ucast_eq)

lemma year_mod:
  assumes "era = (if 0 \<le> y then y else y - 399) sdiv (400 :: int)"
  shows "era = y div 400" "y - era * 400 = y mod 400"
proof -
  show "era = y div 400" unfolding assms by (rule sdiv_floor) simp_all
  then show "y - era * 400 = y mod 400" by (simp add: minus_div_mult_eq_mod)
qed

text \<open>For every month and day a date can hold, \<open>to_days\<close> is the day count of the calendar.\<close>

lemma to_days_eq:
  assumes m: "1 \<le> uint (ymd_month x)" "uint (ymd_month x) \<le> 12" and d: "1 \<le> uint (ymd_day x)" "uint (ymd_day x) \<le> 31"
  shows "to_days x = days_before (sint (ymd_year x) - of_bool (uint (ymd_month x) \<le> 2)) +
    month_start (uint (ymd_month x)) + uint (ymd_day x) - 719469"
proof -
  define M D where "M = uint (ymd_month x)" and "D = uint (ymd_day x)"
  define y where "y = sint (ymd_year x) - of_bool (M \<le> 2)"
  define r where "r = y mod 400"
  have r: "0 \<le> r" "r < 400" by (simp_all add: r_def)
  have Mb: "1 \<le> M" "M \<le> 12" and Db: "1 \<le> D" "D \<le> 31" using m d by (simp_all add: M_def D_def)
  have ms: "0 \<le> month_start M" "month_start M \<le> 337"
    using Mb by (auto simp: month_start_def)
  have le2: "ymd_month x \<le> 2 \<longleftrightarrow> M \<le> 2" by (simp add: word_le_def M_def)
  have um: "(ucast (ymd_month x) :: u32) = word_of_int M" and ud: "(ucast (ymd_day x) :: u32) = word_of_int D"
    unfolding M_def D_def by (rule w32_ucast)+
  have doy: "(153 * (if 2 < (ucast (ymd_month x) :: u32) then ucast (ymd_month x) - 3 else ucast (ymd_month x) + 9) + 2) div 5 =
      (word_of_int (month_start M) :: u32)"
  proof -
    have "(2 :: u32) < word_of_int M \<longleftrightarrow> 2 < M"
      using w32_less[of 2 M] Mb by simp
    moreover have "(153 * (word_of_int M - 3) + 2 :: u32) = word_of_int (153 * (M - 3) + 2)"
      "(153 * (word_of_int M + 9) + 2 :: u32) = word_of_int (153 * (M + 9) + 2)"
      by (simp_all add: word_of_int_hom_syms)
    ultimately show ?thesis
      using Mb w32_div[of "153 * (M - 3) + 2" 5] w32_div[of "153 * (M + 9) + 2" 5]
      unfolding um month_start_def by auto
  qed
  let ?v = "r * 365 + r div 4 - r div 100 + (month_start M + D - 1)"
  have "(word_of_int r * 365 + word_of_int r div 4 - word_of_int r div 100 +
      (word_of_int (month_start M) + word_of_int D - 1) :: u32) = word_of_int ?v"
    using r w32_div[of r 4] w32_div[of r 100] by simp
  moreover have "sint (word_of_int ?v :: u32) = ?v"
    using r ms Db by (intro w32_sint) simp_all
  moreover have "days_before y = y div 400 * 146097 + (r * 365 + r div 4 - r div 100)"
    using days_before_era[OF r, of "y div 400"] by (simp add: r_def)
  moreover have "sint (ymd_year x) - (if ymd_month x \<le> 2 then 1 else 0) = y" by (simp add: le2 y_def)
  moreover have "y - y div 400 * 400 = r" by (simp add: r_def minus_div_mult_eq_mod)
  ultimately have "to_days x = days_before y + (month_start M + D - 1) - 719468"
    unfolding to_days_def Let_def doy ud by (simp only: year_mod(1)[OF refl])
  then show ?thesis by (simp add: y_def flip: M_def D_def)
qed

section \<open>The year of a day of an era\<close>

definition year_estimate :: "int \<Rightarrow> int" where
  "year_estimate n = n - n div 1460 + n div 36524 - n div 146096"

lemma year_estimate_step:
  assumes "0 \<le> n" "n + 1 < 146097"
  shows "year_estimate n \<le> year_estimate (n + 1)"
proof -
  have "n div 146096 = 0" using assms by simp
  moreover have "(n + 1) div 146096 \<le> (n + 1) div 36524 - n div 36524"
  proof (cases "n + 1 = 146096")
    case True
    then have "n = 146095" by simp
    then show ?thesis by simp
  next
    case False
    then have "(n + 1) div 146096 = 0" using assms by simp
    then show ?thesis by (simp add: div_step)
  qed
  ultimately show ?thesis by (simp add: year_estimate_def div_step[of 1460])
qed

lemma year_estimate_mono:
  assumes "0 \<le> a" "a \<le> b" "b < 146097"
  shows "year_estimate a \<le> year_estimate b"
proof -
  have "year_estimate a \<le> year_estimate (a + int k)" if "a + int k < 146097" for k
    using that
  proof (induction k)
    case (Suc k)
    have "year_estimate (a + int k) \<le> year_estimate (a + int k + 1)"
      using Suc.prems assms(1) by (intro year_estimate_step) simp_all
    moreover have "a + int (Suc k) = a + int k + 1" by simp
    moreover have "year_estimate a \<le> year_estimate (a + int k)" using Suc by simp
    ultimately show ?case by (simp only:)
  qed simp
  from this[of "nat (b - a)"] assms show ?thesis by simp
qed

lemma days_before_mono: "a \<le> b \<Longrightarrow> days_before a \<le> days_before b"
proof -
  have "days_before a \<le> days_before (a + int k)" for k
  proof (induction k)
    case (Suc k)
    moreover have "a + int (Suc k) = a + int k + 1" by simp
    moreover have "days_before (a + int k) \<le> days_before (a + int k + 1)"
      by (simp add: days_before_step)
    ultimately show ?case by (simp only:)
  qed simp
  moreover assume "a \<le> b"
  ultimately show ?thesis by (metis zle_iff_zadd)
qed

text \<open>The estimate is exact on the first and the last day of every year of an era.\<close>

lemma year_estimate_ends:
  "list_all (\<lambda>r. r \<le> year_estimate (days_before r) div 365 \<and> year_estimate (days_before (r + 1) - 1) div 365 \<le> r) [0..399]"
  by code_simp

lemma year_estimate_exact:
  assumes "0 \<le> r" "r < 400" "days_before r \<le> n" "n < days_before (r + 1)"
  shows "year_estimate n div 365 = r"
proof -
  have "days_before 0 = 0" "days_before 400 = 146097" by (simp_all add: days_before_def)
  then have b: "0 \<le> days_before r" "days_before (r + 1) \<le> 146097"
    using days_before_mono[of 0 r] days_before_mono[of "r + 1" 400] assms(1,2) by simp_all
  have "r \<le> year_estimate (days_before r) div 365" "year_estimate (days_before (r + 1) - 1) div 365 \<le> r"
    using year_estimate_ends assms(1,2) by (simp_all add: list_all_iff)
  moreover have "year_estimate (days_before r) \<le> year_estimate n"
    using assms b by (intro year_estimate_mono) simp_all
  moreover have "year_estimate n \<le> year_estimate (days_before (r + 1) - 1)"
    using assms b by (intro year_estimate_mono) simp_all
  ultimately show ?thesis
    using zdiv_mono1[of "year_estimate (days_before r)" "year_estimate n" 365]
      zdiv_mono1[of "year_estimate n" "year_estimate (days_before (r + 1) - 1)" 365] by linarith
qed

section \<open>The date of a day count\<close>

text \<open>Month and day of the month on day \<open>n\<close> of a year that begins on March 1.\<close>

definition month_index :: "int \<Rightarrow> int" where
  "month_index n = (5 * n + 2) div 153"

definition month_number :: "int \<Rightarrow> int" where
  "month_number n = (if month_index n < 10 then month_index n + 3 else month_index n - 9)"

definition day_number :: "int \<Rightarrow> int" where
  "day_number n = n - (153 * month_index n + 2) div 5 + 1"

definition date_on :: "int \<Rightarrow> int \<Rightarrow> YearMonthDay" where
  "date_on y n = \<lparr>ymd_year = word_of_int (y + of_bool (month_number n \<le> 2)), ymd_month = word_of_int (month_number n),
     ymd_day = word_of_int (day_number n)\<rparr>"

lemma month_day_bounds:
  assumes "0 \<le> n" "n \<le> 365"
  shows "0 \<le> month_index n" "month_index n \<le> 11" "1 \<le> day_number n" "day_number n \<le> 31"
    "1 \<le> month_number n" "month_number n \<le> 12"
proof -
  show i: "0 \<le> month_index n" "month_index n \<le> 11" using assms by (simp_all add: month_index_def)
  then show "1 \<le> month_number n" "month_number n \<le> 12" by (simp_all add: month_number_def)
  define mp where "mp = month_index n"
  have mp: "153 * mp \<le> 5 * n + 2" "5 * n + 2 < 153 * mp + 153"
    using mult_div_mod_eq[of 153 "5 * n + 2"] pos_mod_bound[of 153 "5 * n + 2"] pos_mod_sign[of 153 "5 * n + 2"]
    unfolding mp_def month_index_def by linarith+
  define q where "q = (153 * mp + 2) div 5"
  have q: "5 * q \<le> 153 * mp + 2" "153 * mp + 2 < 5 * q + 5"
    using mult_div_mod_eq[of 5 "153 * mp + 2"] pos_mod_bound[of 5 "153 * mp + 2"] pos_mod_sign[of 5 "153 * mp + 2"]
    unfolding q_def by linarith+
  show "1 \<le> day_number n" "day_number n \<le> 31"
    using mp q by (simp_all add: day_number_def flip: mp_def q_def)
qed

lemma ucast_w32: "0 \<le> a \<Longrightarrow> a < 2 ^ 32 \<Longrightarrow> (ucast (word_of_int a :: u32) :: u8) = word_of_int a"
  by (simp only: ucast_eq uint_w32)

lemma era_div:
  assumes "era = (if 0 \<le> z then z else z - 146096) sdiv (146097 :: int)"
  shows "era = z div 146097"
  unfolding assms by (rule sdiv_floor) simp_all

lemma days_before_eras: "days_before (e * 400 + k) = e * 146097 + days_before k"
proof -
  have "(e * 400 + k) div 4 = e * 100 + k div 4" "(e * 400 + k) div 100 = e * 4 + k div 100"
    "(e * 400 + k) div 400 = e + k div 400"
    using div_mult_self3[of 4 "e * 100" k] div_mult_self3[of 100 "e * 4" k] div_mult_self3[of 400 e k]
    by (simp_all add: ac_simps)
  then show ?thesis by (simp add: days_before_def)
qed

text \<open>The same formulas in \<open>unsigned\<close> arithmetic: nothing wraps.\<close>

lemma year_estimate_word:
  assumes "0 \<le> r" "r < 400" "0 \<le> n" "days_before r + n < days_before (r + 1)"
  shows "((word_of_int (days_before r + n) - word_of_int (days_before r + n) div 1460 +
    word_of_int (days_before r + n) div 36524 - word_of_int (days_before r + n) div 146096) div 365 :: u32) = word_of_int r"
proof -
  let ?d = "days_before r + n"
  have "days_before 0 = 0" "days_before 400 = 146097" by (simp_all add: days_before_def)
  then have b: "0 \<le> days_before r" "days_before (r + 1) \<le> 146097"
    using days_before_mono[of 0 r] days_before_mono[of "r + 1" 400] assms(1,2) by simp_all
  have "year_estimate ?d div 365 = r" using year_estimate_exact[OF assms(1,2)] assms(3,4) by simp
  moreover have "0 \<le> year_estimate ?d"
    using year_estimate_mono[of 0 ?d] assms(3,4) b by (simp add: year_estimate_def)
  moreover have "year_estimate ?d < 2 ^ 32"
    using year_estimate_mono[of ?d 146096] assms(3,4) b by (simp add: year_estimate_def)
  moreover have "(word_of_int ?d - word_of_int ?d div 1460 + word_of_int ?d div 36524 - word_of_int ?d div 146096 :: u32) =
      word_of_int (year_estimate ?d)"
    using assms(3,4) b w32_div[of ?d 1460] w32_div[of ?d 36524] w32_div[of ?d 146096]
    by (simp add: year_estimate_def)
  ultimately show ?thesis using w32_div[of "year_estimate ?d" 365] by (simp only:) simp
qed

lemma month_day_words:
  assumes "0 \<le> n" "n \<le> 365"
  shows "((5 * word_of_int n + 2) div 153 :: u32) = word_of_int (month_index n)"
    and "(if word_of_int (month_index n) < (10 :: u32) then word_of_int (month_index n) + 3
      else word_of_int (month_index n) - 9 :: u32) = word_of_int (month_number n)"
    and "(word_of_int n - (153 * word_of_int (month_index n) + 2) div 5 + 1 :: u32) = word_of_int (day_number n)"
    and "(word_of_int (month_number n) :: u32) \<le> 2 \<longleftrightarrow> month_number n \<le> 2"
proof -
  note bd = month_day_bounds[OF assms]
  show "((5 * word_of_int n + 2) div 153 :: u32) = word_of_int (month_index n)"
    using w32_div[of "5 * n + 2" 153] assms by (simp add: month_index_def)
  show "(if word_of_int (month_index n) < (10 :: u32) then word_of_int (month_index n) + 3
      else word_of_int (month_index n) - 9 :: u32) = word_of_int (month_number n)"
    using w32_less[of "month_index n" 10] bd(1,2) by (simp add: month_number_def)
  show "(word_of_int n - (153 * word_of_int (month_index n) + 2) div 5 + 1 :: u32) = word_of_int (day_number n)"
    using w32_div[of "153 * month_index n + 2" 5] bd(1,2) by (simp add: day_number_def)
  show "(word_of_int (month_number n) :: u32) \<le> 2 \<longleftrightarrow> month_number n \<le> 2"
    using w32_less[of 2 "month_number n"] bd(5,6) by (simp add: linorder_not_less[symmetric] del: linorder_not_less)
qed

lemma from_days_eq:
  assumes n: "0 \<le> n" "n < 365 + of_bool (leap (y + 1))" and small: "days_before y + n < 2 ^ 31"
  shows "from_days (days_before y + n - 719468) = Some (date_on y n)"
proof -
  define r e where "r = y mod 400" and "e = y div 400"
  have y: "y = e * 400 + r" "0 \<le> r" "r < 400" by (simp_all add: r_def e_def)
  have db: "days_before r = r * 365 + r div 4 - r div 100" "days_before y = e * 146097 + days_before r"
    "days_before (y + 1) = e * 146097 + days_before (r + 1)"
  proof -
    show dr: "days_before r = r * 365 + r div 4 - r div 100"
      using days_before_era[OF y(2,3), of 0] by simp
    show "days_before y = e * 146097 + days_before r"
      using days_before_era[OF y(2,3), of e] by (simp add: dr y(1))
    show "days_before (y + 1) = e * 146097 + days_before (r + 1)"
      using days_before_eras[of e "r + 1"] by (simp add: y(1) add.assoc)
  qed
  let ?d = "days_before r + n"
  have up: "?d < days_before (r + 1)" using n(2) db(2,3) days_before_step[of y] by simp
  have top: "days_before 0 = 0" "days_before 400 = 146097" by (simp_all add: days_before_def)
  then have b: "0 \<le> days_before r" "days_before (r + 1) \<le> 146097"
    using days_before_mono[of 0 r] days_before_mono[of "r + 1" 400] y(2,3) by simp_all
  have z: "days_before y + n = e * 146097 + ?d" by (simp add: db(2))
  then have era: "(days_before y + n) div 146097 = e"
    using n(1) up b by simp
  have n365: "n \<le> 365" using n(2) by (cases "leap (y + 1)") simp_all
  note yoe = year_estimate_word[OF y(2,3) n(1) up]
  have doy: "(word_of_int ?d - (365 * word_of_int r + word_of_int r div 4 - word_of_int r div 100) :: u32) = word_of_int n"
    using w32_div[of r 4] w32_div[of r 100] y(2,3) db(1) by simp
  note bd = month_day_bounds[OF n(1) n365]
  note md = month_day_words[OF n(1) n365]
  have sub: "days_before y + n - 719468 + 719468 = days_before y + n" by simp
  have off: "days_before y + n - e * 146097 = ?d" by (simp add: z)
  have yr: "sint (word_of_int r :: u32) + e * 400 = y"
    using w32_sint[of r] y by simp
  have "from_days (days_before y + n - 719468) = Some \<lparr>ymd_year = year_of (y + (if month_number n \<le> 2 then 1 else 0)),
      ymd_month = month_of (word_of_int (month_number n)), ymd_day = day_of (word_of_int (day_number n))\<rparr>"
    unfolding from_days_def Let_def sub era_div[OF refl] era off yoe yr doy md
    using small by simp
  then show ?thesis
    using bd by (simp add: date_on_def year_of_def month_of_def day_of_def ucast_w32)
qed

text \<open>The longest each month gets.\<close>

definition month_length :: "int \<Rightarrow> int" where
  "month_length m = (if m = 2 then 29 else if m \<in> {4, 6, 9, 11} then 30 else 31)"

lemma twelve: "1 \<le> (m :: int) \<Longrightarrow> m \<le> 12 \<Longrightarrow>
    m = 1 \<or> m = 2 \<or> m = 3 \<or> m = 4 \<or> m = 5 \<or> m = 6 \<or> m = 7 \<or> m = 8 \<or> m = 9 \<or> m = 10 \<or> m = 11 \<or> m = 12"
  by presburger

lemma month_index_of:
  assumes "1 \<le> m" "m \<le> 12" "1 \<le> d" "d \<le> month_length m"
  shows "month_index (month_start m + d - 1) = (if 2 < m then m - 3 else m + 9)"
  unfolding month_index_def
proof (rule int_div_pos_eq)
  show "5 * (month_start m + d - 1) + 2 = 153 * (if 2 < m then m - 3 else m + 9) +
      (5 * (month_start m + d - 1) + 2 - 153 * (if 2 < m then m - 3 else m + 9))" by simp
  show "0 \<le> 5 * (month_start m + d - 1) + 2 - 153 * (if 2 < m then m - 3 else m + 9)"
    "5 * (month_start m + d - 1) + 2 - 153 * (if 2 < m then m - 3 else m + 9) < 153"
    using twelve[OF assms(1,2)] assms(3,4)
    by (elim disjE; simp add: month_start_def month_length_def)+
qed

lemma month_day_of:
  assumes "1 \<le> m" "m \<le> 12" "1 \<le> d" "d \<le> month_length m"
  shows "month_number (month_start m + d - 1) = m" "day_number (month_start m + d - 1) = d"
proof -
  note i = month_index_of[OF assms]
  show "month_number (month_start m + d - 1) = m"
    unfolding month_number_def i using assms(1,2) by auto
  show "day_number (month_start m + d - 1) = d"
    unfolding day_number_def i by (simp add: month_start_def)
qed

lemma month_ok_range: "month_ok m \<Longrightarrow> 1 \<le> uint m \<and> uint m \<le> 12"
  by (simp add: month_ok_def word_le_def)

lemma month_ok_cases:
  assumes "month_ok m"
  shows "m = 1 \<or> m = 2 \<or> m = 3 \<or> m = 4 \<or> m = 5 \<or> m = 6 \<or> m = 7 \<or> m = 8 \<or> m = 9 \<or> m = 10 \<or> m = 11 \<or> m = 12"
  using twelve[of "uint m"] month_ok_range[OF assms] by (simp add: word_uint_eq_iff)

lemma last_day_eq:
  assumes "month_ok m"
  shows "uint (last_day y m) = month_length (uint m) - of_bool (uint m = 2 \<and> \<not> leap (sint y))"
  using month_ok_cases[OF assms]
  by (elim disjE; simp add: last_day_def month_lengths_def month_length_def month_ok_def is_leap_eq)

section \<open>Dates and day counts\<close>

text \<open>The year from March on, and the day in it, of a date.\<close>

definition march_year :: "YearMonthDay \<Rightarrow> int" where
  "march_year x = sint (ymd_year x) - of_bool (uint (ymd_month x) \<le> 2)"

definition march_day :: "YearMonthDay \<Rightarrow> int" where
  "march_day x = month_start (uint (ymd_month x)) + uint (ymd_day x) - 1"

lemma ymd_ok_fields:
  assumes "ymd_ok x"
  shows "month_ok (ymd_month x)" "1 \<le> uint (ymd_month x)" "uint (ymd_month x) \<le> 12" "1 \<le> uint (ymd_day x)"
    "uint (ymd_day x) \<le> month_length (uint (ymd_month x)) - of_bool (uint (ymd_month x) = 2 \<and> \<not> leap (sint (ymd_year x)))"
    "uint (ymd_day x) \<le> month_length (uint (ymd_month x))"
    "- 32767 \<le> sint (ymd_year x)" "sint (ymd_year x) \<le> 32767"
proof -
  show m: "month_ok (ymd_month x)" using assms by (simp add: ymd_ok_def)
  then show "1 \<le> uint (ymd_month x)" "uint (ymd_month x) \<le> 12" using month_ok_range by blast+
  show "1 \<le> uint (ymd_day x)" using assms by (simp add: ymd_ok_def word_le_def)
  show d: "uint (ymd_day x) \<le> month_length (uint (ymd_month x)) - of_bool (uint (ymd_month x) = 2 \<and> \<not> leap (sint (ymd_year x)))"
    using assms last_day_eq[OF m, of "ymd_year x"] by (simp add: ymd_ok_def word_le_def)
  then show "uint (ymd_day x) \<le> month_length (uint (ymd_month x))" by (simp add: of_bool_def split: if_splits)
  have "- (2 ^ 15) \<le> sint (ymd_year x)" "sint (ymd_year x) < 2 ^ 15"
    using sint_greater_eq[of "ymd_year x"] sint_less[of "ymd_year x"] by simp_all
  moreover have "sint (ymd_year x) \<noteq> - 32768" using assms by (simp add: ymd_ok_def year_ok_def)
  ultimately show "- 32767 \<le> sint (ymd_year x)" "sint (ymd_year x) \<le> 32767" by simp_all
qed

lemma month_length_le: "month_length m \<le> 31"
  by (simp add: month_length_def)

lemma to_days_march: "ymd_ok x \<Longrightarrow> to_days x = days_before (march_year x) + march_day x - 719468"
  using ymd_ok_fields[of x] month_length_le[of "uint (ymd_month x)"]
  by (simp add: to_days_eq march_year_def march_day_def)

lemma march_day_bounds:
  assumes "ymd_ok x"
  shows "0 \<le> march_day x" "march_day x < 365 + of_bool (leap (march_year x + 1))"
  using twelve[OF ymd_ok_fields(2,3)[OF assms]] ymd_ok_fields(4,5)[OF assms]
  by (elim disjE; simp add: march_day_def march_year_def month_start_def month_length_def of_bool_def split: if_splits)+

lemma days_before_small: "y \<le> 32767 \<Longrightarrow> days_before y < 2 ^ 24"
  using days_before_mono[of y 32767] by (simp add: days_before_def)

lemma date_on_march: "ymd_ok x \<Longrightarrow> date_on (march_year x) (march_day x) = x"
  using month_day_of[of "uint (ymd_month x)" "uint (ymd_day x)"] ymd_ok_fields[of x]
  by (cases x) (simp add: date_on_def march_day_def march_year_def)

lemma from_days_to_days:
  assumes "ymd_ok x"
  shows "from_days (to_days x) = Some x"
proof -
  have "march_year x \<le> 32767" using ymd_ok_fields(8)[OF assms] by (simp add: march_year_def of_bool_def)
  then have "days_before (march_year x) + march_day x < 2 ^ 31"
    using days_before_small[of "march_year x"] march_day_bounds(2)[OF assms] by (simp add: of_bool_def split: if_splits)
  from from_days_eq[OF march_day_bounds[OF assms] this] show ?thesis
    by (simp add: to_days_march[OF assms] date_on_march[OF assms])
qed

section \<open>The calendar as a successor function\<close>

text \<open>The civil calendar in its everyday form: the next day of the month, the first of the next month, or New
  Year.  It is the reference for the arithmetic of the two conversions.\<close>

definition next_day :: "YearMonthDay \<Rightarrow> YearMonthDay" where
  "next_day x =
     (if ymd_day x < last_day (ymd_year x) (ymd_month x) then x\<lparr>ymd_day := ymd_day x + 1\<rparr>
      else if ymd_month x < 12 then x\<lparr>ymd_month := ymd_month x + 1, ymd_day := 1\<rparr>
      else x\<lparr>ymd_year := ymd_year x + 1, ymd_month := 1, ymd_day := 1\<rparr>)"

definition last_date :: YearMonthDay where
  "last_date = \<lparr>ymd_year = 32767, ymd_month = 12, ymd_day = 31\<rparr>"

lemma uint_Suc_u8: "uint (w :: u8) < 255 \<Longrightarrow> uint (w + 1) = uint w + 1"
  by (simp add: uint_word_ariths)

lemma sint_Suc_u16:
  assumes "sint (y :: u16) < 32767"
  shows "sint (y + 1) = sint y + 1"
proof -
  have "- (2 ^ 15) \<le> sint y + 1" "sint y + 1 < 2 ^ 15" using assms sint_greater_eq[of y] by simp_all
  then show ?thesis by (simp add: sint_word_add signed_take_bit_int_eq_self)
qed

lemma last_day_pos: "month_ok m \<Longrightarrow> 28 \<le> uint (last_day y m)"
  by (simp add: last_day_eq month_length_def)

lemma last_day_le:
  assumes "month_ok m"
  shows "uint (last_day y m) \<le> 31"
proof -
  have "uint (last_day y m) \<le> month_length (uint m)" unfolding last_day_eq[OF assms] by simp
  also have "\<dots> \<le> 31" by (rule month_length_le)
  finally show ?thesis .
qed

lemma next_day_cases:
  assumes "ymd_ok x" "x \<noteq> last_date"
  obtains (day) "next_day x = x\<lparr>ymd_day := ymd_day x + 1\<rparr>" "uint (ymd_day x + 1) = uint (ymd_day x) + 1"
      "uint (ymd_day x) < uint (last_day (ymd_year x) (ymd_month x))"
  | (month) "next_day x = x\<lparr>ymd_month := ymd_month x + 1, ymd_day := 1\<rparr>" "uint (ymd_month x) < 12"
      "uint (ymd_month x + 1) = uint (ymd_month x) + 1" "ymd_day x = last_day (ymd_year x) (ymd_month x)"
  | (year) "next_day x = x\<lparr>ymd_year := ymd_year x + 1, ymd_month := 1, ymd_day := 1\<rparr>" "uint (ymd_month x) = 12"
      "uint (ymd_day x) = 31" "sint (ymd_year x + 1) = sint (ymd_year x) + 1"
proof -
  note f = ymd_ok_fields[OF assms(1)]
  have ld: "uint (ymd_day x) \<le> uint (last_day (ymd_year x) (ymd_month x))"
    using assms(1) by (simp add: ymd_ok_def word_le_def)
  consider "uint (ymd_day x) < uint (last_day (ymd_year x) (ymd_month x))"
    | "uint (ymd_day x) = uint (last_day (ymd_year x) (ymd_month x))" "uint (ymd_month x) < 12"
    | "uint (ymd_day x) = uint (last_day (ymd_year x) (ymd_month x))" "uint (ymd_month x) = 12"
    using ld f(3) by linarith
  then show thesis
  proof cases
    case 1
    moreover have "uint (ymd_day x + 1) = uint (ymd_day x) + 1"
      using f(6) month_length_le[of "uint (ymd_month x)"] by (intro uint_Suc_u8) linarith
    ultimately show thesis by (intro day) (simp_all add: next_day_def word_less_def)
  next
    case 2
    moreover have "uint (ymd_month x + 1) = uint (ymd_month x) + 1" using 2(2) by (intro uint_Suc_u8) linarith
    ultimately show thesis by (intro month) (simp_all add: next_day_def word_less_def word_uint_eq_iff)
  next
    case 3
    have d: "uint (ymd_day x) = 31" using 3 last_day_eq[OF f(1), of "ymd_year x"] by (simp add: month_length_def)
    have "sint (ymd_year x) \<noteq> 32767"
    proof
      assume "sint (ymd_year x) = 32767"
      then have "ymd_year x = 32767" by (simp add: signed_word_eqI)
      moreover have "ymd_month x = 12" "ymd_day x = 31" using 3(2) d by (simp_all add: word_uint_eq_iff)
      ultimately show False using assms(2) by (cases x) (simp add: last_date_def)
    qed
    then have "sint (ymd_year x + 1) = sint (ymd_year x) + 1" using f(8) by (intro sint_Suc_u16) linarith
    with 3 d show thesis by (intro year) (simp_all add: next_day_def word_less_def)
  qed
qed

lemma ymd_okI:
  assumes "month_ok m" "sint y \<noteq> - 32768" "1 \<le> uint d" "uint d \<le> uint (last_day y m)"
  shows "ymd_ok \<lparr>ymd_year = y, ymd_month = m, ymd_day = d\<rparr>"
  using assms by (simp add: ymd_ok_def year_ok_def word_le_def)

lemma month_okI: "1 \<le> uint m \<Longrightarrow> uint m \<le> 12 \<Longrightarrow> month_ok m"
  by (simp add: month_ok_def word_le_def)

lemma next_day_ok:
  assumes "ymd_ok x" "x \<noteq> last_date"
  shows "ymd_ok (next_day x)"
  using assms
proof (cases rule: next_day_cases)
  case day
  then show ?thesis using ymd_ok_fields[OF assms(1)] by (cases x) (simp add: ymd_okI)
next
  case month
  have "month_ok (ymd_month x + 1)"
    using month(2,3) ymd_ok_fields(2)[OF assms(1)] by (intro month_okI) simp_all
  then show ?thesis
    using month(1) ymd_ok_fields(7)[OF assms(1)] last_day_pos[of "ymd_month x + 1" "ymd_year x"]
    by (cases x) (simp add: ymd_okI)
next
  case year
  then show ?thesis
    using ymd_ok_fields(7)[OF assms(1)] last_day_pos[of 1 "ymd_year x + 1"]
    by (cases x) (simp add: ymd_okI month_ok_def)
qed

lemma to_days_next:
  assumes "ymd_ok x" "x \<noteq> last_date"
  shows "to_days (next_day x) = to_days x + 1"
  using assms
proof (cases rule: next_day_cases)
  case day
  then show ?thesis using to_days_march[OF assms(1)] to_days_march[OF next_day_ok[OF assms]]
    by (simp add: march_year_def march_day_def)
next
  case year
  then show ?thesis using to_days_march[OF assms(1)] to_days_march[OF next_day_ok[OF assms]]
    by (simp add: march_year_def march_day_def month_start_def)
next
  case month
  note f = ymd_ok_fields[OF assms(1)]
  have d: "uint (ymd_day x) = month_length (uint (ymd_month x)) - of_bool (uint (ymd_month x) = 2 \<and> \<not> leap (sint (ymd_year x)))"
    using month(4) last_day_eq[OF f(1), of "ymd_year x"] by simp
  have step: "days_before (sint (ymd_year x)) = days_before (sint (ymd_year x) - 1) + 365 + of_bool (leap (sint (ymd_year x)))"
    using days_before_step[of "sint (ymd_year x) - 1"] by simp
  show ?thesis
    using to_days_march[OF assms(1)] to_days_march[OF next_day_ok[OF assms]] twelve[OF f(2,3)] d step month(1-3)
    by (elim disjE; simp add: march_year_def march_day_def month_start_def month_length_def)
qed

definition epoch :: YearMonthDay where
  "epoch = \<lparr>ymd_year = 1970, ymd_month = 1, ymd_day = 1\<rparr>"

lemma epoch_facts: "ymd_ok epoch" "to_days epoch = 0"
  by (simp_all add: epoch_def ymd_ok_def year_ok_def month_ok_def last_day_def is_leap_def month_lengths_def
      to_days_eq days_before_def month_start_def smod_int_alt_def sint_uint)

lemma last_date_facts: "ymd_ok last_date" "to_days last_date = 11248737"
  by (simp_all add: last_date_def ymd_ok_def year_ok_def month_ok_def last_day_def month_lengths_def
      to_days_eq days_before_def month_start_def sint_uint)

definition first_date :: YearMonthDay where
  "first_date = \<lparr>ymd_year = - 32767, ymd_month = 1, ymd_day = 1\<rparr>"

lemma first_date_facts: "ymd_ok first_date" "to_days first_date = - 12687428"
  by (simp_all add: first_date_def ymd_ok_def year_ok_def month_ok_def last_day_def month_lengths_def
      to_days_eq days_before_def month_start_def sint_uint)

lemma counted_days:
  assumes "ymd_ok s"
  shows "to_days s + int k \<le> to_days last_date \<Longrightarrow>
    ymd_ok ((next_day ^^ k) s) \<and> to_days ((next_day ^^ k) s) = to_days s + int k"
proof (induction k)
  case 0
  then show ?case using assms by simp
next
  case (Suc k)
  then have ih: "ymd_ok ((next_day ^^ k) s)" "to_days ((next_day ^^ k) s) = to_days s + int k" by simp_all
  moreover have "(next_day ^^ k) s \<noteq> last_date"
    using ih(2) Suc.prems by auto
  ultimately show ?case
    using next_day_ok to_days_next by simp
qed

text \<open>C37: the day count is the calendar.  From the epoch to the last date a \<open>year\<close> can hold, the date that
  \<open>from_days\<close> computes with divisions by 1460, 36524, 146096 and 153 for a day count is the date reached by
  counting that many days one by one, months and leap years by their rules.\<close>

theorem from_days_counts:
  assumes "0 \<le> z" "z \<le> 11248737"
  shows "from_days z = Some ((next_day ^^ nat z) epoch)"
  using counted_days[OF epoch_facts(1), of "nat z"] from_days_to_days[of "(next_day ^^ nat z) epoch"] assms
  by (simp add: last_date_facts epoch_facts)

theorem from_days_counts_witness: "from_days 60 = Some ((next_day ^^ 60) epoch)"
  using from_days_counts[of 60] by simp

lemma date_of_days:
  assumes "- 12687428 \<le> z" "z \<le> 11248737"
  obtains x where "from_days z = Some x" "ymd_ok x" "to_days x = z"
proof -
  let ?x = "(next_day ^^ nat (z + 12687428)) first_date"
  have x: "ymd_ok ?x" "to_days ?x = z"
    using counted_days[OF first_date_facts(1), of "nat (z + 12687428)"] assms
    by (simp_all add: first_date_facts last_date_facts)
  with from_days_to_days[of ?x] show thesis by (intro that[of ?x]) simp_all
qed

lemma march_date_less:
  assumes x: "ymd_ok x" and y: "ymd_ok y"
    and less: "march_year x < march_year y \<or> march_year x = march_year y \<and> march_day x < march_day y"
  shows "to_days x < to_days y"
proof (cases "march_year x < march_year y")
  case True
  then have "days_before (march_year x + 1) \<le> days_before (march_year y)" by (intro days_before_mono) simp
  then show ?thesis
    using to_days_march[OF x] to_days_march[OF y] march_day_bounds[OF x] march_day_bounds[OF y]
      days_before_step[of "march_year x"] by linarith
next
  case False
  then show ?thesis using less to_days_march[OF x] to_days_march[OF y] by simp
qed

lemma month_start_mono:
  assumes "ymd_ok x" "ymd_ok y" "uint (ymd_month x) < uint (ymd_month y)"
    "uint (ymd_month x) \<le> 2 \<longleftrightarrow> uint (ymd_month y) \<le> 2"
  shows "march_day x < march_day y"
  using twelve[OF ymd_ok_fields(2,3)[OF assms(1)]] twelve[OF ymd_ok_fields(2,3)[OF assms(2)]]
    ymd_ok_fields(4,6)[OF assms(1)] ymd_ok_fields(4)[OF assms(2)] assms(3,4)
  by (elim disjE; simp add: march_day_def month_start_def month_length_def)

lemma ymd_less_days:
  assumes "ymd_ok x" "ymd_ok y" "ymd_less x y"
  shows "to_days x < to_days y"
proof (rule march_date_less[OF assms(1,2)])
  note fx = ymd_ok_fields[OF assms(1)] and fy = ymd_ok_fields[OF assms(2)]
  let ?mx = "uint (ymd_month x)" and ?my = "uint (ymd_month y)"
  have late: "march_day z \<le> 305" if "ymd_ok z" "2 < uint (ymd_month z)" for z
    using twelve[OF ymd_ok_fields(2,3)[OF that(1)]] ymd_ok_fields(6)[OF that(1)] that(2)
    by (elim disjE; simp add: march_day_def month_start_def month_length_def)
  have early: "306 \<le> march_day z" if "ymd_ok z" "uint (ymd_month z) \<le> 2" for z
    using twelve[OF ymd_ok_fields(2,3)[OF that(1)]] ymd_ok_fields(4)[OF that(1)] that(2)
    by (elim disjE; simp add: march_day_def month_start_def)
  from assms(3) consider "sint (ymd_year x) < sint (ymd_year y)"
    | "sint (ymd_year x) = sint (ymd_year y)" "?mx < ?my"
    | "sint (ymd_year x) = sint (ymd_year y)" "?mx = ?my" "uint (ymd_day x) < uint (ymd_day y)"
    by (auto simp: ymd_less_def word_less_def split: if_splits)
  then show "march_year x < march_year y \<or> march_year x = march_year y \<and> march_day x < march_day y"
  proof cases
    case 1
    then show ?thesis using late[OF assms(1)] early[OF assms(2)]
      by (cases "?mx \<le> 2"; cases "?my \<le> 2"; cases "sint (ymd_year x) + 1 = sint (ymd_year y)")
        (simp_all add: march_year_def)
  next
    case 2
    then show ?thesis using month_start_mono[OF assms(1,2)]
      by (cases "?mx \<le> 2"; cases "?my \<le> 2") (simp_all add: march_year_def)
  next
    case 3
    then show ?thesis by (simp add: march_year_def march_day_def)
  qed
qed

text \<open>C38: dates and day counts are the same thing.  Every valid date, before the epoch as well, is the date of
  its day count; and dates compare as their day counts do.\<close>

theorem dates_are_days:
  assumes "ymd_ok x" "ymd_ok y"
  shows "from_days (to_days x) = Some x \<and> (ymd_less x y \<longleftrightarrow> to_days x < to_days y)"
proof -
  have eq: "a = b" if "sint a = sint b" for a b :: u16 using that by (rule signed_word_eqI)
  have "x = y \<or> ymd_less x y \<or> ymd_less y x"
    by (cases x; cases y) (auto simp: ymd_less_def intro: eq)
  then have "ymd_less x y \<longleftrightarrow> to_days x < to_days y"
    using ymd_less_days[OF assms] ymd_less_days[OF assms(2,1)] by (auto simp: ymd_less_def)
  with from_days_to_days[OF assms(1)] show ?thesis by blast
qed

text \<open>Leap day 2020 and the last day of 1969.\<close>

theorem dates_are_days_witness:
  "from_days (to_days \<lparr>ymd_year = 2020, ymd_month = 2, ymd_day = 29\<rparr>) =
     Some \<lparr>ymd_year = 2020, ymd_month = 2, ymd_day = 29\<rparr> \<and>
   to_days \<lparr>ymd_year = 1969, ymd_month = 12, ymd_day = 31\<rparr> < to_days \<lparr>ymd_year = 2020, ymd_month = 2, ymd_day = 29\<rparr>"
proof -
  let ?x = "\<lparr>ymd_year = 2020, ymd_month = 2, ymd_day = 29\<rparr>" and ?y = "\<lparr>ymd_year = 1969, ymd_month = 12, ymd_day = 31\<rparr>"
  have "ymd_ok ?x" "ymd_ok ?y"
    by (simp_all add: ymd_ok_def year_ok_def month_ok_def last_day_def month_lengths_def is_leap_def sint_uint
        smod_int_alt_def)
  moreover have "ymd_less ?y ?x" by (simp add: ymd_less_def sint_uint)
  ultimately show ?thesis using dates_are_days[of ?x ?x] dates_are_days[of ?y ?x] by blast
qed

section \<open>Weekdays of day counts\<close>

lemma weekday_from_days_eq:
  assumes "- (2 ^ 31) \<le> z" "z < 2 ^ 31"
  shows "weekday_from_days z = word_of_int ((z + 4) mod 7)"
proof (cases "- 4 \<le> z")
  case True
  have "(word_of_int z :: u32) + 4 = word_of_int (z + 4)" by simp
  moreover have "uint (word_of_int (z + 4) :: u32) = z + 4" using True assms by (intro uint_w32) simp_all
  ultimately have "uint (((word_of_int z :: u32) + 4) mod 7) = (z + 4) mod 7"
    by (simp only: uint_mod) simp
  then have "((word_of_int z :: u32) + 4) mod 7 = word_of_int ((z + 4) mod 7)" by (rule w32_eqI)
  moreover have "(ucast (word_of_int ((z + 4) mod 7) :: u32) :: u8) = word_of_int ((z + 4) mod 7)"
    by (rule ucast_w32) (simp_all add: less_trans[OF pos_mod_bound])
  ultimately show ?thesis
    by (simp only: weekday_from_days_def Let_def True if_True)
next
  case False
  have u: "uint (word_of_int z :: u32) = z + 2 ^ 32"
  proof -
    have "uint (word_of_int z :: u32) = uint (word_of_int (z + 2 ^ 32) :: u32)"
      by (simp only: unsigned_of_int take_bit_eq_mod) simp
    also have "\<dots> = z + 2 ^ 32" using False assms by (intro uint_w32) simp_all
    finally show ?thesis .
  qed
  have "(z + 2 ^ 32) mod 7 = (z + 4) mod 7"
    by (simp add: mod_eq_dvd_iff)
  then have "uint ((word_of_int z :: u32) mod 7) = (z + 4) mod 7"
    by (simp only: uint_mod u) simp
  then have "(word_of_int z :: u32) mod 7 = word_of_int ((z + 4) mod 7)" by (rule w32_eqI)
  moreover have "(ucast (word_of_int ((z + 4) mod 7) :: u32) :: u8) = word_of_int ((z + 4) mod 7)"
    by (rule ucast_w32) (simp_all add: less_trans[OF pos_mod_bound])
  ultimately show ?thesis
    using False by (simp only: weekday_from_days_def Let_def if_False)
qed

lemma floored_mod: "0 < k \<Longrightarrow> j = k - 1 \<Longrightarrow> (x :: int) - (if 0 \<le> x then x else x - j) sdiv k * k = x mod k"
  by (simp only: sdiv_floor minus_div_mult_eq_mod)

lemma weekday_minus_eq: "weekday_minus x y = (uint x - uint y) mod 7"
  unfolding weekday_minus_def Let_def by (rule floored_mod) simp_all

lemma weekday_plus_eq: "weekday_plus x n = word_of_int ((uint x + n) mod 7)"
proof -
  let ?r = "(uint x + n) mod 7"
  have r: "0 \<le> ?r" "?r < 7" by simp_all
  then have r32: "?r < 2 ^ 32" by simp
  have "uint (word_of_int ?r :: u32) = ?r" using r(1) r32 by (rule uint_w32)
  then have "(word_of_int ?r :: u32) \<noteq> 7" using r(2) by (simp add: word_uint_eq_iff)
  moreover have "(ucast (word_of_int ?r :: u32) :: u8) = word_of_int ?r" using r(1) r32 by (rule ucast_w32)
  moreover have "uint x + n - (if 0 \<le> uint x + n then uint x + n else uint x + n - 6) sdiv 7 * 7 = ?r"
    by (rule floored_mod) simp_all
  ultimately show ?thesis
    by (simp only: weekday_plus_def weekday_of_def Let_def if_True simp_thms)
qed

lemma uint_u8_mod7: "uint (word_of_int (a mod 7) :: u8) = a mod 7"
proof -
  have "0 \<le> a mod 7" "a mod 7 < 2 ^ 8" by (simp_all add: less_trans[OF pos_mod_bound])
  then show ?thesis by (rule uint_w8)
qed

text \<open>Weekdays follow the days.  For all 32-bit day counts, on both sides of the branch at -4 where the
  unsigned remainder changes its formula, the weekday \<open>n\<close> days later is the weekday plus \<open>n\<close>; the epoch is a
  Thursday; and the difference of two weekdays is the number of days, below seven, from one to the other.\<close>

theorem weekdays_follow_days:
  assumes "- (2 ^ 31) \<le> z" "z < 2 ^ 31" "- (2 ^ 31) \<le> z + n" "z + n < 2 ^ 31" "weekday_ok x" "weekday_ok y"
  shows "weekday_from_days (z + n) = weekday_plus (weekday_from_days z) n \<and> weekday_from_days 0 = 4 \<and>
    weekday_plus x (weekday_minus y x) = y \<and> 0 \<le> weekday_minus y x \<and> weekday_minus y x < 7"
proof -
  have "weekday_from_days (z + n) = word_of_int ((z + n + 4) mod 7)"
    using assms(3,4) by (rule weekday_from_days_eq)
  also have "(z + n + 4) mod 7 = ((z + 4) mod 7 + n) mod 7"
    using mod_add_left_eq[of "z + 4" 7 n] by (simp add: ac_simps)
  also have "word_of_int \<dots> = weekday_plus (weekday_from_days z) n"
    by (simp only: weekday_plus_eq weekday_from_days_eq[OF assms(1,2)] uint_u8_mod7)
  finally have 1: "weekday_from_days (z + n) = weekday_plus (weekday_from_days z) n" .
  have "(uint x + (uint y - uint x) mod 7) mod 7 = uint y"
    using assms(6) by (simp add: mod_add_right_eq weekday_ok_def word_le_def)
  then have "weekday_plus x (weekday_minus y x) = word_of_int (uint y)"
    by (simp only: weekday_plus_eq weekday_minus_eq)
  moreover have "weekday_from_days 0 = 4" using weekday_from_days_eq[of 0] by simp
  ultimately show ?thesis using 1 by (simp add: weekday_minus_eq)
qed

theorem weekdays_follow_days_witness:
  "weekday_from_days (- 3) = weekday_plus (weekday_from_days (- 10)) 7 \<and> weekday_plus 6 (weekday_minus 1 6) = 1"
  using weekdays_follow_days[of "- 10" 7 6 1] by (simp add: weekday_ok_def)

section \<open>Months as numbers\<close>

text \<open>Months counted from the year 0.\<close>

definition month_count :: "year_month \<Rightarrow> int" where
  "month_count ym = 12 * sint (fst ym) + uint (snd ym) - 1"

lemma u8_month:
  assumes "1 \<le> m" "m \<le> 12"
  shows "uint (month_of (word_of_int m)) = m"
proof -
  have "(ucast (word_of_int m :: u32) :: u8) = word_of_int m" using assms by (intro ucast_w32) simp_all
  then have "uint (month_of (word_of_int m)) = uint (word_of_int m :: u8)" by (simp only: month_of_def)
  also have "\<dots> = m" using assms by (simp add: unsigned_of_int take_bit_int_eq_self)
  finally show ?thesis .
qed

lemma sint_of_year: "- 32768 \<le> v \<Longrightarrow> v \<le> 32767 \<Longrightarrow> sint (word_of_int v :: u16) = v"
  by (simp add: signed_of_int signed_take_bit_int_eq_self)

lemma year_month_plus_count:
  assumes "- 32768 \<le> (month_count x + n) div 12" "(month_count x + n) div 12 \<le> 32767"
  shows "month_count (year_month_plus x n) = month_count x + n" "month_ok (snd (year_month_plus x n))"
proof -
  obtain yr m where x: "x = (yr, m)" by (cases x)
  define t where "t = uint m - 1 + n"
  have plus: "year_month_plus x n = (year_of (sint yr + t div 12), month_of (word_of_int (t mod 12 + 1)))"
  proof -
    have "(if 0 \<le> t then t else t - 11) sdiv 12 = t div 12" by (rule sdiv_floor) simp_all
    moreover have "t - t div 12 * 12 + 1 = t mod 12 + 1" by (simp add: minus_div_mult_eq_mod)
    ultimately show ?thesis by (simp only: year_month_plus_def x case_prod_conv Let_def flip: t_def)
  qed
  have "1 \<le> t mod 12 + 1" "t mod 12 + 1 \<le> 12" using pos_mod_bound[of 12 t] by simp_all
  then have m1: "uint (month_of (word_of_int (t mod 12 + 1))) = t mod 12 + 1" by (rule u8_month)
  have "(month_count x + n) div 12 = sint yr + t div 12"
    using div_mult_self3[of 12 "sint yr" t] by (simp add: month_count_def x t_def ac_simps)
  then have yr: "sint (year_of (sint yr + t div 12)) = sint yr + t div 12"
    using assms unfolding year_of_def by (intro sint_of_year) simp_all
  have "month_count (year_month_plus x n) = 12 * (sint yr + t div 12) + (t mod 12 + 1) - 1"
    by (simp only: plus month_count_def fst_conv snd_conv m1 yr)
  also have "\<dots> = 12 * sint yr + t" using mult_div_mod_eq[of 12 t] by (simp add: distrib_left)
  also have "\<dots> = month_count x + n" by (simp add: month_count_def x t_def)
  finally show "month_count (year_month_plus x n) = month_count x + n" .
  show "month_ok (snd (year_month_plus x n))"
    using m1 pos_mod_bound[of 12 t] by (intro month_okI) (simp_all add: plus)
qed

lemma year_month_minus_count:
  assumes "month_ok (snd x)" "month_ok (snd y)"
  shows "year_month_minus x y = month_count x - month_count y"
proof -
  obtain yr m where x: "x = (yr, m)" by (cases x)
  obtain yr' m' where y: "y = (yr', m')" by (cases y)
  have r: "1 \<le> uint m" "uint m \<le> 12" "1 \<le> uint m'" "uint m' \<le> 12"
    using month_ok_range[of m] month_ok_range[of m'] assms by (simp_all add: x y)
  have "(ucast m - ucast m' :: u32) = word_of_int (uint m - uint m')"
    by (simp only: ucast_eq of_int_diff)
  moreover have "sint (word_of_int (uint m - uint m') :: u32) = uint m - uint m'" using r by (intro w32_sint) simp_all
  ultimately have "sint (ucast m - ucast m' :: u32) = uint m - uint m'" by (simp only:)
  then show ?thesis by (simp add: year_month_minus_def x y month_count_def)
qed

text \<open>C40: \<open>year_month\<close> arithmetic refines the arithmetic of month counts: adding months adds to the count, as long
  as the year stays in a \<open>short\<close>, the result is a valid month, and the difference of two is the difference of
  their counts.\<close>

theorem year_month_refines:
  assumes "month_ok (snd x)" "month_ok (snd y)" "- 32768 \<le> (month_count x + n) div 12" "(month_count x + n) div 12 \<le> 32767"
  shows "month_count (year_month_plus x n) = month_count x + n \<and> month_ok (snd (year_month_plus x n)) \<and>
    year_month_minus x y = month_count x - month_count y"
  using year_month_plus_count[OF assms(3,4)] year_month_minus_count[OF assms(1,2)] by simp

theorem year_month_refines_witness:
  "month_count (year_month_plus (2020, 1) (- 1)) = month_count (2020, 1) - 1 \<and>
   year_month_minus (2020, 1) (2019, 11) = 2"
proof -
  have "month_count (2020, 1) = 24240" "month_count (2019, 11) = 24238" by (simp_all add: month_count_def sint_uint)
  then show ?thesis using year_month_refines[of "(2020, 1)" "(2019, 11)" "- 1"] by (simp add: month_ok_def)
qed

section \<open>N-th weekdays\<close>

lemma first_of_ok: "month_ok m \<Longrightarrow> year_ok y \<Longrightarrow> ymd_ok \<lparr>ymd_year = y, ymd_month = m, ymd_day = 1\<rparr>"
  using last_day_pos[of m y] by (simp add: ymd_ok_def word_le_def)

lemma to_days_in_month:
  assumes "ymd_ok x"
  shows "to_days x = first_of (ymd_year x) (ymd_month x) + uint (ymd_day x) - 1"
proof -
  have "ymd_ok \<lparr>ymd_year = ymd_year x, ymd_month = ymd_month x, ymd_day = 1\<rparr>"
    using assms ymd_ok_fields(1)[OF assms] by (intro first_of_ok) (simp_all add: ymd_ok_def)
  then show ?thesis
    using to_days_march[OF assms] by (simp add: first_of_def to_days_march march_year_def march_day_def)
qed

lemma to_days_range:
  assumes "ymd_ok x"
  shows "- (2 ^ 31) \<le> to_days x" "to_days x < 2 ^ 31"
proof -
  have m: "- 32768 \<le> march_year x" "march_year x \<le> 32767"
    using ymd_ok_fields(7,8)[OF assms] by (simp_all add: march_year_def of_bool_def)
  have "days_before (- 32768) = - 11968266" by (simp add: days_before_def)
  then have "- 11968266 \<le> days_before (march_year x)" using days_before_mono[OF m(1)] by simp
  moreover have "days_before (march_year x) < 2 ^ 24" using m(2) by (rule days_before_small)
  moreover have "march_day x \<le> 366"
    using march_day_bounds(2)[OF assms] by (simp add: of_bool_def split: if_splits)
  ultimately show "- (2 ^ 31) \<le> to_days x" "to_days x < 2 ^ 31"
    using to_days_march[OF assms] march_day_bounds(1)[OF assms] by simp_all
qed

text \<open>The weekday of a day a number of days after the first of its month.\<close>

lemma weekday_offset:
  assumes "- (2 ^ 31) \<le> f" "f < 2 ^ 31" "- (2 ^ 31) \<le> f + n" "f + n < 2 ^ 31"
  shows "weekday_minus (weekday_from_days (f + n)) (weekday_from_days f) = n mod 7"
proof -
  have "weekday_minus (weekday_from_days (f + n)) (weekday_from_days f) = ((f + n + 4) mod 7 - (f + 4) mod 7) mod 7"
    by (simp only: weekday_minus_eq weekday_from_days_eq[OF assms(1,2)] weekday_from_days_eq[OF assms(3,4)] uint_u8_mod7)
  also have "\<dots> = ((f + n + 4) - (f + 4)) mod 7" by (rule mod_diff_eq)
  finally show ?thesis by simp
qed

lemma uint_ucast_small:
  assumes "0 \<le> k" "k < 16"
  shows "uint (ucast (word_of_int k :: u32) :: 4 word) = k" "uint (ucast (word_of_int k :: u8) :: 4 word) = k"
  using assms by (simp_all add: unsigned_ucast_eq unsigned_of_int take_bit_int_eq_self)

lemma weeks_eq:
  assumes "1 \<le> uint (ymw_index x)"
  shows "sint (ymw_weeks x) = (uint (ymw_index x) - 1) * 7" "sint (ymw_weeks x + 1) = (uint (ymw_index x) - 1) * 7 + 1"
proof -
  have b: "uint (ymw_index x) < 16" using uint_bounded[of "ymw_index x"] by simp
  have "ymw_weeks x = word_of_int ((uint (ymw_index x) - 1) * 7)"
    unfolding ymw_weeks_def ucast_eq by simp
  moreover from this have "ymw_weeks x + 1 = word_of_int ((uint (ymw_index x) - 1) * 7 + 1)" by simp
  ultimately show "sint (ymw_weeks x) = (uint (ymw_index x) - 1) * 7" "sint (ymw_weeks x + 1) = (uint (ymw_index x) - 1) * 7 + 1"
    using assms b w32_sint[of "(uint (ymw_index x) - 1) * 7"] w32_sint[of "(uint (ymw_index x) - 1) * 7 + 1"]
    by simp_all
qed

lemma weekday_of_small:
  assumes "uint (w :: 4 word) < 7"
  shows "uint (weekday_of (ucast w)) = uint w"
proof -
  have u: "(ucast w :: u32) = word_of_int (uint w)" by (rule ucast_eq)
  have "uint (word_of_int (uint w) :: u32) = uint w" using assms by (intro uint_w32) simp_all
  then have "uint (ucast w :: u32) = uint w" by (simp only: u)
  then have "(ucast w :: u32) \<noteq> 7" using assms by auto
  moreover have "(ucast (ucast w :: u32) :: u8) = word_of_int (uint w)"
    unfolding u using assms by (intro ucast_w32) simp_all
  moreover have "uint w mod 7 = uint w" using assms by simp
  then have "uint (word_of_int (uint w) :: u8) = uint w"
    using uint_u8_mod7[of "uint w"] by (simp only:)
  ultimately show ?thesis by (simp only: weekday_of_def if_True simp_thms)
qed

lemma index_of_day:
  assumes "1 \<le> uint (d :: u8)" "uint d \<le> 31"
  shows "uint (ucast ((ucast d - 1) div 7 + 1 :: u32) :: 4 word) = (uint d - 1) div 7 + 1"
proof -
  have "(ucast d - 1 :: u32) = word_of_int (uint d - 1)" unfolding ucast_eq by simp
  then have "((ucast d - 1) div 7 + 1 :: u32) = word_of_int ((uint d - 1) div 7 + 1)"
    using w32_div[of "uint d - 1" 7] assms by simp
  then show ?thesis using assms uint_ucast_small(1)[of "(uint d - 1) div 7 + 1"] by simp
qed

text \<open>The date of the n-th weekday is the weekday's first day in the month and the weeks after it.\<close>

definition nth_offset :: "YearMonthWeekday \<Rightarrow> int" where
  "nth_offset x = weekday_minus (ymw_weekday x) (weekday_from_days (first_of (ymw_year x) (ymw_month x))) +
     (uint (ymw_index x) - 1) * 7"

lemma ymw_ok_iff:
  assumes "uint (ymw_wd x) < 7"
  shows "ymw_ok x \<longleftrightarrow> year_ok (ymw_year x) \<and> month_ok (ymw_month x) \<and> 1 \<le> uint (ymw_index x) \<and>
    nth_offset x + 1 \<le> uint (last_day (ymw_year x) (ymw_month x))"
proof (cases "year_ok (ymw_year x) \<and> month_ok (ymw_month x) \<and> 1 \<le> uint (ymw_index x)")
  case True
  let ?last = "last_day (ymw_year x) (ymw_month x)"
  let ?m = "weekday_minus (ymw_weekday x) (weekday_from_days (first_of (ymw_year x) (ymw_month x)))"
  have m: "0 \<le> ?m" "?m \<le> 6" using pos_mod_bound[of 7] by (simp_all add: weekday_minus_eq flip: zle_add1_eq_le)
  have wd: "weekday_ok (ymw_weekday x)"
    using weekday_of_small[OF assms] assms by (simp add: weekday_ok_def word_le_def ymw_weekday_def)
  have i: "uint (ymw_index x) < 16" using uint_bounded[of "ymw_index x"] by simp
  have l: "28 \<le> uint ?last" using True last_day_pos by blast
  have "(word_of_int (?m + sint (ymw_weeks x + 1)) :: u32) \<le> ucast ?last \<longleftrightarrow> nth_offset x + 1 \<le> uint ?last"
  proof -
    have "uint (word_of_int (nth_offset x + 1) :: u32) = nth_offset x + 1"
      using m i True by (intro uint_w32) (simp_all add: nth_offset_def)
    moreover have "uint (ucast ?last :: u32) = uint ?last"
      unfolding w32_ucast using uint_bounded[of ?last] by (intro uint_w32) simp_all
    moreover have "?m + sint (ymw_weeks x + 1) = nth_offset x + 1"
      using weeks_eq(2)[of x] True by (simp add: nth_offset_def)
    ultimately show ?thesis by (simp only: word_le_def)
  qed
  moreover have "ymw_index x \<le> 4 \<Longrightarrow> nth_offset x + 1 \<le> uint ?last"
    using m l by (simp add: nth_offset_def word_le_def)
  moreover have "\<not> ymw_index x < 1" using True by (simp add: word_less_def)
  ultimately show ?thesis using True wd by (simp add: ymw_ok_def Let_def)
next
  case False
  then show ?thesis by (auto simp: ymw_ok_def word_less_def)
qed

lemma ymw_to_days_eq:
  "1 \<le> uint (ymw_index x) \<Longrightarrow> ymw_to_days x = first_of (ymw_year x) (ymw_month x) + nth_offset x"
  by (simp add: ymw_to_days_def Let_def nth_offset_def weeks_eq)

lemma ymw_from_date:
  assumes "ymd_ok x"
  obtains w where "ymw_from_days (to_days x) = Some w" "ymw_year w = ymd_year x" "ymw_month w = ymd_month x"
    "uint (ymw_wd w) < 7" "ymw_weekday w = weekday_from_days (to_days x)" "uint (ymw_index w) = (uint (ymd_day x) - 1) div 7 + 1"
proof -
  let ?w = "\<lparr>ymw_year = ymd_year x, ymw_month = ymd_month x, ymw_wd = ucast (weekday_from_days (to_days x)),
    ymw_index = ucast ((ucast (ymd_day x) - 1) div 7 + 1 :: u32)\<rparr>"
  let ?k = "(to_days x + 4) mod 7"
  have k: "0 \<le> ?k" "?k < 7" by simp_all
  have d: "1 \<le> uint (ymd_day x)" "uint (ymd_day x) \<le> 31"
    using ymd_ok_fields(4,6)[OF assms] month_length_le[of "uint (ymd_month x)"] by linarith+
  have wd: "weekday_from_days (to_days x) = word_of_int ?k"
    using to_days_range[OF assms] by (rule weekday_from_days_eq)
  have "uint (ymw_wd ?w) = ?k" using uint_ucast_small(2)[of ?k] k by (simp add: wd)
  then have w7: "uint (ymw_wd ?w) < 7" "uint (weekday_of (ucast (ymw_wd ?w))) = ?k"
    using weekday_of_small[of "ymw_wd ?w"] k by simp_all
  have "uint (weekday_from_days (to_days x)) = ?k" unfolding wd by (rule uint_u8_mod7)
  with w7(2) have "ymw_weekday ?w = weekday_from_days (to_days x)"
    unfolding ymw_weekday_def by (simp only: word_uint_eq_iff)
  then show thesis
    using w7(1) index_of_day[OF d] by (intro that[of ?w]) (simp_all add: ymw_from_days_def from_days_to_days[OF assms])
qed

lemma nth_offset_date:
  assumes "ymd_ok x" "ymw_year w = ymd_year x" "ymw_month w = ymd_month x"
    and "ymw_weekday w = weekday_from_days (to_days x)" "uint (ymw_index w) = (uint (ymd_day x) - 1) div 7 + 1"
  shows "nth_offset w = uint (ymd_day x) - 1"
proof -
  let ?f = "first_of (ymd_year x) (ymd_month x)" and ?n = "uint (ymd_day x) - 1"
  have ok: "ymd_ok \<lparr>ymd_year = ymd_year x, ymd_month = ymd_month x, ymd_day = 1\<rparr>"
    using assms(1) ymd_ok_fields(1)[OF assms(1)] by (intro first_of_ok) (simp_all add: ymd_ok_def)
  have t: "to_days x = ?f + ?n" using to_days_in_month[OF assms(1)] by simp
  have "weekday_minus (weekday_from_days (?f + ?n)) (weekday_from_days ?f) = ?n mod 7"
    using to_days_range[OF ok] to_days_range[OF assms(1)] unfolding t
    by (intro weekday_offset) (simp_all add: first_of_def)
  then show ?thesis
    using mult_div_mod_eq[of 7 ?n] by (simp add: nth_offset_def assms(2-5) t)
qed

lemma day_described:
  assumes "- 12687428 \<le> d" "d \<le> 11248737"
  shows "\<exists>w. ymw_from_days d = Some w \<and> ymw_ok w \<and> ymw_to_days w = d"
proof -
  obtain a where a: "ymd_ok a" "to_days a = d" using date_of_days[OF assms(1,2)] by blast
  obtain w where w: "ymw_from_days (to_days a) = Some w" "ymw_year w = ymd_year a" "ymw_month w = ymd_month a"
      "uint (ymw_wd w) < 7" "ymw_weekday w = weekday_from_days (to_days a)" "uint (ymw_index w) = (uint (ymd_day a) - 1) div 7 + 1"
    using ymw_from_date[OF a(1)] by blast
  note off = nth_offset_date[OF a(1) w(2,3,5,6)]
  have i: "1 \<le> uint (ymw_index w)" using w(6) ymd_ok_fields(4)[OF a(1)] by simp
  have "ymw_ok w"
    using a(1) i off by (simp add: ymw_ok_iff[OF w(4)] w(2,3) ymd_ok_def word_le_def)
  moreover have "ymw_to_days w = to_days a"
    using ymw_to_days_eq[OF i] to_days_in_month[OF a(1)] by (simp add: w(2,3) off)
  ultimately show "\<exists>w. ymw_from_days d = Some w \<and> ymw_ok w \<and> ymw_to_days w = d"
    using w(1) a(2) by blast
qed

lemma description_described:
  assumes "ymw_ok x" "uint (ymw_wd x) < 7"
  shows "ymw_from_days (ymw_to_days x) = Some x"
proof -
  note x = assms(1)[unfolded ymw_ok_iff[OF assms(2)]]
  let ?o = "nth_offset x" and ?f = "first_of (ymw_year x) (ymw_month x)"
  let ?m = "weekday_minus (ymw_weekday x) (weekday_from_days ?f)"
  have m: "0 \<le> ?m" "?m < 7" by (simp_all add: weekday_minus_eq)
  have o: "0 \<le> ?o" "?o div 7 + 1 = uint (ymw_index x)"
    using m x by (simp_all add: nth_offset_def)
  have "?o mod 7 = ?m mod 7" unfolding nth_offset_def by (rule mod_mult_self1)
  then have o7: "?o mod 7 = ?m" using m by simp
  have l: "uint (last_day (ymw_year x) (ymw_month x)) \<le> 31"
    using x by (intro last_day_le) simp
  let ?a = "\<lparr>ymd_year = ymw_year x, ymd_month = ymw_month x, ymd_day = word_of_int (?o + 1)\<rparr>"
  have d: "uint (ymd_day ?a) = ?o + 1"
  proof -
    have "0 \<le> ?o + 1" "?o + 1 < 2 ^ 8" using o(1) x l by simp_all
    then have "uint (word_of_int (?o + 1) :: u8) = ?o + 1" by (rule uint_w8)
    then show ?thesis by (simp only: YearMonthDay.simps)
  qed
  have ok: "ymd_ok ?a" using x d o(1) by (simp add: ymd_ok_def word_le_def)
  have t: "to_days ?a = ?f + ?o" using to_days_in_month[OF ok] d by simp
  obtain w where w: "ymw_from_days (to_days ?a) = Some w" "ymw_year w = ymw_year x" "ymw_month w = ymw_month x"
      "uint (ymw_wd w) < 7" "ymw_weekday w = weekday_from_days (to_days ?a)" "uint (ymw_index w) = (uint (ymd_day ?a) - 1) div 7 + 1"
    using ymw_from_date[OF ok] by auto
  have "ymw_index w = ymw_index x" using w(6) o(2) d by (simp add: word_uint_eq_iff)
  moreover have "ymw_wd w = ymw_wd x"
  proof -
    have f: "ymd_ok \<lparr>ymd_year = ymw_year x, ymd_month = ymw_month x, ymd_day = 1\<rparr>" using x by (intro first_of_ok) simp_all
    have wf: "uint (weekday_from_days ?f) = (?f + 4) mod 7"
      using weekday_from_days_eq[OF to_days_range[OF f]] uint_u8_mod7 by (simp only: first_of_def)
    have "uint (ymw_weekday w) = (?f + ?o + 4) mod 7"
      unfolding w(5) using weekday_from_days_eq[OF to_days_range[OF ok]] uint_u8_mod7 by (simp only: t)
    also have "\<dots> = ((?f + 4) mod 7 + ?o mod 7) mod 7"
      by (simp only: mod_add_eq) (simp add: ac_simps)
    also have "\<dots> = ((?f + 4) mod 7 + (uint (ymw_weekday x) - (?f + 4) mod 7) mod 7) mod 7"
      by (simp only: o7 weekday_minus_eq wf)
    also have "\<dots> = uint (ymw_weekday x) mod 7" by (simp add: mod_add_right_eq)
    finally have "uint (ymw_wd w) = uint (ymw_wd x) mod 7"
      using weekday_of_small[OF w(4)] weekday_of_small[OF assms(2)] by (simp only: ymw_weekday_def)
    then show ?thesis using assms(2) by (simp add: word_uint_eq_iff)
  qed
  ultimately have "w = x" using w(2,3) by (cases w; cases x) simp
  with w(1) t ymw_to_days_eq[of x] x show "ymw_from_days (ymw_to_days x) = Some x" by simp
qed

text \<open>C39: the n-th weekday of a month, both ways.  Every day in the range of years is described by a valid
  month, weekday and index that denote this very day; and a valid description, a fifth weekday only where the
  month has one, denotes a day that is described by it.\<close>

theorem nth_weekdays:
  assumes "- 12687428 \<le> d" "d \<le> 11248737" "ymw_ok x" "uint (ymw_wd x) < 7"
  shows "(\<exists>w. ymw_from_days d = Some w \<and> ymw_ok w \<and> ymw_to_days w = d) \<and>
    ymw_from_days (ymw_to_days x) = Some x"
  using day_described[OF assms(1,2)] description_described[OF assms(3,4)] ..

text \<open>The first Thursday of 1970, and a fifth Saturday.\<close>

theorem nth_weekdays_witness:
  "ymw_from_days (ymw_to_days \<lparr>ymw_year = 1970, ymw_month = 1, ymw_wd = 4, ymw_index = 1\<rparr>) =
     Some \<lparr>ymw_year = 1970, ymw_month = 1, ymw_wd = 4, ymw_index = 1\<rparr> \<and>
   (\<exists>w. ymw_from_days 18290 = Some w \<and> ymw_ok w \<and> ymw_to_days w = 18290)"
proof -
  let ?x = "\<lparr>ymw_year = 1970, ymw_month = 1, ymw_wd = 4, ymw_index = 1\<rparr>"
  have "ymw_ok ?x"
    by (simp add: ymw_ok_def year_ok_def month_ok_def ymw_weekday_def weekday_of_def weekday_ok_def sint_uint)
  then show ?thesis using nth_weekdays[of 18290 ?x] by simp
qed

end
