(* ===== verification/Calendar_Operations.thy ===== *)
theory Calendar_Operations
  imports Civil_Calendar
begin

text \<open>
  The calendar types built from the fields (\<open>src/ThirdParty/date/date.h\<close>): \<open>month_day\<close>, the last day and the last
  weekday of a month (\<open>year_month_day_last\<close>, \<open>year_month_weekday_last\<close>), months and years added to dates; and
  the arithmetic of durations: rounding, the time of the day \<open>hh_mm_ss\<close>, hours of a 12-hour clock.

  A duration is the number of its ticks.  Rounding is from a unit to one that is \<open>k\<close> times as long, where
  \<open>duration_cast\<close> is the division of C, \<open>sdiv\<close>.
\<close>

section \<open>Days of a month\<close>

definition month_day_lengths :: "u8 list" where
  "month_day_lengths = [31, 29, 31, 30, 31, 30, 31, 31, 30, 31, 30, 31]"

definition month_day_ok :: "u8 \<Rightarrow> u8 \<Rightarrow> bool" where
  "month_day_ok m d \<longleftrightarrow> month_ok m \<and> 1 \<le> d \<and> d \<le> month_day_lengths ! (unat m - 1)"

definition month_day_less :: "u8 \<times> u8 \<Rightarrow> u8 \<times> u8 \<Rightarrow> bool" where
  "month_day_less x y =
     (if fst x < fst y then True
      else if fst x > fst y then False
      else snd x < snd y)"

section \<open>The last day of a month\<close>

record YearMonthDayLast =
  ymdl_year :: u16
  ymdl_month :: u8

definition ymdl_ok :: "YearMonthDayLast \<Rightarrow> bool" where
  "ymdl_ok x \<longleftrightarrow> year_ok (ymdl_year x) \<and> month_ok (ymdl_month x)"

definition ymdl_date :: "YearMonthDayLast \<Rightarrow> YearMonthDay" where
  "ymdl_date x = \<lparr>ymd_year = ymdl_year x, ymd_month = ymdl_month x, ymd_day = last_day (ymdl_year x) (ymdl_month x)\<rparr>"

definition ymdl_to_days :: "YearMonthDayLast \<Rightarrow> int" where
  "ymdl_to_days x = to_days \<lparr>ymd_year = ymdl_year x, ymd_month = ymdl_month x,
     ymd_day = last_day (ymdl_year x) (ymdl_month x)\<rparr>"

definition ymdl_less :: "YearMonthDayLast \<Rightarrow> YearMonthDayLast \<Rightarrow> bool" where
  "ymdl_less x y =
     (if sint (ymdl_year x) < sint (ymdl_year y) then True
      else if sint (ymdl_year x) > sint (ymdl_year y) then False
      else ymdl_month x < ymdl_month y)"

section \<open>Adding months and years\<close>

definition year_plus :: "u16 \<Rightarrow> int \<Rightarrow> u16" where "year_plus x n = year_of (sint x + n)"
definition year_minus :: "u16 \<Rightarrow> int \<Rightarrow> u16" where "year_minus x n = year_of (sint x - n)"
definition years_between :: "u16 \<Rightarrow> u16 \<Rightarrow> int" where "years_between x y = sint x - sint y"

definition ymd_plus_months :: "YearMonthDay \<Rightarrow> int \<Rightarrow> YearMonthDay" where
  "ymd_plus_months x dm =
     (case year_month_plus (ymd_year x, ymd_month x) dm of
        (y, m) \<Rightarrow> \<lparr>ymd_year = y, ymd_month = m, ymd_day = ymd_day x\<rparr>)"

definition ymd_minus_months :: "YearMonthDay \<Rightarrow> int \<Rightarrow> YearMonthDay" where
  "ymd_minus_months x dm = ymd_plus_months x (- dm)"

definition ymd_plus_years :: "YearMonthDay \<Rightarrow> int \<Rightarrow> YearMonthDay" where
  "ymd_plus_years x dy = \<lparr>ymd_year = year_plus (ymd_year x) dy, ymd_month = ymd_month x, ymd_day = ymd_day x\<rparr>"

definition ymd_minus_years :: "YearMonthDay \<Rightarrow> int \<Rightarrow> YearMonthDay" where
  "ymd_minus_years x dy = ymd_plus_years x (- dy)"

definition ymdl_plus_months :: "YearMonthDayLast \<Rightarrow> int \<Rightarrow> YearMonthDayLast" where
  "ymdl_plus_months x dm =
     (case year_month_plus (ymdl_year x, ymdl_month x) dm of (y, m) \<Rightarrow> \<lparr>ymdl_year = y, ymdl_month = m\<rparr>)"

definition ymdl_minus_months :: "YearMonthDayLast \<Rightarrow> int \<Rightarrow> YearMonthDayLast" where
  "ymdl_minus_months x dm = ymdl_plus_months x (- dm)"

definition ymdl_plus_years :: "YearMonthDayLast \<Rightarrow> int \<Rightarrow> YearMonthDayLast" where
  "ymdl_plus_years x dy = \<lparr>ymdl_year = year_plus (ymdl_year x) dy, ymdl_month = ymdl_month x\<rparr>"

definition ymdl_minus_years :: "YearMonthDayLast \<Rightarrow> int \<Rightarrow> YearMonthDayLast" where
  "ymdl_minus_years x dy = ymdl_plus_years x (- dy)"

definition ymw_plus_months :: "YearMonthWeekday \<Rightarrow> int \<Rightarrow> YearMonthWeekday" where
  "ymw_plus_months x dm =
     (case year_month_plus (ymw_year x, ymw_month x) dm of (y, m) \<Rightarrow> x\<lparr>ymw_year := y, ymw_month := m\<rparr>)"

definition ymw_minus_months :: "YearMonthWeekday \<Rightarrow> int \<Rightarrow> YearMonthWeekday" where
  "ymw_minus_months x dm = ymw_plus_months x (- dm)"

definition ymw_plus_years :: "YearMonthWeekday \<Rightarrow> int \<Rightarrow> YearMonthWeekday" where
  "ymw_plus_years x dy = x\<lparr>ymw_year := year_plus (ymw_year x) dy\<rparr>"

definition ymw_minus_years :: "YearMonthWeekday \<Rightarrow> int \<Rightarrow> YearMonthWeekday" where
  "ymw_minus_years x dy = ymw_plus_years x (- dy)"

section \<open>The last weekday of a month\<close>

record YearMonthWeekdayLast =
  ymwl_year :: u16
  ymwl_month :: u8
  ymwl_wd :: u8 \<comment> \<open>the weekday of a \<open>weekday_last\<close>\<close>

definition ymwl_ok :: "YearMonthWeekdayLast \<Rightarrow> bool" where
  "ymwl_ok x \<longleftrightarrow> year_ok (ymwl_year x) \<and> month_ok (ymwl_month x) \<and> weekday_ok (ymwl_wd x)"

definition ymwl_to_days :: "YearMonthWeekdayLast \<Rightarrow> int" where
  "ymwl_to_days x =
     (let d = ymdl_to_days \<lparr>ymdl_year = ymwl_year x, ymdl_month = ymwl_month x\<rparr>
      in d - weekday_minus (weekday_from_days d) (ymwl_wd x))"

definition ymwl_plus_months :: "YearMonthWeekdayLast \<Rightarrow> int \<Rightarrow> YearMonthWeekdayLast" where
  "ymwl_plus_months x dm =
     (case year_month_plus (ymwl_year x, ymwl_month x) dm of (y, m) \<Rightarrow> x\<lparr>ymwl_year := y, ymwl_month := m\<rparr>)"

definition ymwl_minus_months :: "YearMonthWeekdayLast \<Rightarrow> int \<Rightarrow> YearMonthWeekdayLast" where
  "ymwl_minus_months x dm = ymwl_plus_months x (- dm)"

definition ymwl_plus_years :: "YearMonthWeekdayLast \<Rightarrow> int \<Rightarrow> YearMonthWeekdayLast" where
  "ymwl_plus_years x dy = x\<lparr>ymwl_year := year_plus (ymwl_year x) dy\<rparr>"

definition ymwl_minus_years :: "YearMonthWeekdayLast \<Rightarrow> int \<Rightarrow> YearMonthWeekdayLast" where
  "ymwl_minus_years x dy = ymwl_plus_years x (- dy)"

section \<open>Durations\<close>

definition trunc_duration :: "int \<Rightarrow> int \<Rightarrow> int" where
  "trunc_duration k d = d sdiv k"

definition floor_duration :: "int \<Rightarrow> int \<Rightarrow> int" where
  "floor_duration k d = (let t = trunc_duration k d in if t * k > d then t - 1 else t)"

definition ceil_duration :: "int \<Rightarrow> int \<Rightarrow> int" where
  "ceil_duration k d = (let t = trunc_duration k d in if t * k < d then t + 1 else t)"

definition round_duration :: "int \<Rightarrow> int \<Rightarrow> int" where
  "round_duration k d =
     (let t0 = floor_duration k d;
          t1 = t0 + 1;
          t1 = (if t1 = 0 \<and> t0 < 0 then - t1 else t1);
          diff0 = d - t0 * k;
          diff1 = t1 * k - d
      in if diff0 = diff1 then (if t0 - trunc_duration 1 (t0 sdiv 2) * 2 = 0 then t0 else t1)
         else if diff0 < diff1 then t0 else t1)"

definition abs_duration :: "int \<Rightarrow> int" where
  "abs_duration d = (if 0 \<le> d then d else - d)"

text \<open>The time of the day, of a duration with \<open>k\<close> ticks to the second, \<open>k\<close> a power of ten, so that the fraction of a
  second is counted in these ticks as well.\<close>

record HhMmSs =
  hms_h :: int
  hms_m :: int
  hms_s :: int
  hms_sub_s :: int
  hms_neg :: bool

definition new_hms :: "int \<Rightarrow> int \<Rightarrow> HhMmSs" where
  "new_hms k d =
     (let a = abs_duration d;
          h = a sdiv (3600 * k);
          m = a sdiv (60 * k) - h * 60;
          rest = a - h * 3600 * k - m * 60 * k;
          s = rest sdiv k
      in \<lparr>hms_h = h, hms_m = m, hms_s = s, hms_sub_s = rest - s * k, hms_neg = d < 0\<rparr>)"

definition hms_to_duration :: "int \<Rightarrow> HhMmSs \<Rightarrow> int" where
  "hms_to_duration k x =
     (hms_s x * k + hms_sub_s x + hms_m x * 60 * k + hms_h x * 3600 * k) * (1 - 2 * of_bool (hms_neg x))"

definition hms_conventional :: "int \<Rightarrow> HhMmSs \<Rightarrow> bool" where
  "hms_conventional k x \<longleftrightarrow> \<not> hms_neg x \<and> hms_h x < 24 \<and> hms_m x < 60 \<and> hms_sub_s x < k \<and> hms_s x < 60"

definition is_am :: "int \<Rightarrow> bool" where "is_am h \<longleftrightarrow> 0 \<le> h \<and> h < 12"
definition is_pm :: "int \<Rightarrow> bool" where "is_pm h \<longleftrightarrow> 12 \<le> h \<and> h < 24"

definition make12 :: "int \<Rightarrow> int" where
  "make12 h = (if h < 12 then if h = 0 then 12 else h else if h \<noteq> 12 then h - 12 else h)"

definition make24 :: "int \<Rightarrow> bool \<Rightarrow> int" where
  "make24 h pm = (if pm then if h \<noteq> 12 then h + 12 else h else if h = 12 then 0 else h)"

section \<open>Which days there are\<close>

lemma month_day_length:
  assumes "month_ok m"
  shows "uint (month_day_lengths ! (unat m - 1)) = month_length (uint m)"
  using month_ok_cases[OF assms] by (elim disjE; simp add: month_day_lengths_def month_length_def)

text \<open>A \<open>month_day\<close> is valid exactly if some year has this day.\<close>

theorem month_day_in_some_year:
  "month_day_ok m d \<longleftrightarrow> (\<exists>y. ymd_ok \<lparr>ymd_year = y, ymd_month = m, ymd_day = d\<rparr>)"
proof
  assume ok: "month_day_ok m d"
  then have "uint (last_day 2000 m) = month_length (uint m)"
    using last_day_eq[of m 2000] by (simp add: month_day_ok_def leap_def sint_uint)
  with ok have "ymd_ok \<lparr>ymd_year = 2000, ymd_month = m, ymd_day = d\<rparr>"
    using month_day_length[of m] by (intro ymd_okI) (simp_all add: month_day_ok_def word_le_def sint_uint)
  then show "\<exists>y. ymd_ok \<lparr>ymd_year = y, ymd_month = m, ymd_day = d\<rparr>" ..
next
  assume "\<exists>y. ymd_ok \<lparr>ymd_year = y, ymd_month = m, ymd_day = d\<rparr>"
  then obtain y where "ymd_ok \<lparr>ymd_year = y, ymd_month = m, ymd_day = d\<rparr>" ..
  from ymd_ok_fields(1,4,6)[OF this] show "month_day_ok m d"
    using month_day_length[of m] by (simp add: month_day_ok_def word_le_def)
qed

section \<open>The day after the last\<close>

text \<open>Two \<open>year_month\<close>s with the same count are the same.\<close>

lemma month_count_inj:
  assumes "month_ok (snd x)" "month_ok (snd y)" "month_count x = month_count y"
  shows "x = y"
proof -
  have "1 \<le> uint (snd x)" "uint (snd x) \<le> 12" "1 \<le> uint (snd y)" "uint (snd y) \<le> 12"
    using month_ok_range assms(1,2) by blast+
  then have "sint (fst x) = sint (fst y)" "uint (snd x) = uint (snd y)"
    using assms(3) unfolding month_count_def by presburger+
  then show ?thesis by (metis signed_word_eqI word_uint_eq_iff prod_eq_iff)
qed

lemma ymdl_date_ok: "ymdl_ok x \<Longrightarrow> ymd_ok (ymdl_date x)"
  using last_day_pos[of "ymdl_month x" "ymdl_year x"] by (simp add: ymdl_ok_def ymdl_date_def ymd_ok_def word_le_def)

lemma ymdl_to_days_date: "ymdl_to_days x = to_days (ymdl_date x)"
  by (simp add: ymdl_to_days_def ymdl_date_def)

lemma next_day_of_last:
  assumes "ymdl_ok x" "ymdl_date x \<noteq> last_date"
  shows "next_day (ymdl_date x) = (case year_month_plus (ymdl_year x, ymdl_month x) 1 of
    (y, m) \<Rightarrow> \<lparr>ymd_year = y, ymd_month = m, ymd_day = 1\<rparr>)"
proof -
  let ?n = "next_day (ymdl_date x)" and ?ym = "(ymdl_year x, ymdl_month x)"
  note ok = ymdl_date_ok[OF assms(1)] and f = ymd_ok_fields[OF ymdl_date_ok[OF assms(1)]]
  from ok assms(2) have "ymd_day ?n = 1 \<and> month_count (ymd_year ?n, ymd_month ?n) = month_count ?ym + 1"
    by (cases rule: next_day_cases) (simp_all add: ymdl_date_def month_count_def)
  moreover note ymd_ok_fields[OF next_day_ok[OF ok assms(2)]]
  ultimately have n: "ymd_day ?n = 1" "month_count (ymd_year ?n, ymd_month ?n) = month_count ?ym + 1"
      "month_ok (ymd_month ?n)" "- 32767 \<le> sint (ymd_year ?n)" "sint (ymd_year ?n) \<le> 32767"
      "1 \<le> uint (ymd_month ?n)" "uint (ymd_month ?n) \<le> 12"
    by simp_all
  have "month_count (ymd_year ?n, ymd_month ?n) div 12 = sint (ymd_year ?n)"
    unfolding month_count_def fst_conv snd_conv using n(6,7) by presburger
  then have "(month_count ?ym + 1) div 12 = sint (ymd_year ?n)" by (simp only: n(2))
  then have "month_count (year_month_plus ?ym 1) = month_count ?ym + 1" "month_ok (snd (year_month_plus ?ym 1))"
    using year_month_plus_count[of ?ym 1] n(4,5) by simp_all
  then have "year_month_plus ?ym 1 = (ymd_year ?n, ymd_month ?n)"
    using n(2,3) by (intro month_count_inj) simp_all
  then show ?thesis using n(1) by (cases ?n) simp
qed

text \<open>The last day of a month is a valid date, and the day after it is the first of the next month.\<close>

theorem last_day_before_first:
  assumes "ymdl_ok x" "ymdl_date x \<noteq> last_date"
  shows "ymd_ok (ymdl_date x) \<and> ymdl_to_days x + 1 = (case year_month_plus (ymdl_year x, ymdl_month x) 1 of
    (y, m) \<Rightarrow> first_of y m)"
  using to_days_next[OF ymdl_date_ok[OF assms(1)] assms(2)] ymdl_date_ok[OF assms(1)]
  by (simp add: next_day_of_last[OF assms] ymdl_to_days_date first_of_def split: prod.splits)

theorem last_day_before_first_witness:
  "ymdl_to_days \<lparr>ymdl_year = 2024, ymdl_month = 2\<rparr> + 1 = (case year_month_plus (2024, 2) 1 of (y, m) \<Rightarrow> first_of y m)"
proof -
  have "ymdl_ok \<lparr>ymdl_year = 2024, ymdl_month = 2\<rparr>" by (simp add: ymdl_ok_def year_ok_def month_ok_def sint_uint)
  moreover have "ymdl_date \<lparr>ymdl_year = 2024, ymdl_month = 2\<rparr> \<noteq> last_date" by (simp add: ymdl_date_def last_date_def)
  ultimately show ?thesis using last_day_before_first[of "\<lparr>ymdl_year = 2024, ymdl_month = 2\<rparr>"] by simp
qed

section \<open>The last weekday\<close>

text \<open>The last weekday of a month: the day that is counted is a valid date of the month, falls on the weekday,
  and seven days later the month is over.\<close>

theorem last_weekday_is_last:
  assumes "ymwl_ok x"
  shows "\<exists>a. ymd_ok a \<and> ymd_year a = ymwl_year x \<and> ymd_month a = ymwl_month x \<and> to_days a = ymwl_to_days x \<and>
    weekday_from_days (ymwl_to_days x) = ymwl_wd x \<and> uint (last_day (ymwl_year x) (ymwl_month x)) < uint (ymd_day a) + 7"
proof -
  let ?l = "\<lparr>ymdl_year = ymwl_year x, ymdl_month = ymwl_month x\<rparr>" and ?last = "last_day (ymwl_year x) (ymwl_month x)"
  have x: "year_ok (ymwl_year x)" "month_ok (ymwl_month x)" "uint (ymwl_wd x) \<le> 6"
    using assms by (simp_all add: ymwl_ok_def weekday_ok_def word_le_def)
  have l: "ymd_ok (ymdl_date ?l)" by (rule ymdl_date_ok) (simp add: ymdl_ok_def x)
  define D where "D = ymdl_to_days ?l"
  define m where "m = weekday_minus (weekday_from_days D) (ymwl_wd x)"
  have m: "0 \<le> m" "m < 7" by (simp_all add: m_def weekday_minus_eq)
  have D: "D = to_days (ymdl_date ?l)" "- (2 ^ 31) \<le> D" "D < 2 ^ 31"
    using to_days_range[OF l] by (simp_all add: D_def ymdl_to_days_date)
  let ?a = "\<lparr>ymd_year = ymwl_year x, ymd_month = ymwl_month x, ymd_day = word_of_int (uint ?last - m)\<rparr>"
  have ld: "28 \<le> uint ?last" "uint ?last \<le> 31" using last_day_pos last_day_le x(2) by blast+
  then have d: "uint (word_of_int (uint ?last - m) :: u8) = uint ?last - m" using m by (intro uint_w8) simp_all
  have a: "ymd_ok ?a" using x m ld d by (intro ymd_okI) (simp_all add: year_ok_def)
  have t: "to_days ?a = D - m"
    using to_days_in_month[OF a] to_days_in_month[OF l] d by (simp add: D(1) ymdl_date_def)
  have "weekday_from_days (D - m) = ymwl_wd x"
  proof -
    have "weekday_from_days D = word_of_int ((D + 4) mod 7)" using D(2,3) by (rule weekday_from_days_eq)
    then have "m = ((D + 4) mod 7 - uint (ymwl_wd x)) mod 7" by (simp only: m_def weekday_minus_eq uint_u8_mod7)
    then have "(D + 4 - m) mod 7 = (D + 4 - ((D + 4) mod 7 - uint (ymwl_wd x))) mod 7"
      by (simp only: mod_diff_right_eq)
    also have "D + 4 - ((D + 4) mod 7 - uint (ymwl_wd x)) = uint (ymwl_wd x) + 7 * ((D + 4) div 7)"
      by (simp add: minus_mod_eq_mult_div[symmetric])
    also have "\<dots> mod 7 = uint (ymwl_wd x)" unfolding mod_mult_self2 using x(3) by simp
    finally have "(D - m + 4) mod 7 = uint (ymwl_wd x)" by (simp only: diff_add_eq)
    moreover have "weekday_from_days (D - m) = word_of_int ((D - m + 4) mod 7)"
      using to_days_range[OF a] unfolding t by (rule weekday_from_days_eq)
    ultimately show ?thesis by simp
  qed
  moreover have "ymwl_to_days x = D - m" by (simp add: ymwl_to_days_def D_def m_def Let_def)
  ultimately show ?thesis using a t d m by (intro exI[of _ ?a]) simp
qed

text \<open>The last Sunday of March 2021.\<close>

theorem last_weekday_is_last_witness:
  "\<exists>a. ymd_ok a \<and> to_days a = ymwl_to_days \<lparr>ymwl_year = 2021, ymwl_month = 3, ymwl_wd = 0\<rparr>"
proof -
  have "ymwl_ok \<lparr>ymwl_year = 2021, ymwl_month = 3, ymwl_wd = 0\<rparr>"
    by (simp add: ymwl_ok_def year_ok_def month_ok_def weekday_ok_def sint_uint)
  from last_weekday_is_last[OF this] show ?thesis by blast
qed

section \<open>Months of dates\<close>

lemma month_count_div: "month_ok m \<Longrightarrow> month_count (y, m) div 12 = sint y"
  using month_ok_range[of m] unfolding month_count_def fst_conv snd_conv by presburger

text \<open>Adding months keeps the day of the month; what comes out is a date unless the month is too short for the day,
  which the caller has to look at; and subtracting the months leads back in either case.\<close>

theorem months_of_dates:
  assumes "ymd_ok x" "month_count (ymd_year x, ymd_month x) + n = c" "- 32767 \<le> c div 12" "c div 12 \<le> 32767"
  shows "(let r = ymd_plus_months x n in
    month_count (ymd_year r, ymd_month r) = c \<and> ymd_day r = ymd_day x \<and>
    (ymd_ok r \<longleftrightarrow> ymd_day x \<le> last_day (ymd_year r) (ymd_month r)) \<and> ymd_minus_months r n = x)"
proof -
  let ?x = "(ymd_year x, ymd_month x)"
  obtain y m where ym: "year_month_plus ?x n = (y, m)" by fastforce
  note f = ymd_ok_fields[OF assms(1)]
  have c: "month_count (y, m) = c" "month_ok m"
    using year_month_plus_count[of ?x n] assms(2-4) by (simp_all add: ym)
  then have y: "sint y = c div 12" using month_count_div by metis
  have b: "(month_count (y, m) + - n) div 12 = sint (ymd_year x)"
    using month_count_div[OF f(1), of "ymd_year x"] by (simp add: c(1) assms(2)[symmetric])
  then have "month_count (year_month_plus (y, m) (- n)) = month_count ?x" "month_ok (snd (year_month_plus (y, m) (- n)))"
    using year_month_plus_count[of "(y, m)" "- n"] f(7,8) c(1) assms(2) by simp_all
  then have "year_month_plus (y, m) (- n) = ?x" using f(1) by (intro month_count_inj) simp_all
  moreover have "1 \<le> ymd_day x" using f(4) by (simp add: word_le_def)
  ultimately show ?thesis using c y assms(3)
    by (simp add: ymd_plus_months_def ymd_minus_months_def ym ymd_ok_def year_ok_def)
qed

text \<open>One month after January 31 is no date.\<close>

theorem months_of_dates_witness:
  "\<not> ymd_ok (ymd_plus_months \<lparr>ymd_year = 2021, ymd_month = 1, ymd_day = 31\<rparr> 1) \<and>
   ymd_minus_months (ymd_plus_months \<lparr>ymd_year = 2021, ymd_month = 1, ymd_day = 31\<rparr> 1) 1 =
     \<lparr>ymd_year = 2021, ymd_month = 1, ymd_day = 31\<rparr>"
proof -
  let ?x = "\<lparr>ymd_year = 2021, ymd_month = 1, ymd_day = 31\<rparr>" and ?r = "ymd_plus_months \<lparr>ymd_year = 2021, ymd_month = 1, ymd_day = 31\<rparr> 1"
  have ok: "ymd_ok ?x"
    by (simp add: ymd_ok_def year_ok_def month_ok_def last_day_def month_lengths_def sint_uint)
  have r: "ymd_plus_months ?x 1 = \<lparr>ymd_year = 2021, ymd_month = 2, ymd_day = 31\<rparr>"
    by (simp add: ymd_plus_months_def year_month_plus_def year_of_def month_of_def sint_uint signed_divide_int_def Let_def)
  have "uint (last_day 2021 2) = 28"
    using last_day_eq[of 2 2021] by (simp add: month_ok_def month_length_def leap_def sint_uint)
  then have "\<not> 31 \<le> last_day 2021 2" by (simp add: word_le_def)
  with months_of_dates[OF ok, of 1 24253] show ?thesis
    unfolding r Let_def by (simp add: month_count_def sint_uint)
qed

section \<open>Rounding\<close>

text \<open>The roundings of durations: \<open>floor\<close> and \<open>ceil\<close> are the mathematical ones, for negative durations too, and
  \<open>round\<close> gives the nearest, the even one of two.\<close>

lemma floor_duration_div:
  assumes "0 < k"
  shows "floor_duration k d = d div k"
proof (cases "0 \<le> d")
  case True
  then have "d sdiv k = d div k" using assms by (cases "d = 0") (simp_all add: signed_divide_int_def)
  moreover have "d div k * k \<le> d" using assms pos_mod_sign[of k d] by (simp add: minus_mod_eq_div_mult[symmetric])
  ultimately show ?thesis by (simp add: floor_duration_def trunc_duration_def)
next
  case False
  have t: "d sdiv k = - ((- d) div k)" using False assms by (simp add: signed_divide_int_def)
  define q r where "q = d div k" and "r = d mod k"
  have d: "d = q * k + r" "0 \<le> r" "r < k" using assms by (simp_all add: q_def r_def)
  show ?thesis
  proof (cases "r = 0")
    case True
    then have "- d = (- q) * k" using d(1) by simp
    then have "(- d) div k = - q" using assms nonzero_mult_div_cancel_right[of k "- q"] by (simp only:)
    then have "d sdiv k = q" using t by simp
    then show ?thesis using True d(1) assms by (simp add: floor_duration_def trunc_duration_def q_def[symmetric])
  next
    case r: False
    have "(- d) div k = - q - 1" using d r assms by (intro int_div_pos_eq[where r = "k - r"]) (simp_all add: algebra_simps)
    then have "d sdiv k = q + 1" using t by simp
    moreover have "d < (q + 1) * k" using d(3) unfolding distrib_right d(1) by simp
    ultimately show ?thesis by (simp add: floor_duration_def trunc_duration_def q_def[symmetric])
  qed
qed

lemma ceil_duration_div:
  assumes "0 < k"
  shows "ceil_duration k d = - ((- d) div k)"
proof -
  have "(- d) sdiv k = - (d sdiv k)" by (simp add: signed_divide_int_def sgn_minus)
  then have "ceil_duration k d = - floor_duration k (- d)"
    by (simp add: ceil_duration_def floor_duration_def trunc_duration_def Let_def)
  then show ?thesis by (simp only: floor_duration_div[OF assms])
qed

lemma even_sdiv: "(x :: int) - x sdiv 2 * 2 = 0 \<longleftrightarrow> even x"
proof -
  have "x - x sdiv 2 * 2 = x smod 2" by (rule minus_sdiv_mult_eq_smod)
  then show ?thesis by (simp add: smod_eq_0)
qed

theorem durations_round:
  assumes "0 < k"
  shows "floor_duration k d = d div k \<and> ceil_duration k d = - ((- d) div k) \<and>
    \<bar>2 * (round_duration k d * k - d)\<bar> \<le> k \<and>
    (\<bar>2 * (round_duration k d * k - d)\<bar> = k \<longrightarrow> even (round_duration k d))"
proof -
  define q r where "q = d div k" and "r = d mod k"
  have d: "d = q * k + r" "0 \<le> r" "r < k" using assms by (simp_all add: q_def r_def)
  have t1: "(if q + 1 = 0 \<and> q < 0 then - (q + 1) else q + 1) = q + 1" by simp
  have one: "q sdiv 2 sdiv 1 = q sdiv 2" by simp
  have diff: "d - q * k = r" "(q + 1) * k - d = k - r" using d(1) by (simp_all add: algebra_simps)
  have round: "round_duration k d = (if r = k - r then if even q then q else q + 1 else if r < k - r then q else q + 1)"
    unfolding round_duration_def floor_duration_div[OF assms] Let_def q_def[symmetric] t1 diff
      trunc_duration_def one even_sdiv ..
  define e where "e = round_duration k d * k - d"
  have e: "e = (if r = k - r then if even q then - r else k - r else if r < k - r then - r else k - r)"
    unfolding e_def round using diff by (auto split: if_splits)
  consider "2 * r = k" | "2 * r < k" | "k < 2 * r" by linarith
  then have "\<bar>2 * (round_duration k d * k - d)\<bar> \<le> k \<and>
    (\<bar>2 * (round_duration k d * k - d)\<bar> = k \<longrightarrow> even (round_duration k d))"
    unfolding e_def[symmetric] using d(2,3) by cases (simp_all add: e round)
  then show ?thesis using floor_duration_div[OF assms] ceil_duration_div[OF assms] by simp
qed

text \<open>Minutes of -90 seconds: -2 rounded down, -1 up, and -2 as the even neighbour.\<close>

theorem durations_round_witness:
  "floor_duration 60 (- 90) = - 2 \<and> ceil_duration 60 (- 90) = - 1 \<and> \<bar>2 * (round_duration 60 (- 90) * 60 - - 90)\<bar> \<le> 60"
  using durations_round[of 60 "- 90"] by simp

section \<open>The time of the day\<close>

lemma div_less_mult:
  assumes "0 < (k :: int)"
  shows "a div k < n \<longleftrightarrow> a < n * k"
proof -
  have a: "a = a div k * k + a mod k" "0 \<le> a mod k" "a mod k < k" using assms by simp_all
  show ?thesis
  proof (cases "a div k < n")
    case True
    then have "(a div k + 1) * k \<le> n * k" using assms by (intro mult_right_mono) simp_all
    then show ?thesis using True a unfolding distrib_right by linarith
  next
    case False
    then have "n * k \<le> a div k * k" using assms by (intro mult_right_mono) simp_all
    then show ?thesis using False a by linarith
  qed
qed

text \<open>The fields of a time of the day are in their ranges, give back the duration with its sign, and the range is
  called conventional exactly for the durations of one day.\<close>

theorem time_of_day_splits:
  assumes "0 < k"
  shows "hms_to_duration k (new_hms k d) = d \<and> 0 \<le> hms_h (new_hms k d) \<and>
    0 \<le> hms_m (new_hms k d) \<and> hms_m (new_hms k d) < 60 \<and> 0 \<le> hms_s (new_hms k d) \<and> hms_s (new_hms k d) < 60 \<and>
    0 \<le> hms_sub_s (new_hms k d) \<and> hms_sub_s (new_hms k d) < k \<and>
    (hms_conventional k (new_hms k d) \<longleftrightarrow> 0 \<le> d \<and> d < 86400 * k)"
proof -
  define a where "a = abs_duration d"
  have a: "0 \<le> a" "d = a * (1 - 2 * of_bool (d < 0))" by (simp_all add: a_def abs_duration_def)
  have sdiv: "x sdiv y = x div y" if "0 \<le> x" "0 < y" for x y :: int
    using that by (cases "x = 0") (simp_all add: signed_divide_int_def)
  define t where "t = a div k"
  have at: "a = t * k + a mod k" "0 \<le> a mod k" "a mod k < k" using assms by (simp_all add: t_def)
  have t: "0 \<le> t" using a(1) assms by (simp add: t_def pos_imp_zdiv_nonneg_iff)
  have h: "a sdiv (3600 * k) = t div 3600" "a sdiv (60 * k) = t div 60"
    using a(1) assms by (simp_all add: sdiv t_def zdiv_zmult2_eq[of _ k, simplified mult.commute[of k]] mult.commute[of _ k]
        zdiv_zmult2_eq less_imp_le)
  define m where "m = t div 60 - t div 3600 * 60"
  have m: "m = t div 60 mod 60" "0 \<le> m" "m < 60"
    by (simp_all add: m_def minus_div_mult_eq_mod[symmetric] zdiv_zmult2_eq[of 60 t 60, simplified])
  have rest: "a - t div 3600 * 3600 * k - m * 60 * k = t mod 60 * k + a mod k"
  proof -
    have "t div 3600 * 3600 + m * 60 + t mod 60 = t" by (simp add: m_def left_diff_distrib)
    then have "(t div 3600 * 3600 + m * 60 + t mod 60) * k = t * k" by (simp only:)
    then show ?thesis using at(1) unfolding distrib_right by linarith
  qed
  have s: "(t mod 60 * k + a mod k) sdiv k = t mod 60"
    using at assms by (subst sdiv) simp_all
  have new: "new_hms k d = \<lparr>hms_h = t div 3600, hms_m = m, hms_s = t mod 60, hms_sub_s = a mod k, hms_neg = d < 0\<rparr>"
    by (simp only: new_hms_def Let_def h rest s a_def[symmetric] m_def[symmetric] add_diff_cancel_left')
  have "(t mod 60 * k + a mod k + m * 60 * k + t div 3600 * 3600 * k) = a" using rest by simp
  then have "hms_to_duration k (new_hms k d) = d" using a(2) by (simp add: hms_to_duration_def new)
  moreover have "t div 3600 < 24 \<longleftrightarrow> a < 86400 * k"
  proof -
    have "t div 3600 < 24 \<longleftrightarrow> t < 24 * 3600" by (rule div_less_mult) simp
    also have "\<dots> \<longleftrightarrow> a < 86400 * k" using div_less_mult[OF assms, of a 86400] by (simp add: t_def)
    finally show ?thesis .
  qed
  moreover have "\<not> d < 0 \<Longrightarrow> a = d" by (simp add: a_def abs_duration_def)
  moreover have "0 \<le> t div 3600" using t by (simp add: pos_imp_zdiv_nonneg_iff)
  moreover have "0 \<le> t mod 60" "t mod 60 < 60" by simp_all
  ultimately show ?thesis using m(2,3) at(2,3) by (auto simp: new hms_conventional_def simp del: div_pos_pos_trivial)
qed

theorem time_of_day_splits_witness: "hms_to_duration 1000 (new_hms 1000 (- 3661001)) = - 3661001"
  using time_of_day_splits[of 1000 "- 3661001"] by simp

text \<open>Hours of the 12-hour clock, and back.\<close>

theorem hours_roundtrip:
  assumes "0 \<le> h" "h < 24"
  shows "make24 (make12 h) (is_pm h) = h \<and> 1 \<le> make12 h \<and> make12 h \<le> 12 \<and> is_am h = (\<not> is_pm h)"
  using assms by (simp add: make12_def make24_def is_pm_def is_am_def)

theorem hours_roundtrip_witness: "make24 (make12 0) (is_pm 0) = 0 \<and> make12 0 = 12"
  using hours_roundtrip[of 0] by (simp add: make12_def)

end
